(* ===== verification/Prelude.thy ===== *)
theory Prelude
  imports Main "HOL-Library.AList" "HOL-Library.Multiset" "HOL-Library.Word"
begin

text \<open>
  Shared vocabulary of the development: the names of the Rust scalar types, the wrap-around of
  \<^verbatim>\<open>i64\<close> arithmetic, fallible stateful operations, the map and vector operations of the Rust
  code that HOL has no constant for, and the generic lemmas about them.

  \<^item> \<^verbatim>\<open>String\<close> is \<open>string\<close>: a Rust string is a sequence of UTF-8 bytes and an HOL \<open>char\<close> is
    a byte, so \<open>length\<close> is Rust's \<^verbatim>\<open>len()\<close>.
  \<^item> \<^verbatim>\<open>u8\<close> and \<^verbatim>\<open>u16\<close> are words; \<^verbatim>\<open>Vec<u8>\<close> is a list of 8-bit words.
  \<^item> \<^verbatim>\<open>i64\<close> is \<open>int\<close>; every addition or subtraction of the source goes through \<open>wrap64\<close>, the
    two's complement wrap-around of a release build (\<^verbatim>\<open>overflow-checks\<close> is off in the release
    profile of \<^verbatim>\<open>Cargo.toml\<close>).
  \<^item> \<^verbatim>\<open>usize\<close> is \<open>nat\<close>: the sizes are lengths of allocations and never reach the word size.
  \<^item> An \<^verbatim>\<open>IndexMap\<close> (insertion-ordered) and a \<^verbatim>\<open>HashMap\<close> are association lists with distinct
    keys: \<^verbatim>\<open>insert\<close> is \<open>AList.update\<close> (in place, or at the end), \<^verbatim>\<open>shift_remove\<close> and
    \<^verbatim>\<open>remove\<close> are \<open>AList.delete\<close>. The order of a \<^verbatim>\<open>HashMap\<close> is never observed.
\<close>

type_synonym u8 = "8 word"
type_synonym u16 = "16 word"
type_synonym bytes = "u8 list"
type_synonym i64 = int
type_synonym usize = nat

text \<open>A fallible operation on a state: the result (\<open>Inl\<close> the error) and the state it leaves.\<close>

type_synonym ('s, 'e, 'a) op = "'s \<Rightarrow> ('e + 'a) \<times> 's"

named_theorems storage_defs \<open>definitions of the storage operations\<close>
named_theorems storage_simps \<open>rewriting the contents of a backend\<close>

section \<open>Definitions\<close>

text \<open>Two's complement wrap-around of \<^verbatim>\<open>i64\<close>.\<close>

definition wrap64 :: "int \<Rightarrow> i64" where
  "wrap64 x = (x + 2 ^ 63) mod 2 ^ 64 - 2 ^ 63"

definition is_i64 :: "int \<Rightarrow> bool" where
  "is_i64 x \<longleftrightarrow> - (2 ^ 63) \<le> x \<and> x < 2 ^ 63"

text \<open>\<^verbatim>\<open>Option::unwrap_or\<close> and the \<^verbatim>\<open>unwrap_or_default\<close> of a vector-valued map.\<close>

definition unwrap_or :: "'a \<Rightarrow> 'a option \<Rightarrow> 'a" where
  "unwrap_or d x = (case x of None \<Rightarrow> d | Some v \<Rightarrow> v)"

definition get_or_default :: "('k \<times> 'v list) list \<Rightarrow> 'k \<Rightarrow> 'v list" where
  "get_or_default m k = unwrap_or [] (map_of m k)"

text \<open>\<^verbatim>\<open>map.entry(k).or_default().push(v)\<close>.\<close>

definition entry_push :: "'k \<Rightarrow> 'v \<Rightarrow> ('k \<times> 'v list) list \<Rightarrow> ('k \<times> 'v list) list" where
  "entry_push k v m = AList.update k (get_or_default m k @ [v]) m"

text \<open>Store a vector back under its key, then drop the key when the vector became empty.\<close>

definition put_or_shift_remove :: "'k \<Rightarrow> 'v list \<Rightarrow> ('k \<times> 'v list) list \<Rightarrow> ('k \<times> 'v list) list"
  where
  "put_or_shift_remove k vs m =
     (let m' = AList.update k vs m in if vs = [] then AList.delete k m' else m')"

text \<open>\<^verbatim>\<open>iter().position(p)\<close> and \<^verbatim>\<open>Vec::remove(i)\<close> (the callers remove at a position found).\<close>

fun position :: "('a \<Rightarrow> bool) \<Rightarrow> 'a list \<Rightarrow> usize option" where
  "position p [] = None"
| "position p (x # xs) = (if p x then Some 0 else map_option Suc (position p xs))"

definition vec_remove :: "usize \<Rightarrow> 'a list \<Rightarrow> 'a list" where
  "vec_remove i xs = take i xs @ drop (Suc i) xs"

text \<open>\<^verbatim>\<open>slice.last()\<close>.\<close>

definition last_opt :: "'a list \<Rightarrow> 'a option" where
  "last_opt xs = (if xs = [] then None else Some (last xs))"

text \<open>The first match leaves a list: what removing the element at its position amounts to.\<close>

fun remove_first :: "('a \<Rightarrow> bool) \<Rightarrow> 'a list \<Rightarrow> 'a list" where
  "remove_first p [] = []"
| "remove_first p (x # xs) = (if p x then xs else x # remove_first p xs)"

text \<open>An insertion-ordered map whose vectors are never empty: the shape every map of vectors keeps.\<close>

definition multimap_ok :: "('k \<times> 'v list) list \<Rightarrow> bool" where
  "multimap_ok m \<longleftrightarrow> distinct (map fst m) \<and> (\<forall>vs \<in> snd ` set m. vs \<noteq> [])"

section \<open>Lemmas\<close>

subsection \<open>Wrap-around\<close>

lemma wrap64_id: "is_i64 x \<Longrightarrow> wrap64 x = x"
  by (simp add: wrap64_def is_i64_def)

lemma is_i64_wrap64: "is_i64 (wrap64 x)"
proof -
  have "0 \<le> (x + 2 ^ 63) mod (2 ^ 64 :: int)" "(x + 2 ^ 63) mod (2 ^ 64 :: int) < 2 ^ 64"
    by simp_all
  then show ?thesis by (simp add: wrap64_def is_i64_def)
qed

subsection \<open>Options and positions\<close>

lemma unwrap_or_simps [simp]: "unwrap_or d None = d" "unwrap_or d (Some v) = v"
  by (simp_all add: unwrap_or_def)

lemma position_eq_None: "position p xs = None \<longleftrightarrow> (\<forall>x \<in> set xs. \<not> p x)"
  by (induction xs) auto

lemma position_SomeD:
  "position p xs = Some i \<Longrightarrow> i < length xs \<and> p (xs ! i) \<and> find p xs = Some (xs ! i)"
  by (induction xs arbitrary: i) (auto split: if_splits)

lemma position_Some_ex: "position p xs = Some i \<Longrightarrow> \<exists>x \<in> set xs. p x"
  by (blast dest: position_SomeD nth_mem)

lemma update_position_map:
  assumes "distinct (map key xs)" "position (\<lambda>x. key x = k) xs = Some i"
  shows "xs[i := f (xs ! i)] = map (\<lambda>x. if key x = k then f x else x) xs"
  using assms
proof (induction xs arbitrary: i)
  case (Cons x xs)
  show ?case
  proof (cases "key x = k")
    case True
    with Cons.prems have "map (\<lambda>x. if key x = k then f x else x) xs = xs"
      by (intro map_idI) (auto simp: image_iff)
    with True Cons.prems show ?thesis by simp
  next
    case False
    with Cons show ?thesis by auto
  qed
qed simp

lemma vec_remove_position:
  "position p xs = Some i \<Longrightarrow> vec_remove i xs = remove_first p xs"
  by (induction xs arbitrary: i) (auto simp: vec_remove_def split: if_splits)

lemma position_find_None: "position p xs = None \<longleftrightarrow> find p xs = None"
  by (auto simp: find_None_iff position_eq_None)

lemma last_opt_simps [simp]: "last_opt [] = None" "last_opt (xs @ [x]) = Some x"
  by (simp_all add: last_opt_def)

lemma last_opt_eq_None [simp]: "last_opt xs = None \<longleftrightarrow> xs = []"
  by (simp add: last_opt_def)

lemma find_SomeD: "find p xs = Some x \<Longrightarrow> x \<in> set xs \<and> p x"
  by (induction xs) (auto split: if_splits)

lemma find_cong_on: "(\<And>x. x \<in> set xs \<Longrightarrow> p x = q x) \<Longrightarrow> find p xs = find q xs"
  by (induction xs) auto

lemma find_filter: "find p (filter q xs) = find (\<lambda>x. q x \<and> p x) xs"
  by (induction xs) auto

lemma find_append: "find p (xs @ ys) = (case find p xs of None \<Rightarrow> find p ys | Some x \<Rightarrow> Some x)"
  by (induction xs) auto

lemma find_unique:
  "distinct (map f xs) \<Longrightarrow> x \<in> set xs \<Longrightarrow> find (\<lambda>y. f y = f x) xs = Some x"
  by (induction xs) (auto simp: image_iff)

lemma remove_first_unique:
  "distinct (map f xs) \<Longrightarrow> remove_first (\<lambda>y. f y = a) xs = filter (\<lambda>y. f y \<noteq> a) xs"
proof (induction xs)
  case (Cons x xs)
  then show ?case by (auto intro!: filter_True [symmetric] simp: image_iff)
qed simp

lemma distinct_map_filter_eq:
  "distinct (map f xs) \<Longrightarrow> x \<in> set xs \<Longrightarrow> y \<in> set xs \<Longrightarrow> f x = f y \<Longrightarrow> x = y"
  by (metis distinct_map inj_onD)

lemma remove_first_find:
  assumes "distinct (map f xs)" "find p xs = Some x"
  shows "remove_first p xs = filter (\<lambda>y. f y \<noteq> f x) xs"
  using assms
proof (induction xs)
  case (Cons y ys)
  show ?case
  proof (cases "p y")
    case True
    with Cons.prems have "y = x" "f x \<notin> f ` set ys" by auto
    then have "filter (\<lambda>z. f z \<noteq> f x) ys = ys"
      by (intro filter_True ballI) (metis imageI)
    with \<open>y = x\<close> True show ?thesis by simp
  next
    case False
    with Cons.prems have f: "find p ys = Some x" by simp
    then have "x \<in> set ys" by (auto dest: find_SomeD)
    with Cons.prems have "f y \<noteq> f x" by force
    with False f Cons show ?thesis by simp
  qed
qed simp

lemma filter_ne_id: "find (\<lambda>y. f y = a) xs = None \<Longrightarrow> filter (\<lambda>y. f y \<noteq> a) xs = xs"
  by (auto simp: find_None_iff intro!: filter_True)

lemma sum_list_length_partition:
  "length xs - length (filter p xs) = length (filter (\<lambda>x. \<not> p x) xs)"
  by (induction xs) (auto simp: Suc_diff_le)

subsection \<open>Association lists\<close>

lemma map_of_delete: "map_of (AList.delete k m) k' = (if k' = k then None else map_of m k')"
  by (simp add: AList.delete_conv')

lemma map_of_update: "map_of (AList.update k v m) k' = (if k' = k then Some v else map_of m k')"
  by (simp add: AList.update_conv')

lemma get_or_default_Nil [simp]: "get_or_default [] k = []"
  by (simp add: get_or_default_def)

lemma get_or_default_update:
  "get_or_default (AList.update k vs m) k' = (if k' = k then vs else get_or_default m k')"
  by (simp add: get_or_default_def map_of_update)

lemma get_or_default_delete:
  "get_or_default (AList.delete k m) k' = (if k' = k then [] else get_or_default m k')"
  by (simp add: get_or_default_def map_of_delete)

lemma get_or_default_entry_push [storage_simps]:
  "get_or_default (entry_push k v m) k' =
     (if k' = k then get_or_default m k @ [v] else get_or_default m k')"
  by (simp add: entry_push_def get_or_default_update)

lemma get_or_default_put [storage_simps]:
  "get_or_default (put_or_shift_remove k vs m) k' = (if k' = k then vs else get_or_default m k')"
  by (simp add: put_or_shift_remove_def Let_def get_or_default_update get_or_default_delete)

lemma get_or_default_map_of: "map_of m k = Some vs \<Longrightarrow> get_or_default m k = vs"
  by (simp add: get_or_default_def)

lemma get_or_default_None: "map_of m k = None \<Longrightarrow> get_or_default m k = []"
  by (simp add: get_or_default_def)

lemma multimap_ok_Nil [simp]: "multimap_ok []"
  by (simp add: multimap_ok_def)

lemma set_update_subset: "snd ` set (AList.update k v m) \<subseteq> insert v (snd ` set m)"
  by (induction m) auto

lemma multimap_ok_update: "multimap_ok m \<Longrightarrow> vs \<noteq> [] \<Longrightarrow> multimap_ok (AList.update k vs m)"
  using set_update_subset [of k vs m] by (fastforce simp: multimap_ok_def distinct_update)

lemma multimap_ok_delete: "multimap_ok m \<Longrightarrow> multimap_ok (AList.delete k m)"
  by (auto simp: multimap_ok_def distinct_delete) (auto simp: AList.delete_eq)

lemma multimap_ok_entry_push [storage_simps]: "multimap_ok m \<Longrightarrow> multimap_ok (entry_push k v m)"
  by (simp add: entry_push_def multimap_ok_update)

lemma multimap_ok_put [storage_simps]: "multimap_ok m \<Longrightarrow> multimap_ok (put_or_shift_remove k vs m)"
  by (simp add: put_or_shift_remove_def Let_def AList.delete_update_same multimap_ok_update
      multimap_ok_delete)

lemma multimap_ok_keys: "multimap_ok m \<Longrightarrow> map_of m k = Some vs \<Longrightarrow> vs \<noteq> []"
  by (force simp: multimap_ok_def dest: map_of_SomeD)

lemma fold_delete: "fold AList.delete ks m = filter (\<lambda>(k, _). k \<notin> set ks) m"
  by (induction ks arbitrary: m) (auto simp: AList.delete_eq split_def intro!: filter_cong)

text \<open>The vectors of a map that groups \<open>xs\<close> by \<open>f\<close>, one after the other, are \<open>xs\<close> reordered.\<close>

lemma mset_concat_grouped:
  assumes "distinct (map fst m)" "\<forall>(k, vs) \<in> set m. vs = filter (\<lambda>r. f r = k) xs"
  shows "mset (concat (map snd m)) = filter_mset (\<lambda>r. f r \<in> fst ` set m) (mset xs)"
  using assms
proof (induction m)
  case (Cons kv m)
  obtain k vs where kv: "kv = (k, vs)" by force
  have "filter_mset (\<lambda>r. f r \<in> fst ` set (kv # m)) (mset xs) =
      filter_mset (\<lambda>r. f r = k) (mset xs) + filter_mset (\<lambda>r. f r \<in> fst ` set m) (mset xs)"
    using Cons.prems(1) kv by (intro multiset_eqI) auto
  with Cons kv show ?case by simp
qed simp

lemma mset_concat_multimap:
  assumes ok: "multimap_ok m" and get: "\<And>k. get_or_default m k = filter (\<lambda>r. f r = k) xs"
  shows "mset (concat (map snd m)) = mset xs"
proof -
  have "vs = filter (\<lambda>r. f r = k) xs" if "(k, vs) \<in> set m" for k vs
    using ok that get [of k] by (simp add: multimap_ok_def get_or_default_def)
  then have "mset (concat (map snd m)) = filter_mset (\<lambda>r. f r \<in> fst ` set m) (mset xs)"
    using ok by (intro mset_concat_grouped) (auto simp: multimap_ok_def)
  also have "\<dots> = mset xs"
  proof -
    have "f r \<in> fst ` set m" if "r \<in> set xs" for r
    proof (rule ccontr)
      assume "f r \<notin> fst ` set m"
      then have "get_or_default m (f r) = []"
        by (simp add: get_or_default_def map_of_eq_None_iff [THEN iffD2])
      then have "filter (\<lambda>x. f x = f r) xs = []" using get [of "f r"] by simp
      with that show False unfolding filter_empty_conv by blast
    qed
    then show ?thesis by (simp add: filter_mset_eq_conv)
  qed
  finally show ?thesis .
qed

end
