(* ===== verification/Types.thy ===== *)
theory Types
  imports Prelude
begin

text \<open>
  The domain records of \<^verbatim>\<open>crates/cordn-core/src/types.rs\<close> and the storage contract of
  \<^verbatim>\<open>crates/cordn-core/src/storage/mod.rs\<close>: its error type, the cap on pending join requests,
  \<^verbatim>\<open>partition_consumed_join_requests\<close>, and the trait \<^verbatim>\<open>CoordinatorStorage\<close> as a record of
  operations (a trait object is a table of methods on a hidden state \<open>'s\<close>).

  \<^verbatim>\<open>serde_json::Value\<close> is a type of another package: it is the type parameter \<open>'j\<close>, and the
  storage layer only keeps and returns its values.
\<close>

section \<open>Domain records (types.rs)\<close>

record 'j PublishedKeyPackageRecord =
  stable_pubkey :: string
  key_package_bytes :: bytes
  key_package_ref :: string
  is_last_resort :: bool
  published_at :: i64
  publication_event :: 'j

record WelcomeQueueRecord =
  target_stable_pubkey :: string
  key_package_reference :: string
  welcome_bytes :: bytes
  w_created_at :: i64
  join_after_cursor :: "i64 option"

record ConsumedWelcomeRef =
  cw_key_package_reference :: string
  cw_created_at :: i64

record JoinRequestRecord =
  jr_group_id :: string
  requester_stable_pubkey :: string
  jr_key_package_ref :: string
  jr_created_at :: i64

record ConsumedJoinRequestRef =
  cj_requester_stable_pubkey :: string
  cj_created_at :: i64

record ConsumedJoinRequestWithGroupRef =
  cg_group_id :: string
  cg_requester_stable_pubkey :: string
  cg_created_at :: i64

record GroupMessageRecord =
  cursor :: i64
  gm_group_id :: string
  opaque_message :: bytes
  gm_created_at :: i64

record FetchGroupMessagesInput =
  fg_group_id :: string
  after_cursor :: "i64 option"

section \<open>The storage contract (storage/mod.rs)\<close>

definition MAX_PENDING_JOIN_REQUESTS_PER_GROUP :: usize where
  "MAX_PENDING_JOIN_REQUESTS_PER_GROUP = 100"

datatype StorageError = Backend string | TooManyPendingJoinRequests

type_synonym ('s, 'a) sop = "('s, StorageError, 'a) op"

record AppendGroupMessageParams =
  ap_group_id :: string
  ap_opaque_message :: bytes
  ap_created_at :: i64

definition consumed_ref :: "ConsumedJoinRequestWithGroupRef \<Rightarrow> ConsumedJoinRequestRef" where
  "consumed_ref item = \<lparr>cj_requester_stable_pubkey = cg_requester_stable_pubkey item,
     cj_created_at = cg_created_at item\<rparr>"

fun partition_loop :: "ConsumedJoinRequestWithGroupRef list \<Rightarrow>
    (string \<times> ConsumedJoinRequestRef list) list \<Rightarrow> (string \<times> ConsumedJoinRequestRef list) list"
  where
  "partition_loop [] by_group = by_group"
| "partition_loop (item # items) by_group =
     partition_loop items (entry_push (cg_group_id item) (consumed_ref item) by_group)"

definition partition_consumed_join_requests ::
    "ConsumedJoinRequestWithGroupRef list \<Rightarrow> (string \<times> ConsumedJoinRequestRef list) list" where
  "partition_consumed_join_requests consumed = partition_loop consumed []"

record ('s, 'j) CoordinatorStorage =
  so_publish_key_package ::
    "'j PublishedKeyPackageRecord \<Rightarrow> ('s, 'j PublishedKeyPackageRecord) sop"
  so_list_key_packages_for_identity :: "string \<Rightarrow> ('s, 'j PublishedKeyPackageRecord list) sop"
  so_list_all_key_packages :: "('s, 'j PublishedKeyPackageRecord list) sop"
  so_get_key_package :: "string \<Rightarrow> ('s, 'j PublishedKeyPackageRecord option) sop"
  so_remove_key_package :: "string \<Rightarrow> ('s, 'j PublishedKeyPackageRecord option) sop"
  so_consume_key_package :: "string \<Rightarrow> ('s, 'j PublishedKeyPackageRecord option) sop"
  so_store_welcome :: "WelcomeQueueRecord \<Rightarrow> ('s, WelcomeQueueRecord) sop"
  so_fetch_pending_welcomes ::
    "string \<Rightarrow> ConsumedWelcomeRef list \<Rightarrow> ('s, WelcomeQueueRecord list) sop"
  so_delete_expired_welcomes :: "i64 \<Rightarrow> ('s, usize) sop"
  so_store_join_request :: "JoinRequestRecord \<Rightarrow> ('s, JoinRequestRecord) sop"
  so_fetch_pending_join_requests ::
    "string \<Rightarrow> ConsumedJoinRequestRef list \<Rightarrow> ('s, JoinRequestRecord list) sop"
  so_fetch_many_pending_join_requests ::
    "string list \<Rightarrow> ConsumedJoinRequestWithGroupRef list \<Rightarrow> ('s, JoinRequestRecord list) sop"
  so_delete_expired_join_requests :: "i64 \<Rightarrow> ('s, usize) sop"
  so_append_group_message :: "AppendGroupMessageParams \<Rightarrow> ('s, GroupMessageRecord) sop"
  so_fetch_group_messages :: "string \<Rightarrow> i64 option \<Rightarrow> ('s, GroupMessageRecord list) sop"
  so_fetch_many_group_messages ::
    "FetchGroupMessagesInput list \<Rightarrow> ('s, GroupMessageRecord list) sop"

text \<open>
  What a consumed reference matches: the two conjuncts of the \<^verbatim>\<open>retain\<close> closures and of the
  \<^verbatim>\<open>DELETE\<close> statements, within one inbox or one group.
\<close>

definition welcome_consumed :: "ConsumedWelcomeRef list \<Rightarrow> WelcomeQueueRecord \<Rightarrow> bool" where
  "welcome_consumed consumed r \<longleftrightarrow>
     (\<exists>c \<in> set consumed. cw_key_package_reference c = key_package_reference r \<and>
        cw_created_at c = w_created_at r)"

definition join_request_consumed :: "ConsumedJoinRequestRef list \<Rightarrow> JoinRequestRecord \<Rightarrow> bool" where
  "join_request_consumed consumed r \<longleftrightarrow>
     (\<exists>c \<in> set consumed. cj_requester_stable_pubkey c = requester_stable_pubkey r \<and>
        cj_created_at c = jr_created_at r)"

section \<open>Lemmas\<close>

lemma get_or_default_partition_loop:
  "get_or_default (partition_loop items m) g =
     get_or_default m g @ map consumed_ref (filter (\<lambda>c. cg_group_id c = g) items)"
  by (induction items arbitrary: m) (auto simp: get_or_default_entry_push)

lemma get_or_default_partition:
  "get_or_default (partition_consumed_join_requests cs) g =
     map consumed_ref (filter (\<lambda>c. cg_group_id c = g) cs)"
  by (simp add: partition_consumed_join_requests_def get_or_default_partition_loop)

lemma welcome_consumed_Nil [simp]: "\<not> welcome_consumed [] r"
  by (simp add: welcome_consumed_def)

lemma join_request_consumed_Nil [simp]: "\<not> join_request_consumed [] r"
  by (simp add: join_request_consumed_def)

lemma welcome_consumed_Cons:
  "welcome_consumed (c # cs) r \<longleftrightarrow>
     (cw_key_package_reference c = key_package_reference r \<and> cw_created_at c = w_created_at r)
     \<or> welcome_consumed cs r"
  by (auto simp: welcome_consumed_def)

lemma join_request_consumed_Cons:
  "join_request_consumed (c # cs) r \<longleftrightarrow>
     (cj_requester_stable_pubkey c = requester_stable_pubkey r \<and> cj_created_at c = jr_created_at r)
     \<or> join_request_consumed cs r"
  by (auto simp: join_request_consumed_def)

end
