(* ===== verification/Storage_Spec.thy ===== *)
theory Storage_Spec
  imports Types
begin

text \<open>
  What the trait \<^verbatim>\<open>CoordinatorStorage\<close> promises (the doc comments of
  \<^verbatim>\<open>crates/cordn-core/src/storage/mod.rs\<close>), as an abstract state and one operation on it per
  trait method, and the locale \<open>coordinator_storage\<close> that states the promise for an
  implementation. The abstract state is four sequences, each in the order of insertion.

  \<open>refines\<close> is the promise of one call: from related states the call either answers as the
  specification does and leaves related states, or, only where the backend is not
  \<open>reliable\<close>, reports a \<open>Backend\<close> error and leaves the abstract state as it was.
\<close>

section \<open>The abstract state\<close>

record 'j spec_state =
  sp_key_packages :: "'j PublishedKeyPackageRecord list"
  sp_welcomes :: "WelcomeQueueRecord list"
  sp_join_requests :: "JoinRequestRecord list"
  sp_messages :: "GroupMessageRecord list"

definition spec_empty :: "'j spec_state" where
  "spec_empty = \<lparr>sp_key_packages = [], sp_welcomes = [], sp_join_requests = [], sp_messages = []\<rparr>"

abbreviation group_log :: "string \<Rightarrow> GroupMessageRecord list \<Rightarrow> GroupMessageRecord list" where
  "group_log g ms \<equiv> filter (\<lambda>m. gm_group_id m = g) ms"

abbreviation group_requests :: "string \<Rightarrow> JoinRequestRecord list \<Rightarrow> JoinRequestRecord list" where
  "group_requests g rs \<equiv> filter (\<lambda>r. jr_group_id r = g) rs"

definition same_request :: "JoinRequestRecord \<Rightarrow> JoinRequestRecord \<Rightarrow> bool" where
  "same_request r x \<longleftrightarrow>
     jr_group_id x = jr_group_id r \<and> requester_stable_pubkey x = requester_stable_pubkey r"

definition refresh_request :: "JoinRequestRecord \<Rightarrow> JoinRequestRecord \<Rightarrow> JoinRequestRecord" where
  "refresh_request r x = x\<lparr>jr_key_package_ref := jr_key_package_ref r, jr_created_at := jr_created_at r\<rparr>"

section \<open>Key packages\<close>

definition spec_publish_key_package ::
    "'j PublishedKeyPackageRecord \<Rightarrow> ('j spec_state, 'j PublishedKeyPackageRecord) sop" where
  "spec_publish_key_package r a = (Inr r, a\<lparr>sp_key_packages := sp_key_packages a @ [r]\<rparr>)"

definition spec_list_key_packages_for_identity ::
    "string \<Rightarrow> ('j spec_state, 'j PublishedKeyPackageRecord list) sop" where
  "spec_list_key_packages_for_identity pk a =
     (Inr (filter (\<lambda>r. stable_pubkey r = pk) (sp_key_packages a)), a)"

definition spec_list_all_key_packages :: "('j spec_state, 'j PublishedKeyPackageRecord list) sop"
  where
  "spec_list_all_key_packages a = (Inr (sp_key_packages a), a)"

definition spec_get_key_package ::
    "string \<Rightarrow> ('j spec_state, 'j PublishedKeyPackageRecord option) sop" where
  "spec_get_key_package x a = (Inr (find (\<lambda>r. key_package_ref r = x) (sp_key_packages a)), a)"

definition spec_drop_ref :: "string \<Rightarrow> 'j spec_state \<Rightarrow> 'j spec_state" where
  "spec_drop_ref x a =
     a\<lparr>sp_key_packages := filter (\<lambda>r. key_package_ref r \<noteq> x) (sp_key_packages a)\<rparr>"

definition spec_remove_key_package ::
    "string \<Rightarrow> ('j spec_state, 'j PublishedKeyPackageRecord option) sop" where
  "spec_remove_key_package x a =
     (Inr (find (\<lambda>r. key_package_ref r = x) (sp_key_packages a)), spec_drop_ref x a)"

definition spec_take :: "'j PublishedKeyPackageRecord \<Rightarrow> 'j spec_state \<Rightarrow> 'j spec_state" where
  "spec_take r a = (if is_last_resort r then a else spec_drop_ref (key_package_ref r) a)"

text \<open>By exact reference first; else the oldest regular package of the identity; else its newest
  last-resort package. Only regular packages are taken out.\<close>

definition spec_consume_choice ::
    "string \<Rightarrow> 'j PublishedKeyPackageRecord list \<Rightarrow> 'j PublishedKeyPackageRecord option" where
  "spec_consume_choice x rs =
     (case find (\<lambda>r. key_package_ref r = x) rs of
        Some r \<Rightarrow> Some r
      | None \<Rightarrow>
          (case find (\<lambda>r. stable_pubkey r = x \<and> \<not> is_last_resort r) rs of
             Some r \<Rightarrow> Some r
           | None \<Rightarrow> last_opt (filter (\<lambda>r. stable_pubkey r = x) rs)))"

definition spec_consume_key_package ::
    "string \<Rightarrow> ('j spec_state, 'j PublishedKeyPackageRecord option) sop" where
  "spec_consume_key_package x a =
     (case spec_consume_choice x (sp_key_packages a) of
        None \<Rightarrow> (Inr None, a)
      | Some r \<Rightarrow> (Inr (Some r), spec_take r a))"

section \<open>Welcomes\<close>

definition spec_store_welcome :: "WelcomeQueueRecord \<Rightarrow> ('j spec_state, WelcomeQueueRecord) sop"
  where
  "spec_store_welcome r a = (Inr r, a\<lparr>sp_welcomes := sp_welcomes a @ [r]\<rparr>)"

definition spec_fetch_pending_welcomes ::
    "string \<Rightarrow> ConsumedWelcomeRef list \<Rightarrow> ('j spec_state, WelcomeQueueRecord list) sop" where
  "spec_fetch_pending_welcomes t consumed a =
     (let ws = filter (\<lambda>r. \<not> (target_stable_pubkey r = t \<and> welcome_consumed consumed r))
                 (sp_welcomes a)
      in (Inr (filter (\<lambda>r. target_stable_pubkey r = t) ws), a\<lparr>sp_welcomes := ws\<rparr>))"

definition spec_delete_expired_welcomes :: "i64 \<Rightarrow> ('j spec_state, usize) sop" where
  "spec_delete_expired_welcomes th a =
     (if th \<le> 0 then (Inr 0, a)
      else (Inr (length (filter (\<lambda>r. w_created_at r < th) (sp_welcomes a))),
            a\<lparr>sp_welcomes := filter (\<lambda>r. th \<le> w_created_at r) (sp_welcomes a)\<rparr>))"

section \<open>Join requests\<close>

definition spec_store_join_request :: "JoinRequestRecord \<Rightarrow> ('j spec_state, JoinRequestRecord) sop"
  where
  "spec_store_join_request r a =
     (let rs = sp_join_requests a in
      if \<exists>x \<in> set rs. same_request r x
      then (Inr r, a\<lparr>sp_join_requests :=
             map (\<lambda>x. if same_request r x then refresh_request r x else x) rs\<rparr>)
      else if MAX_PENDING_JOIN_REQUESTS_PER_GROUP \<le> length (group_requests (jr_group_id r) rs)
      then (Inl TooManyPendingJoinRequests, a)
      else (Inr r, a\<lparr>sp_join_requests := rs @ [r]\<rparr>))"

definition spec_fetch_pending_join_requests ::
    "string \<Rightarrow> ConsumedJoinRequestRef list \<Rightarrow> ('j spec_state, JoinRequestRecord list) sop" where
  "spec_fetch_pending_join_requests g consumed a =
     (let rs = filter (\<lambda>r. \<not> (jr_group_id r = g \<and> join_request_consumed consumed r))
                 (sp_join_requests a)
      in (Inr (group_requests g rs), a\<lparr>sp_join_requests := rs\<rparr>))"

text \<open>The consumed items of a multi-group fetch that name a request's own group.\<close>

definition consumed_in_group ::
    "ConsumedJoinRequestWithGroupRef list \<Rightarrow> string \<Rightarrow> ConsumedJoinRequestRef list" where
  "consumed_in_group consumed g = map consumed_ref (filter (\<lambda>c. cg_group_id c = g) consumed)"

definition spec_fetch_many_pending_join_requests ::
    "string list \<Rightarrow> ConsumedJoinRequestWithGroupRef list \<Rightarrow>
     ('j spec_state, JoinRequestRecord list) sop" where
  "spec_fetch_many_pending_join_requests gs consumed a =
     (let rs = filter (\<lambda>r. \<not> (jr_group_id r \<in> set gs \<and>
                  join_request_consumed (consumed_in_group consumed (jr_group_id r)) r))
                 (sp_join_requests a)
      in (Inr (concat (map (\<lambda>g. group_requests g rs) gs)), a\<lparr>sp_join_requests := rs\<rparr>))"

definition spec_delete_expired_join_requests :: "i64 \<Rightarrow> ('j spec_state, usize) sop" where
  "spec_delete_expired_join_requests th a =
     (if th \<le> 0 then (Inr 0, a)
      else (Inr (length (filter (\<lambda>r. jr_created_at r < th) (sp_join_requests a))),
            a\<lparr>sp_join_requests := filter (\<lambda>r. th \<le> jr_created_at r) (sp_join_requests a)\<rparr>))"

section \<open>Group messages\<close>

text \<open>Cursors are per group: the next one is one more than the length of the group's log.\<close>

definition spec_append_group_message ::
    "AppendGroupMessageParams \<Rightarrow> ('j spec_state, GroupMessageRecord) sop" where
  "spec_append_group_message p a =
     (let m = \<lparr>cursor = int (length (group_log (ap_group_id p) (sp_messages a))) + 1,
               gm_group_id = ap_group_id p, opaque_message = ap_opaque_message p,
               gm_created_at = ap_created_at p\<rparr>
      in (Inr m, a\<lparr>sp_messages := sp_messages a @ [m]\<rparr>))"

definition log_after :: "string \<Rightarrow> i64 option \<Rightarrow> GroupMessageRecord list \<Rightarrow> GroupMessageRecord list"
  where
  "log_after g after ms = filter (\<lambda>m. gm_group_id m = g \<and> unwrap_or 0 after < cursor m) ms"

definition spec_fetch_group_messages ::
    "string \<Rightarrow> i64 option \<Rightarrow> ('j spec_state, GroupMessageRecord list) sop" where
  "spec_fetch_group_messages g after a = (Inr (log_after g after (sp_messages a)), a)"

definition spec_fetch_many_group_messages ::
    "FetchGroupMessagesInput list \<Rightarrow> ('j spec_state, GroupMessageRecord list) sop" where
  "spec_fetch_many_group_messages gs a =
     (Inr (concat (map (\<lambda>g. log_after (fg_group_id g) (after_cursor g) (sp_messages a)) gs)), a)"

section \<open>The invariant of the abstract state\<close>

definition request_key :: "JoinRequestRecord \<Rightarrow> string \<times> string" where
  "request_key r = (jr_group_id r, requester_stable_pubkey r)"

text \<open>Cursors of one group are \<open>1, 2, 3, \<dots>\<close> in log order, with no gap.\<close>

definition contiguous :: "GroupMessageRecord list \<Rightarrow> bool" where
  "contiguous ms \<longleftrightarrow> (\<forall>g. map cursor (group_log g ms) = map int [1..<Suc (length (group_log g ms))])"

definition spec_inv :: "'j spec_state \<Rightarrow> bool" where
  "spec_inv a \<longleftrightarrow>
     distinct (map key_package_ref (sp_key_packages a)) \<and>
     distinct (map request_key (sp_join_requests a)) \<and>
     (\<forall>g. length (group_requests g (sp_join_requests a)) \<le> MAX_PENDING_JOIN_REQUESTS_PER_GROUP) \<and>
     contiguous (sp_messages a)"

text \<open>What a caller must respect: a published reference is not in use, and a group's cursor stays
  below the \<^verbatim>\<open>i64\<close> ceiling.\<close>

definition fresh_ref :: "'j PublishedKeyPackageRecord \<Rightarrow> 'j spec_state \<Rightarrow> bool" where
  "fresh_ref r a \<longleftrightarrow> key_package_ref r \<notin> key_package_ref ` set (sp_key_packages a)"

definition cursor_room :: "string \<Rightarrow> 'j spec_state \<Rightarrow> bool" where
  "cursor_room g a \<longleftrightarrow> int (length (group_log g (sp_messages a))) + 2 < 2 ^ 63"

lemmas spec_defs =
  spec_publish_key_package_def spec_list_key_packages_for_identity_def
  spec_list_all_key_packages_def spec_get_key_package_def spec_remove_key_package_def
  spec_drop_ref_def spec_take_def spec_consume_key_package_def spec_store_welcome_def
  spec_fetch_pending_welcomes_def spec_delete_expired_welcomes_def spec_store_join_request_def
  spec_fetch_pending_join_requests_def spec_fetch_many_pending_join_requests_def
  spec_delete_expired_join_requests_def spec_append_group_message_def
  spec_fetch_group_messages_def spec_fetch_many_group_messages_def

section \<open>The specification keeps its invariant\<close>

lemma spec_inv_empty: "spec_inv spec_empty"
  by (simp add: spec_inv_def spec_empty_def contiguous_def)

lemma spec_inv_key_packages_filter:
  "spec_inv a \<Longrightarrow> spec_inv (a\<lparr>sp_key_packages := filter p (sp_key_packages a)\<rparr>)"
  by (simp add: spec_inv_def distinct_map_filter)

lemma spec_inv_welcomes: "spec_inv a \<Longrightarrow> spec_inv (a\<lparr>sp_welcomes := ws\<rparr>)"
  by (simp add: spec_inv_def)

lemma length_group_requests_filter:
  "length (group_requests g (filter p rs)) \<le> length (group_requests g rs)"
  by (induction rs) auto

lemma spec_inv_requests_filter:
  assumes "spec_inv a"
  shows "spec_inv (a\<lparr>sp_join_requests := filter p (sp_join_requests a)\<rparr>)"
proof -
  have "length (group_requests g (filter p (sp_join_requests a)))
      \<le> MAX_PENDING_JOIN_REQUESTS_PER_GROUP" for g
    using assms length_group_requests_filter [of g p "sp_join_requests a"]
    by (auto simp: spec_inv_def intro: order_trans)
  with assms show ?thesis by (simp add: spec_inv_def distinct_map_filter del: filter_filter)
qed

lemma spec_inv_publish:
  "spec_inv a \<Longrightarrow> fresh_ref r a \<Longrightarrow> spec_inv (snd (spec_publish_key_package r a))"
  by (simp add: spec_inv_def spec_publish_key_package_def fresh_ref_def)

lemma spec_inv_drop_ref: "spec_inv a \<Longrightarrow> spec_inv (spec_drop_ref x a)"
  by (simp add: spec_drop_ref_def spec_inv_key_packages_filter)

lemma spec_inv_consume: "spec_inv a \<Longrightarrow> spec_inv (snd (spec_consume_key_package x a))"
  by (simp add: spec_consume_key_package_def spec_take_def spec_inv_drop_ref split: option.split)

lemma refresh_request_key [simp]:
  "request_key (refresh_request r x) = request_key x" "jr_group_id (refresh_request r x) = jr_group_id x"
  by (simp_all add: request_key_def refresh_request_def)

lemma spec_inv_store_join_request:
  assumes "spec_inv a"
  shows "spec_inv (snd (spec_store_join_request r a))"
proof -
  let ?rs = "sp_join_requests a"
  let ?f = "\<lambda>x. if same_request r x then refresh_request r x else x"
  have keys: "map request_key (map ?f ?rs) = map request_key ?rs" by simp
  have grp: "map jr_group_id (map ?f xs) = map jr_group_id xs" for xs by simp
  have len: "length (group_requests g (map ?f xs)) = length (group_requests g xs)" for g xs
    by (induction xs) auto
  have new: "request_key r \<notin> request_key ` set ?rs" if "\<not> (\<exists>x \<in> set ?rs. same_request r x)"
    using that by (auto simp: request_key_def same_request_def)
  show ?thesis
    using assms keys len new
    by (auto simp: spec_inv_def spec_store_join_request_def Let_def simp del: map_map)
qed

lemma spec_inv_append: "spec_inv a \<Longrightarrow> spec_inv (snd (spec_append_group_message p a))"
  by (simp add: spec_inv_def spec_append_group_message_def contiguous_def Let_def)

lemmas spec_inv_intros = spec_inv_key_packages_filter spec_inv_welcomes spec_inv_requests_filter
  spec_inv_publish spec_inv_drop_ref spec_inv_consume spec_inv_store_join_request spec_inv_append

subsection \<open>Facts the backends share\<close>

lemma contiguous_nth_cursor:
  assumes "contiguous ms" "i < length (group_log g ms)"
  shows "cursor (group_log g ms ! i) = int i + 1"
proof -
  have "map cursor (group_log g ms) ! i = map int [1..<Suc (length (group_log g ms))] ! i"
    using assms by (simp add: contiguous_def)
  then have "cursor (group_log g ms ! i) = map int [1..<Suc (length (group_log g ms))] ! i"
    using assms(2) by simp
  also have "\<dots> = int i + 1" using assms(2) by (subst nth_map) (auto simp del: upt_Suc)
  finally show ?thesis .
qed

lemma contiguous_cursor_bounds:
  assumes "contiguous ms" "m \<in> set ms" "gm_group_id m = g"
  shows "1 \<le> cursor m \<and> cursor m \<le> int (length (group_log g ms))"
proof -
  have "m \<in> set (group_log g ms)" using assms by simp
  then obtain i where "i < length (group_log g ms)" "group_log g ms ! i = m"
    by (metis in_set_conv_nth)
  with contiguous_nth_cursor [OF assms(1), of i g] show ?thesis by auto
qed

lemma contiguous_sorted: "contiguous ms \<Longrightarrow> sorted (map cursor (group_log g ms))"
  by (simp add: contiguous_def sorted_map sorted_wrt_mono_rel [OF _ sorted_upt] del: upt_Suc)

lemma contiguous_distinct: "contiguous ms \<Longrightarrow> distinct (map cursor (group_log g ms))"
  by (simp add: contiguous_def distinct_map del: upt_Suc)

lemma same_request_iff: "same_request r x \<longleftrightarrow> request_key x = request_key r"
  by (auto simp: same_request_def request_key_def)

lemma log_after_alt: "log_after g after ms = filter (\<lambda>m. unwrap_or 0 after < cursor m) (group_log g ms)"
  by (simp add: log_after_def conj_commute)

section \<open>The promise of one call\<close>

text \<open>
  \<open>refines eq rel reliable m f s a\<close>: the call \<open>m\<close> of a backend in state \<open>s\<close> against the
  operation \<open>f\<close> of the specification in state \<open>a\<close>; \<open>eq\<close> compares the results.
\<close>

definition refines :: "('x \<Rightarrow> 'y \<Rightarrow> bool) \<Rightarrow> ('s \<Rightarrow> 'a \<Rightarrow> bool) \<Rightarrow> ('s \<Rightarrow> bool) \<Rightarrow>
    ('s, 'x) sop \<Rightarrow> ('a, 'y) sop \<Rightarrow> 's \<Rightarrow> 'a \<Rightarrow> bool" where
  "refines eq rel reliable m f s a \<longleftrightarrow>
     (reliable s \<longrightarrow> reliable (snd (m s))) \<and>
     (rel_sum (=) eq (fst (m s)) (fst (f a)) \<and> rel (snd (m s)) (snd (f a))
      \<or> \<not> reliable s \<and> (\<exists>msg. fst (m s) = Inl (Backend msg)) \<and> rel (snd (m s)) a)"

definition same_elements :: "'x list \<Rightarrow> 'x list \<Rightarrow> bool" where
  "same_elements xs ys \<longleftrightarrow> mset xs = mset ys"

lemma refinesI:
  assumes "m s = (r, s')" "f a = (r', a')" "rel_sum (=) eq r r'" "rel s' a'"
    and "reliable s \<Longrightarrow> reliable s'"
  shows "refines eq rel reliable m f s a"
  using assms by (simp add: refines_def)

lemma refines_backendI:
  assumes "m s = (Inl (Backend msg), s')" "rel s' a" "\<not> reliable s"
  shows "refines eq rel reliable m f s a"
  using assms by (simp add: refines_def)

lemma refines_reliable:
  assumes "refines eq rel reliable m f s a" "reliable s"
  shows "rel_sum (=) eq (fst (m s)) (fst (f a))" "rel (snd (m s)) (snd (f a))"
    "reliable (snd (m s))"
  using assms by (auto simp: refines_def)

lemma refines_Inr:
  assumes "refines eq rel reliable m f s a" "m s = (Inr v, s')"
  obtains v' where "fst (f a) = Inr v'" "eq v v'" "rel s' (snd (f a))"
  using assms by (auto simp: refines_def rel_sum.simps)

section \<open>The interface\<close>

text \<open>
  A storage backend: its table of operations, the relation of its states to the abstract states,
  and the states in which no operation reports a \<open>Backend\<close> error. \<open>list_all_key_packages\<close>
  promises the packages, not their order.
\<close>

locale coordinator_storage =
  fixes ops :: "('s, 'j) CoordinatorStorage"
    and rel :: "'s \<Rightarrow> 'j spec_state \<Rightarrow> bool"
    and reliable :: "'s \<Rightarrow> bool"
  assumes rel_inv: "rel s a \<Longrightarrow> spec_inv a"
    and publish_key_package: "rel s a \<Longrightarrow> fresh_ref r a \<Longrightarrow>
      refines (=) rel reliable (so_publish_key_package ops r) (spec_publish_key_package r) s a"
    and list_key_packages_for_identity: "rel s a \<Longrightarrow>
      refines (=) rel reliable (so_list_key_packages_for_identity ops pk)
        (spec_list_key_packages_for_identity pk) s a"
    and list_all_key_packages: "rel s a \<Longrightarrow>
      refines same_elements rel reliable (so_list_all_key_packages ops)
        spec_list_all_key_packages s a"
    and get_key_package: "rel s a \<Longrightarrow>
      refines (=) rel reliable (so_get_key_package ops x) (spec_get_key_package x) s a"
    and remove_key_package: "rel s a \<Longrightarrow>
      refines (=) rel reliable (so_remove_key_package ops x) (spec_remove_key_package x) s a"
    and consume_key_package: "rel s a \<Longrightarrow>
      refines (=) rel reliable (so_consume_key_package ops x) (spec_consume_key_package x) s a"
    and store_welcome: "rel s a \<Longrightarrow>
      refines (=) rel reliable (so_store_welcome ops w) (spec_store_welcome w) s a"
    and fetch_pending_welcomes: "rel s a \<Longrightarrow>
      refines (=) rel reliable (so_fetch_pending_welcomes ops t cw)
        (spec_fetch_pending_welcomes t cw) s a"
    and delete_expired_welcomes: "rel s a \<Longrightarrow>
      refines (=) rel reliable (so_delete_expired_welcomes ops th)
        (spec_delete_expired_welcomes th) s a"
    and store_join_request: "rel s a \<Longrightarrow>
      refines (=) rel reliable (so_store_join_request ops jr) (spec_store_join_request jr) s a"
    and fetch_pending_join_requests: "rel s a \<Longrightarrow>
      refines (=) rel reliable (so_fetch_pending_join_requests ops g cj)
        (spec_fetch_pending_join_requests g cj) s a"
    and fetch_many_pending_join_requests: "rel s a \<Longrightarrow>
      refines (=) rel reliable (so_fetch_many_pending_join_requests ops gs cg)
        (spec_fetch_many_pending_join_requests gs cg) s a"
    and delete_expired_join_requests: "rel s a \<Longrightarrow>
      refines (=) rel reliable (so_delete_expired_join_requests ops th)
        (spec_delete_expired_join_requests th) s a"
    and append_group_message: "rel s a \<Longrightarrow> cursor_room (ap_group_id p) a \<Longrightarrow>
      refines (=) rel reliable (so_append_group_message ops p) (spec_append_group_message p) s a"
    and fetch_group_messages: "rel s a \<Longrightarrow>
      refines (=) rel reliable (so_fetch_group_messages ops g after)
        (spec_fetch_group_messages g after) s a"
    and fetch_many_group_messages: "rel s a \<Longrightarrow>
      refines (=) rel reliable (so_fetch_many_group_messages ops fs)
        (spec_fetch_many_group_messages fs) s a"

end
