(* ===== verification/Storage_Calls.thy ===== *)
theory Storage_Calls
  imports Storage_Spec
begin

text \<open>
  Sequences of storage calls. A call is a trait method of
  \<^verbatim>\<open>crates/cordn-core/src/storage/mod.rs\<close> with its arguments, \<open>exec\<close> dispatches it through
  a method table, and \<open>run\<close> performs a list of calls. The specification is a method table too
  (\<open>spec_ops\<close>), so a backend and the specification are run side by side. The client lemmas of
  the interface, among them the simulation of whole runs, are proved inside the locale.
\<close>

section \<open>Calls\<close>

datatype 'j call =
    PublishKeyPackage "'j PublishedKeyPackageRecord"
  | ListKeyPackagesForIdentity string
  | ListAllKeyPackages
  | GetKeyPackage string
  | RemoveKeyPackage string
  | ConsumeKeyPackage string
  | StoreWelcome WelcomeQueueRecord
  | FetchPendingWelcomes string "ConsumedWelcomeRef list"
  | DeleteExpiredWelcomes i64
  | StoreJoinRequest JoinRequestRecord
  | FetchPendingJoinRequests string "ConsumedJoinRequestRef list"
  | FetchManyPendingJoinRequests "string list" "ConsumedJoinRequestWithGroupRef list"
  | DeleteExpiredJoinRequests i64
  | AppendGroupMessage AppendGroupMessageParams
  | FetchGroupMessages string "i64 option"
  | FetchManyGroupMessages "FetchGroupMessagesInput list"

datatype 'j reply =
    KeyPackage "'j PublishedKeyPackageRecord"
  | KeyPackages "'j PublishedKeyPackageRecord list"
  | AllKeyPackages "'j PublishedKeyPackageRecord list"
  | MaybeKeyPackage "'j PublishedKeyPackageRecord option"
  | Welcome WelcomeQueueRecord
  | Welcomes "WelcomeQueueRecord list"
  | Deleted usize
  | JoinRequest JoinRequestRecord
  | JoinRequests "JoinRequestRecord list"
  | Message GroupMessageRecord
  | Messages "GroupMessageRecord list"

definition map_reply :: "('x \<Rightarrow> 'y) \<Rightarrow> ('s, 'x) sop \<Rightarrow> ('s, 'y) sop" where
  "map_reply f m s = map_prod (map_sum id f) id (m s)"

fun exec :: "('s, 'j) CoordinatorStorage \<Rightarrow> 'j call \<Rightarrow> ('s, 'j reply) sop" where
  "exec ops (PublishKeyPackage r) = map_reply KeyPackage (so_publish_key_package ops r)"
| "exec ops (ListKeyPackagesForIdentity pk) =
     map_reply KeyPackages (so_list_key_packages_for_identity ops pk)"
| "exec ops ListAllKeyPackages = map_reply AllKeyPackages (so_list_all_key_packages ops)"
| "exec ops (GetKeyPackage x) = map_reply MaybeKeyPackage (so_get_key_package ops x)"
| "exec ops (RemoveKeyPackage x) = map_reply MaybeKeyPackage (so_remove_key_package ops x)"
| "exec ops (ConsumeKeyPackage x) = map_reply MaybeKeyPackage (so_consume_key_package ops x)"
| "exec ops (StoreWelcome w) = map_reply Welcome (so_store_welcome ops w)"
| "exec ops (FetchPendingWelcomes t c) = map_reply Welcomes (so_fetch_pending_welcomes ops t c)"
| "exec ops (DeleteExpiredWelcomes th) = map_reply Deleted (so_delete_expired_welcomes ops th)"
| "exec ops (StoreJoinRequest r) = map_reply JoinRequest (so_store_join_request ops r)"
| "exec ops (FetchPendingJoinRequests g c) =
     map_reply JoinRequests (so_fetch_pending_join_requests ops g c)"
| "exec ops (FetchManyPendingJoinRequests gs c) =
     map_reply JoinRequests (so_fetch_many_pending_join_requests ops gs c)"
| "exec ops (DeleteExpiredJoinRequests th) =
     map_reply Deleted (so_delete_expired_join_requests ops th)"
| "exec ops (AppendGroupMessage p) = map_reply Message (so_append_group_message ops p)"
| "exec ops (FetchGroupMessages g after) = map_reply Messages (so_fetch_group_messages ops g after)"
| "exec ops (FetchManyGroupMessages fs) =
     map_reply Messages (so_fetch_many_group_messages ops fs)"

fun run :: "('s, 'j) CoordinatorStorage \<Rightarrow> 'j call list \<Rightarrow> 's \<Rightarrow>
    (StorageError + 'j reply) list \<times> 's" where
  "run ops [] s = ([], s)"
| "run ops (c # cs) s =
     (let (r, s') = exec ops c s; (rs, s'') = run ops cs s' in (r # rs, s''))"

definition spec_ops :: "('j spec_state, 'j) CoordinatorStorage" where
  "spec_ops = \<lparr>
     so_publish_key_package = spec_publish_key_package,
     so_list_key_packages_for_identity = spec_list_key_packages_for_identity,
     so_list_all_key_packages = spec_list_all_key_packages,
     so_get_key_package = spec_get_key_package,
     so_remove_key_package = spec_remove_key_package,
     so_consume_key_package = spec_consume_key_package,
     so_store_welcome = spec_store_welcome,
     so_fetch_pending_welcomes = spec_fetch_pending_welcomes,
     so_delete_expired_welcomes = spec_delete_expired_welcomes,
     so_store_join_request = spec_store_join_request,
     so_fetch_pending_join_requests = spec_fetch_pending_join_requests,
     so_fetch_many_pending_join_requests = spec_fetch_many_pending_join_requests,
     so_delete_expired_join_requests = spec_delete_expired_join_requests,
     so_append_group_message = spec_append_group_message,
     so_fetch_group_messages = spec_fetch_group_messages,
     so_fetch_many_group_messages = spec_fetch_many_group_messages\<rparr>"

text \<open>Replies agree; the reply to \<open>ListAllKeyPackages\<close> up to its order.\<close>

fun same_reply :: "'j reply \<Rightarrow> 'j reply \<Rightarrow> bool" where
  "same_reply (AllKeyPackages xs) (AllKeyPackages ys) = same_elements xs ys"
| "same_reply x y = (x = y)"

fun admissible :: "'j call \<Rightarrow> 'j spec_state \<Rightarrow> bool" where
  "admissible (PublishKeyPackage r) a = fresh_ref r a"
| "admissible (AppendGroupMessage p) a = cursor_room (ap_group_id p) a"
| "admissible c a = True"

fun admissible_run :: "'j call list \<Rightarrow> 'j spec_state \<Rightarrow> bool" where
  "admissible_run [] a = True"
| "admissible_run (c # cs) a = (admissible c a \<and> admissible_run cs (snd (exec spec_ops c a)))"

fun published_refs :: "'j call list \<Rightarrow> string list" where
  "published_refs [] = []"
| "published_refs (PublishKeyPackage r # cs) = key_package_ref r # published_refs cs"
| "published_refs (c # cs) = published_refs cs"

text \<open>The calls of a run that did not report a \<open>Backend\<close> error, and their replies.\<close>

fun backend_failure :: "StorageError + 'x \<Rightarrow> bool" where
  "backend_failure (Inl (Backend msg)) = True"
| "backend_failure r = False"

fun answered :: "('s, 'j) CoordinatorStorage \<Rightarrow> 'j call list \<Rightarrow> 's \<Rightarrow> 'j call list" where
  "answered ops [] s = []"
| "answered ops (c # cs) s =
     (let (r, s') = exec ops c s; rest = answered ops cs s'
      in if backend_failure r then rest else c # rest)"

section \<open>Replies\<close>

lemma same_reply_refl [simp]: "same_reply x x"
  by (cases x) (simp_all add: same_elements_def)

lemma same_reply_sym: "same_reply x y \<Longrightarrow> same_reply y x"
  by (induction x y rule: same_reply.induct) (auto simp: same_elements_def)

lemma same_reply_trans: "same_reply x y \<Longrightarrow> same_reply y z \<Longrightarrow> same_reply x z"
  by (induction x y rule: same_reply.induct) (cases z; simp add: same_elements_def)+

lemma refines_map_reply:
  assumes "refines eq rel reliable m f s a" "\<And>x y. eq x y \<Longrightarrow> same_reply (k x) (k y)"
  shows "refines same_reply rel reliable (map_reply k m) (map_reply k f) s a"
  using assms by (auto simp: refines_def map_reply_def rel_sum.simps)

section \<open>When a run is admissible\<close>

abbreviation stored_refs :: "'j spec_state \<Rightarrow> string set" where
  "stored_refs a \<equiv> key_package_ref ` set (sp_key_packages a)"

lemma exec_spec_refs:
  "stored_refs (snd (exec spec_ops c a)) \<subseteq> stored_refs a \<union> set (published_refs [c])"
proof (cases c)
  case (ConsumeKeyPackage x)
  then show ?thesis
    by (auto simp: spec_ops_def map_reply_def spec_consume_key_package_def spec_take_def
        spec_drop_ref_def split: option.splits)
qed (auto simp: spec_ops_def map_reply_def spec_defs Let_def)

lemma exec_spec_log_length:
  "length (group_log g (sp_messages (snd (exec spec_ops c a)))) \<le> Suc (length (group_log g (sp_messages a)))"
proof (cases c)
  case (ConsumeKeyPackage x)
  then show ?thesis
    by (auto simp: spec_ops_def map_reply_def spec_consume_key_package_def spec_take_def
        spec_drop_ref_def split: option.splits)
qed (auto simp: spec_ops_def map_reply_def spec_defs Let_def)

lemma published_refs_Cons: "published_refs (c # cs) = published_refs [c] @ published_refs cs"
  by (cases c) auto

text \<open>Publishing each reference once, and fewer calls than the cursor ceiling, is enough.\<close>

lemma admissible_runI:
  assumes "distinct (published_refs cs)" "stored_refs a \<inter> set (published_refs cs) = {}"
    and "\<And>g. int (length (group_log g (sp_messages a))) + int (length cs) + 2 \<le> 2 ^ 63"
  shows "admissible_run cs a"
  using assms
proof (induction cs arbitrary: a)
  case (Cons c cs)
  let ?a = "snd (exec spec_ops c a)"
  have refs: "distinct (published_refs [c] @ published_refs cs)"
    "stored_refs a \<inter> set (published_refs [c] @ published_refs cs) = {}"
    using Cons.prems(1,2) by (simp_all only: published_refs_Cons [of c cs])
  have "int (length (group_log g (sp_messages ?a))) + int (length cs) + 2 \<le> 2 ^ 63" for g
    using Cons.prems(3) [of g] exec_spec_log_length [of g c a] by simp
  moreover have "stored_refs ?a \<inter> set (published_refs cs) = {}"
    using refs exec_spec_refs [of c a] unfolding distinct_append set_append by blast
  ultimately have "admissible_run cs ?a" using refs by (intro Cons.IH) auto
  moreover have "admissible c a"
  proof (cases c)
    case (PublishKeyPackage r)
    with refs show ?thesis by (auto simp: fresh_ref_def)
  next
    case (AppendGroupMessage p)
    with Cons.prems(3) [of "ap_group_id p"] show ?thesis by (auto simp: cursor_room_def)
  qed auto
  ultimately show ?case by simp
qed simp

text \<open>What keeps every next call admissible, whichever calls before it failed.\<close>

definition call_room :: "'j call list \<Rightarrow> 'j spec_state \<Rightarrow> bool" where
  "call_room cs a \<longleftrightarrow> distinct (published_refs cs) \<and> stored_refs a \<inter> set (published_refs cs) = {} \<and>
     (\<forall>g. int (length (group_log g (sp_messages a))) + int (length cs) + 2 \<le> 2 ^ 63)"

lemma call_room_admissible: "call_room (c # cs) a \<Longrightarrow> admissible c a"
  using admissible_runI [of "c # cs" a] by (simp add: call_room_def)

lemma call_room_skip:
  assumes "call_room (c # cs) a"
  shows "call_room cs a"
proof -
  have "int (length (group_log g (sp_messages a))) + int (length cs) + 2 \<le> 2 ^ 63" for g
    using assms [unfolded call_room_def, THEN conjunct2, THEN conjunct2, THEN spec, of g] by simp
  with assms show ?thesis unfolding call_room_def published_refs_Cons [of c cs] by auto
qed

lemma call_room_step:
  assumes "call_room (c # cs) a"
  shows "call_room cs (snd (exec spec_ops c a))"
proof -
  have refs: "distinct (published_refs [c] @ published_refs cs)"
    "stored_refs a \<inter> set (published_refs [c] @ published_refs cs) = {}"
    using assms unfolding call_room_def published_refs_Cons [of c cs] by auto
  have "stored_refs (snd (exec spec_ops c a)) \<inter> set (published_refs cs) = {}"
    using refs exec_spec_refs [of c a] unfolding distinct_append set_append by blast
  moreover have "int (length (group_log g (sp_messages (snd (exec spec_ops c a))))) + int (length cs) + 2 \<le> 2 ^ 63" for g
    using assms [unfolded call_room_def, THEN conjunct2, THEN conjunct2, THEN spec, of g]
      exec_spec_log_length [of g c a] by simp
  ultimately show ?thesis using refs by (simp add: call_room_def)
qed

lemma spec_no_backend_failure: "\<not> backend_failure (fst (exec spec_ops c a))"
  by (cases c) (auto simp: spec_ops_def map_reply_def spec_defs Let_def split: option.split)

lemma rel_sum_backend_failure: "rel_sum (=) eq r r' \<Longrightarrow> backend_failure r = backend_failure r'"
  by (cases r rule: backend_failure.cases; cases r' rule: backend_failure.cases) auto

section \<open>Client lemmas of the interface\<close>

context coordinator_storage
begin

lemma exec_refines:
  assumes "rel s a" "admissible c a"
  shows "refines same_reply rel reliable (exec ops c) (exec spec_ops c) s a"
  using assms
  by (cases c) (auto simp: spec_ops_def
      intro!: refines_map_reply publish_key_package list_key_packages_for_identity
        list_all_key_packages get_key_package remove_key_package consume_key_package
        store_welcome fetch_pending_welcomes delete_expired_welcomes store_join_request
        fetch_pending_join_requests fetch_many_pending_join_requests
        delete_expired_join_requests append_group_message fetch_group_messages
        fetch_many_group_messages)

text \<open>From a reliable state a run answers as the specification does, call by call.\<close>

lemma run_simulates:
  assumes "rel s a" "reliable s" "admissible_run cs a"
  shows "list_all2 (rel_sum (=) same_reply) (fst (run ops cs s)) (fst (run spec_ops cs a)) \<and>
    rel (snd (run ops cs s)) (snd (run spec_ops cs a)) \<and> reliable (snd (run ops cs s))"
  using assms
proof (induction cs arbitrary: s a)
  case (Cons c cs)
  from Cons.prems have "refines same_reply rel reliable (exec ops c) (exec spec_ops c) s a"
    by (intro exec_refines) auto
  note step = refines_reliable [OF this Cons.prems(2)]
  from Cons.IH [OF step(2,3)] Cons.prems step(1) show ?case
    by (auto simp: split_def Let_def)
qed simp

text \<open>
  Whatever calls the backend fails, the others answer as the specification does on them alone, and
  the failed ones have no effect.
\<close>

lemma run_with_failures:
  assumes "rel s a" "call_room cs a"
  shows "list_all2 (rel_sum (=) same_reply) (filter (\<lambda>r. \<not> backend_failure r) (fst (run ops cs s)))
      (fst (run spec_ops (answered ops cs s) a)) \<and>
    rel (snd (run ops cs s)) (snd (run spec_ops (answered ops cs s) a))"
  using assms
proof (induction cs arbitrary: s a)
  case (Cons c cs)
  obtain r s' where rs: "exec ops c s = (r, s')" by force
  have ref: "refines same_reply rel reliable (exec ops c) (exec spec_ops c) s a"
    using Cons.prems by (intro exec_refines call_room_admissible)
  then consider "rel_sum (=) same_reply r (fst (exec spec_ops c a))" "rel s' (snd (exec spec_ops c a))"
    | "backend_failure r" "rel s' a"
    using rs by (auto simp: refines_def)
  then show ?case
  proof cases
    case 1
    with spec_no_backend_failure [of c a] rel_sum_backend_failure [OF 1(1)]
    have "\<not> backend_failure r" by simp
    with Cons.IH [OF 1(2) call_room_step [OF Cons.prems(2)]] 1 rs show ?thesis
      by (simp add: split_def Let_def)
  next
    case 2
    with Cons.IH [OF 2(2) call_room_skip [OF Cons.prems(2)]] rs show ?thesis
      by (simp add: split_def Let_def)
  qed
qed simp

end

end
