(* ===== verification/Coordinator.thy ===== *)
theory Coordinator
  imports Storage_Calls
begin

text \<open>
  The coordinator core, \<^verbatim>\<open>crates/cordn-core/src/coordinator.rs\<close>: subscribers, the subscriber
  registry, and the coordinator's operations over a storage backend.

  \<^item> The backend is its method table \<open>ops\<close> and its state \<^verbatim>\<open>storage\<close>; the clock's reading at a
    call is the argument \<open>now\<close>.
  \<^item> The sending half of an unbounded channel is the list of records sent through it so far: a
    send appends, and never fails while the subscriber is registered, because a subscription
    unregisters before its receiver is dropped. When a sender is dropped, \<open>detached\<close> keeps what
    its receiver can still drain.
  \<^item> A \<^verbatim>\<open>HashSet<u64>\<close> is a list without repetition; \<open>publish_to_order\<close> shows that the order in
    which it is walked does not matter. The \<^verbatim>\<open>u64\<close> counter of subscriber ids is a \<open>nat\<close>.
\<close>

section \<open>Subscribers\<close>

record Subscriber =
  sender :: "GroupMessageRecord list"
  dedup :: bool
  cursors_by_group :: "(string \<times> i64) list"
  buffering :: bool
  buffer :: "GroupMessageRecord list"

definition send :: "GroupMessageRecord \<Rightarrow> Subscriber \<Rightarrow> Subscriber" where
  "send record sub = sub\<lparr>sender := sender sub @ [record]\<rparr>"

definition emit_if_new :: "GroupMessageRecord \<Rightarrow> Subscriber \<Rightarrow> Subscriber" where
  "emit_if_new record sub =
     (if \<not> dedup sub then send record sub
      else
        let last = unwrap_or 0 (map_of (cursors_by_group sub) (gm_group_id record)) in
        if last < cursor record
        then send record (sub\<lparr>cursors_by_group :=
               AList.update (gm_group_id record) (cursor record) (cursors_by_group sub)\<rparr>)
        else sub)"

definition push :: "GroupMessageRecord \<Rightarrow> Subscriber \<Rightarrow> Subscriber" where
  "push record sub =
     (if buffering sub then sub\<lparr>buffer := buffer sub @ [record]\<rparr> else emit_if_new record sub)"

fun replay_backlog :: "GroupMessageRecord list \<Rightarrow> Subscriber \<Rightarrow> Subscriber" where
  "replay_backlog [] sub = sub"
| "replay_backlog (record # records) sub = replay_backlog records (emit_if_new record sub)"

definition finish_buffering :: "Subscriber \<Rightarrow> Subscriber" where
  "finish_buffering sub =
     replay_backlog (buffer sub) (sub\<lparr>buffering := False, buffer := []\<rparr>)"

section \<open>The registry\<close>

record SubscriberRegistry =
  group_subscribers :: "(string \<times> nat list) list"
  subscribers :: "(nat \<times> Subscriber) list"
  refcounts :: "(nat \<times> usize) list"
  next_id :: nat

definition SubscriberRegistry_new :: SubscriberRegistry where
  "SubscriberRegistry_new =
     \<lparr>group_subscribers = [], subscribers = [], refcounts = [], next_id = 1\<rparr>"

definition hashset_insert :: "nat \<Rightarrow> nat list \<Rightarrow> nat list" where
  "hashset_insert x xs = (if x \<in> set xs then xs else xs @ [x])"

text \<open>One round of the registration loop: enter the id under a group and count it.\<close>

definition register_in_group :: "nat \<Rightarrow> string \<Rightarrow> SubscriberRegistry \<Rightarrow> SubscriberRegistry" where
  "register_in_group i gid reg =
     reg\<lparr>group_subscribers := AList.update gid
            (hashset_insert i (get_or_default (group_subscribers reg) gid)) (group_subscribers reg),
         refcounts := AList.update i (unwrap_or 0 (map_of (refcounts reg) i) + 1) (refcounts reg)\<rparr>"

definition register_subscriber :: "string \<Rightarrow> Subscriber \<Rightarrow> SubscriberRegistry \<Rightarrow>
    nat \<times> SubscriberRegistry" where
  "register_subscriber gid sub reg =
     (let i = next_id reg;
          reg = reg\<lparr>next_id := next_id reg + 1, subscribers := AList.update i sub (subscribers reg)\<rparr>
      in (i, register_in_group i gid reg))"

fun register_loop :: "nat \<Rightarrow> string list \<Rightarrow> SubscriberRegistry \<Rightarrow> SubscriberRegistry" where
  "register_loop i [] reg = reg"
| "register_loop i (gid # gids) reg = register_loop i gids (register_in_group i gid reg)"

definition register_many :: "string list \<Rightarrow> Subscriber \<Rightarrow> SubscriberRegistry \<Rightarrow>
    nat \<times> SubscriberRegistry" where
  "register_many gids sub reg =
     (let i = next_id reg;
          reg = reg\<lparr>next_id := next_id reg + 1, subscribers := AList.update i sub (subscribers reg)\<rparr>
      in (i, register_loop i gids reg))"

text \<open>One round of the removal loop: leave the group's set and drop one count.\<close>

definition remove_from_group :: "nat \<Rightarrow> string \<Rightarrow> SubscriberRegistry \<Rightarrow> SubscriberRegistry" where
  "remove_from_group i gid reg =
     (let reg = (case map_of (group_subscribers reg) gid of
                   None \<Rightarrow> reg
                 | Some ids \<Rightarrow> reg\<lparr>group_subscribers :=
                     put_or_shift_remove gid (remove1 i ids) (group_subscribers reg)\<rparr>)
      in case map_of (refcounts reg) i of
           None \<Rightarrow> reg
         | Some n \<Rightarrow>
             let n = n - 1 in
             reg\<lparr>refcounts := (if n = 0 then AList.delete i (refcounts reg)
                                else AList.update i n (refcounts reg))\<rparr>)"

fun remove_loop :: "nat \<Rightarrow> string list \<Rightarrow> SubscriberRegistry \<Rightarrow> SubscriberRegistry" where
  "remove_loop i [] reg = reg"
| "remove_loop i (gid # gids) reg = remove_loop i gids (remove_from_group i gid reg)"

definition remove_subscriber :: "nat \<Rightarrow> string list \<Rightarrow> SubscriberRegistry \<Rightarrow> SubscriberRegistry" where
  "remove_subscriber i gids reg =
     (let reg = remove_loop i gids reg in
      if map_of (refcounts reg) i = None
      then reg\<lparr>subscribers := AList.delete i (subscribers reg)\<rparr>
      else reg)"

text \<open>The fan-out of one record: \<^verbatim>\<open>for id in ids { if let Some(sub) = get_mut(&id) { sub.push(..) } }\<close>.\<close>

fun publish_to :: "nat list \<Rightarrow> GroupMessageRecord \<Rightarrow> (nat \<times> Subscriber) list \<Rightarrow> (nat \<times> Subscriber) list"
  where
  "publish_to [] record subs = subs"
| "publish_to (i # ids) record subs =
     publish_to ids record
       (case map_of subs i of None \<Rightarrow> subs | Some sub \<Rightarrow> AList.update i (push record sub) subs)"

definition publish_live :: "GroupMessageRecord \<Rightarrow> SubscriberRegistry \<Rightarrow> SubscriberRegistry" where
  "publish_live record reg =
     (case map_of (group_subscribers reg) (gm_group_id record) of
        None \<Rightarrow> reg
      | Some ids \<Rightarrow>
          if ids = [] then reg
          else reg\<lparr>subscribers := publish_to ids record (subscribers reg)\<rparr>)"

definition get_active_subscription_count :: "SubscriberRegistry \<Rightarrow> usize" where
  "get_active_subscription_count reg = length (refcounts reg)"

section \<open>The coordinator\<close>

definition DEFAULT_CLEANUP_INTERVAL_MS :: i64 where
  "DEFAULT_CLEANUP_INTERVAL_MS = 21600000"

definition DEFAULT_MAX_AGE_MS :: i64 where
  "DEFAULT_MAX_AGE_MS = 2592000000"

text \<open>\<open>cleanup_handle\<close> is the spawned task, by the interval and the maximal age it runs with.\<close>

record 's Coordinator =
  storage :: 's
  inner :: SubscriberRegistry
  detached :: "(nat \<times> GroupMessageRecord list) list"
  cleanup_handle :: "(i64 \<times> i64) option"

type_synonym ('s, 'a) cop = "('s Coordinator, StorageError, 'a) op"

definition Coordinator_new :: "'s \<Rightarrow> i64 option \<Rightarrow> i64 option \<Rightarrow> 's Coordinator" where
  "Coordinator_new st cleanup_interval_ms max_age_ms =
     (let interval_ms = unwrap_or DEFAULT_CLEANUP_INTERVAL_MS cleanup_interval_ms in
      \<lparr>storage = st, inner = SubscriberRegistry_new, detached = [],
       cleanup_handle = (if 0 < interval_ms
         then Some (interval_ms, unwrap_or DEFAULT_MAX_AGE_MS max_age_ms) else None)\<rparr>)"

definition close :: "'s Coordinator \<Rightarrow> 's Coordinator" where
  "close co = co\<lparr>cleanup_handle := None\<rparr>"

text \<open>A call of the backend, and one round of the background task.\<close>

definition on_storage :: "('s, 'a) sop \<Rightarrow> ('s, 'a) cop" where
  "on_storage m co = (case m (storage co) of (r, s) \<Rightarrow> (r, co\<lparr>storage := s\<rparr>))"

definition cleanup_threshold :: "i64 \<Rightarrow> i64 \<Rightarrow> i64" where
  "cleanup_threshold now max_age_ms = (if 0 < max_age_ms then wrap64 (now - max_age_ms) else 0)"

definition cleanup_tick :: "('s, 'j) CoordinatorStorage \<Rightarrow> i64 \<Rightarrow> 's Coordinator \<Rightarrow> 's Coordinator" where
  "cleanup_tick ops now co =
     (case cleanup_handle co of
        None \<Rightarrow> co
      | Some (_, max_age_ms) \<Rightarrow>
          let threshold = cleanup_threshold now max_age_ms;
              co = snd (on_storage (so_delete_expired_welcomes ops threshold) co)
          in snd (on_storage (so_delete_expired_join_requests ops threshold) co))"

record 'j PublishKeyPackageInput =
  pk_stable_pubkey :: string
  pk_key_package_bytes :: bytes
  pk_key_package_ref :: string
  pk_is_last_resort :: bool
  pk_publication_event :: 'j

record StoreWelcomeInput =
  sw_target_stable_pubkey :: string
  sw_key_package_reference :: string
  sw_welcome_bytes :: bytes
  sw_join_after_cursor :: "i64 option"

record StoreJoinRequestInput =
  sj_group_id :: string
  sj_requester_stable_pubkey :: string
  sj_key_package_ref :: string

record PostGroupMessageInput =
  pm_group_id :: string
  pm_opaque_message :: bytes

definition publish_key_package :: "('s, 'j) CoordinatorStorage \<Rightarrow> i64 \<Rightarrow> 'j PublishKeyPackageInput \<Rightarrow>
    ('s, 'j PublishedKeyPackageRecord) cop" where
  "publish_key_package ops now input =
     on_storage (so_publish_key_package ops
       \<lparr>stable_pubkey = pk_stable_pubkey input, key_package_bytes = pk_key_package_bytes input,
        key_package_ref = pk_key_package_ref input, is_last_resort = pk_is_last_resort input,
        published_at = now, publication_event = pk_publication_event input\<rparr>)"

definition list_key_packages_for_identity :: "('s, 'j) CoordinatorStorage \<Rightarrow> string \<Rightarrow>
    ('s, 'j PublishedKeyPackageRecord list) cop" where
  "list_key_packages_for_identity ops pk = on_storage (so_list_key_packages_for_identity ops pk)"

definition list_all_key_packages :: "('s, 'j) CoordinatorStorage \<Rightarrow>
    ('s, 'j PublishedKeyPackageRecord list) cop" where
  "list_all_key_packages ops = on_storage (so_list_all_key_packages ops)"

definition get_key_package :: "('s, 'j) CoordinatorStorage \<Rightarrow> string \<Rightarrow>
    ('s, 'j PublishedKeyPackageRecord option) cop" where
  "get_key_package ops kp_ref = on_storage (so_get_key_package ops kp_ref)"

definition remove_key_package :: "('s, 'j) CoordinatorStorage \<Rightarrow> string \<Rightarrow>
    ('s, 'j PublishedKeyPackageRecord option) cop" where
  "remove_key_package ops kp_ref = on_storage (so_remove_key_package ops kp_ref)"

definition consume_key_package :: "('s, 'j) CoordinatorStorage \<Rightarrow> string \<Rightarrow>
    ('s, 'j PublishedKeyPackageRecord option) cop" where
  "consume_key_package ops identifier = on_storage (so_consume_key_package ops identifier)"

definition store_welcome :: "('s, 'j) CoordinatorStorage \<Rightarrow> i64 \<Rightarrow> StoreWelcomeInput \<Rightarrow>
    ('s, WelcomeQueueRecord) cop" where
  "store_welcome ops now input =
     on_storage (so_store_welcome ops
       \<lparr>target_stable_pubkey = sw_target_stable_pubkey input,
        key_package_reference = sw_key_package_reference input,
        welcome_bytes = sw_welcome_bytes input, w_created_at = now,
        join_after_cursor = sw_join_after_cursor input\<rparr>)"

definition fetch_pending_welcomes :: "('s, 'j) CoordinatorStorage \<Rightarrow> string \<Rightarrow> ConsumedWelcomeRef list \<Rightarrow>
    ('s, WelcomeQueueRecord list) cop" where
  "fetch_pending_welcomes ops target consumed = on_storage (so_fetch_pending_welcomes ops target consumed)"

definition delete_expired_welcomes :: "('s, 'j) CoordinatorStorage \<Rightarrow> i64 \<Rightarrow> ('s, usize) cop" where
  "delete_expired_welcomes ops th = on_storage (so_delete_expired_welcomes ops th)"

definition store_join_request :: "('s, 'j) CoordinatorStorage \<Rightarrow> i64 \<Rightarrow> StoreJoinRequestInput \<Rightarrow>
    ('s, JoinRequestRecord) cop" where
  "store_join_request ops now input =
     on_storage (so_store_join_request ops
       \<lparr>jr_group_id = sj_group_id input, requester_stable_pubkey = sj_requester_stable_pubkey input,
        jr_key_package_ref = sj_key_package_ref input, jr_created_at = now\<rparr>)"

definition fetch_pending_join_requests :: "('s, 'j) CoordinatorStorage \<Rightarrow> string \<Rightarrow>
    ConsumedJoinRequestRef list \<Rightarrow> ('s, JoinRequestRecord list) cop" where
  "fetch_pending_join_requests ops gid consumed =
     on_storage (so_fetch_pending_join_requests ops gid consumed)"

definition fetch_many_pending_join_requests :: "('s, 'j) CoordinatorStorage \<Rightarrow> string list \<Rightarrow>
    ConsumedJoinRequestWithGroupRef list \<Rightarrow> ('s, JoinRequestRecord list) cop" where
  "fetch_many_pending_join_requests ops gids consumed =
     on_storage (so_fetch_many_pending_join_requests ops gids consumed)"

definition delete_expired_join_requests :: "('s, 'j) CoordinatorStorage \<Rightarrow> i64 \<Rightarrow> ('s, usize) cop" where
  "delete_expired_join_requests ops th = on_storage (so_delete_expired_join_requests ops th)"

definition post_group_message :: "('s, 'j) CoordinatorStorage \<Rightarrow> i64 \<Rightarrow> PostGroupMessageInput \<Rightarrow>
    ('s, GroupMessageRecord) cop" where
  "post_group_message ops now input co =
     (case on_storage (so_append_group_message ops
             \<lparr>ap_group_id = pm_group_id input, ap_opaque_message = pm_opaque_message input,
              ap_created_at = now\<rparr>) co of
        (Inl e, co) \<Rightarrow> (Inl e, co)
      | (Inr record, co) \<Rightarrow> (Inr record, co\<lparr>inner := publish_live record (inner co)\<rparr>))"

definition fetch_group_messages :: "('s, 'j) CoordinatorStorage \<Rightarrow> string \<Rightarrow> i64 option \<Rightarrow>
    ('s, GroupMessageRecord list) cop" where
  "fetch_group_messages ops gid after = on_storage (so_fetch_group_messages ops gid after)"

definition fetch_many_group_messages :: "('s, 'j) CoordinatorStorage \<Rightarrow> FetchGroupMessagesInput list \<Rightarrow>
    ('s, GroupMessageRecord list) cop" where
  "fetch_many_group_messages ops groups = on_storage (so_fetch_many_group_messages ops groups)"

section \<open>Subscriptions\<close>

text \<open>The caller's handle; \<open>received\<close> counts what its receiver has taken from the channel.\<close>

record GroupMessageSubscription =
  received :: nat
  subscriber_id :: nat
  group_ids :: "string list"
  unsubscribed :: bool

definition live_tail :: Subscriber where
  "live_tail = \<lparr>sender = [], dedup = False, cursors_by_group = [], buffering = False, buffer = []\<rparr>"

definition subscribe_group_messages :: "string \<Rightarrow> 's Coordinator \<Rightarrow>
    GroupMessageSubscription \<times> 's Coordinator" where
  "subscribe_group_messages gid co =
     (let (i, reg) = register_subscriber gid live_tail (inner co)
      in (\<lparr>received = 0, subscriber_id = i, group_ids = [gid], unsubscribed = False\<rparr>,
          co\<lparr>inner := reg\<rparr>))"

text \<open>\<^verbatim>\<open>for g in groups { cursors.insert(g.group_id, g.after_cursor.unwrap_or(0)) }\<close>.\<close>

fun cursors_loop :: "FetchGroupMessagesInput list \<Rightarrow> (string \<times> i64) list \<Rightarrow> (string \<times> i64) list" where
  "cursors_loop [] cursors = cursors"
| "cursors_loop (g # gs) cursors =
     cursors_loop gs (AList.update (fg_group_id g) (unwrap_or 0 (after_cursor g)) cursors)"

definition merging :: "(string \<times> i64) list \<Rightarrow> Subscriber" where
  "merging cursors =
     \<lparr>sender = [], dedup = True, cursors_by_group = cursors, buffering = True, buffer = []\<rparr>"

text \<open>
  Unregister, and keep for the receiver what was sent before the sender is dropped.
\<close>

definition drop_subscriber :: "nat \<Rightarrow> string list \<Rightarrow> 's Coordinator \<Rightarrow> 's Coordinator" where
  "drop_subscriber i gids co =
     (let reg = remove_subscriber i gids (inner co) in
      co\<lparr>inner := reg,
         detached := (case (map_of (subscribers (inner co)) i, map_of (subscribers reg) i) of
                        (Some sub, None) \<Rightarrow> AList.update i (sender sub) (detached co)
                      | _ \<Rightarrow> detached co)\<rparr>)"

definition begin_merge :: "FetchGroupMessagesInput list \<Rightarrow> SubscriberRegistry \<Rightarrow>
    (nat \<times> string list) \<times> SubscriberRegistry" where
  "begin_merge groups reg =
     (let cursors = cursors_loop groups [];
          gids = map fst cursors;
          (i, reg) = register_many gids (merging cursors) reg
      in ((i, gids), reg))"

definition finish_merge :: "nat \<Rightarrow> GroupMessageRecord list \<Rightarrow> SubscriberRegistry \<Rightarrow> SubscriberRegistry"
  where
  "finish_merge i backlog reg =
     (case map_of (subscribers reg) i of
        None \<Rightarrow> reg
      | Some sub \<Rightarrow> reg\<lparr>subscribers :=
          AList.update i (finish_buffering (replay_backlog backlog sub)) (subscribers reg)\<rparr>)"

definition subscribe_many_group_messages :: "('s, 'j) CoordinatorStorage \<Rightarrow>
    FetchGroupMessagesInput list \<Rightarrow> ('s, GroupMessageSubscription) cop" where
  "subscribe_many_group_messages ops groups co =
     (let ((i, gids), reg) = begin_merge groups (inner co);
          co = co\<lparr>inner := reg\<rparr>
      in case on_storage (so_fetch_many_group_messages ops groups) co of
           (Inl e, co) \<Rightarrow> (Inl e, drop_subscriber i gids co)
         | (Inr backlog, co) \<Rightarrow>
             (Inr \<lparr>received = 0, subscriber_id = i, group_ids = gids, unsubscribed = False\<rparr>,
              co\<lparr>inner := finish_merge i backlog (inner co)\<rparr>))"

definition unsubscribe :: "GroupMessageSubscription \<Rightarrow> 's Coordinator \<Rightarrow>
    GroupMessageSubscription \<times> 's Coordinator" where
  "unsubscribe h co =
     (if unsubscribed h then (h, co)
      else (h\<lparr>unsubscribed := True\<rparr>, drop_subscriber (subscriber_id h) (group_ids h) co))"

text \<open>What was sent on a subscription's channel, and whether its sender is still there.\<close>

definition channel_contents :: "nat \<Rightarrow> 's Coordinator \<Rightarrow> GroupMessageRecord list" where
  "channel_contents i co =
     (case map_of (subscribers (inner co)) i of
        Some sub \<Rightarrow> sender sub
      | None \<Rightarrow> get_or_default (detached co) i)"

datatype recv_result = Received GroupMessageRecord | Closed | Pending

definition recv :: "GroupMessageSubscription \<Rightarrow> 's Coordinator \<Rightarrow> recv_result \<times> GroupMessageSubscription"
  where
  "recv h co =
     (let sent = channel_contents (subscriber_id h) co in
      if received h < length sent
      then (Received (sent ! received h), h\<lparr>received := received h + 1\<rparr>)
      else if map_of (subscribers (inner co)) (subscriber_id h) = None then (Closed, h)
      else (Pending, h))"

end
