(* ===== verification/Coordinator_Registry.thy ===== *)
theory Coordinator_Registry
  imports Coordinator
begin

text \<open>
  Laws of the subscriber registry of \<^verbatim>\<open>coordinator.rs\<close>: its invariant, what registering and
  removing do to it, and the fan-out of one record, which touches exactly the members of the
  record's group and does not depend on the order in which they are walked.
\<close>

section \<open>The invariant\<close>

definition members :: "SubscriberRegistry \<Rightarrow> string \<Rightarrow> nat list" where
  "members reg g = get_or_default (group_subscribers reg) g"

definition groups_of :: "SubscriberRegistry \<Rightarrow> nat \<Rightarrow> string set" where
  "groups_of reg i = {g. i \<in> set (members reg g)}"

definition refs_ok :: "SubscriberRegistry \<Rightarrow> bool" where
  "refs_ok reg \<longleftrightarrow> multimap_ok (group_subscribers reg) \<and> (\<forall>g. distinct (members reg g)) \<and>
     distinct (map fst (refcounts reg)) \<and>
     (\<forall>i. map_of (refcounts reg) i =
        (if groups_of reg i = {} then None else Some (card (groups_of reg i))))"

definition reg_ok :: "SubscriberRegistry \<Rightarrow> bool" where
  "reg_ok reg \<longleftrightarrow> refs_ok reg \<and> distinct (map fst (subscribers reg)) \<and>
     (\<forall>i. groups_of reg i \<noteq> {} \<longrightarrow> i \<in> fst ` set (subscribers reg)) \<and>
     (\<forall>i. i \<in> fst ` set (subscribers reg) \<longrightarrow> i < next_id reg)"

lemma reg_ok_new: "reg_ok SubscriberRegistry_new"
  by (simp add: reg_ok_def refs_ok_def SubscriberRegistry_new_def members_def groups_of_def)

lemma finite_groups_of [simp]: "finite (groups_of reg i)"
proof (rule finite_subset)
  show "groups_of reg i \<subseteq> fst ` set (group_subscribers reg)"
  proof
    fix g assume "g \<in> groups_of reg i"
    then have "map_of (group_subscribers reg) g \<noteq> None"
      by (cases "map_of (group_subscribers reg) g") (auto simp: groups_of_def members_def get_or_default_def)
    then show "g \<in> fst ` set (group_subscribers reg)" by (simp add: map_of_eq_None_iff)
  qed
qed simp

lemma members_alt: "i \<in> set (members reg g) \<longleftrightarrow> g \<in> groups_of reg i"
  by (simp add: groups_of_def)

section \<open>Registering\<close>

lemma members_register_in_group:
  "members (register_in_group i g reg) g' =
     (if g' = g then hashset_insert i (members reg g) else members reg g')"
  by (simp add: members_def register_in_group_def get_or_default_update)

lemma groups_of_register_in_group:
  "groups_of (register_in_group i g reg) j =
     (if j = i then insert g (groups_of reg j) else groups_of reg j)"
  by (auto simp: groups_of_def members_register_in_group hashset_insert_def split: if_splits)

lemma register_in_group_fields [simp]:
  "subscribers (register_in_group i g reg) = subscribers reg"
  "next_id (register_in_group i g reg) = next_id reg"
  by (simp_all add: register_in_group_def)

lemma refs_ok_register_in_group:
  assumes "refs_ok reg" "g \<notin> groups_of reg i"
  shows "refs_ok (register_in_group i g reg)"
proof -
  have "multimap_ok (group_subscribers (register_in_group i g reg))"
    using assms by (auto simp: refs_ok_def register_in_group_def hashset_insert_def intro!: multimap_ok_update)
  moreover have "distinct (members (register_in_group i g reg) g')" for g'
    using assms by (auto simp: refs_ok_def members_register_in_group hashset_insert_def)
  moreover have "map_of (refcounts (register_in_group i g reg)) j =
      (if groups_of (register_in_group i g reg) j = {} then None
       else Some (card (groups_of (register_in_group i g reg) j)))" for j
    using assms by (simp add: refs_ok_def groups_of_register_in_group)
      (simp add: register_in_group_def map_of_update)
  ultimately show ?thesis
    using assms by (simp add: refs_ok_def register_in_group_def distinct_update)
qed

lemma register_loop_fields [simp]:
  "subscribers (register_loop i gids reg) = subscribers reg"
  "next_id (register_loop i gids reg) = next_id reg"
  by (induction gids arbitrary: reg) simp_all

lemma register_loop_ok:
  assumes "refs_ok reg" "distinct gids" "set gids \<inter> groups_of reg i = {}"
  shows "refs_ok (register_loop i gids reg) \<and>
    groups_of (register_loop i gids reg) j = (if j = i then set gids \<union> groups_of reg j else groups_of reg j)"
  using assms
proof (induction gids arbitrary: reg)
  case (Cons g gids)
  then have "refs_ok (register_in_group i g reg)" by (intro refs_ok_register_in_group) auto
  moreover have "set gids \<inter> groups_of (register_in_group i g reg) i = {}"
    using Cons.prems by (auto simp: groups_of_register_in_group)
  ultimately show ?case
    using Cons.IH Cons.prems by (auto simp: groups_of_register_in_group)
qed auto

lemma groups_of_subscribers_update [simp]:
  "groups_of (reg\<lparr>next_id := n\<rparr>) i = groups_of reg i"
  "groups_of (reg\<lparr>subscribers := subs\<rparr>) i = groups_of reg i"
  "members (reg\<lparr>next_id := n\<rparr>) g = members reg g"
  "members (reg\<lparr>subscribers := subs\<rparr>) g = members reg g"
  by (simp_all add: groups_of_def members_def)

lemma refs_ok_subscribers_update [simp]:
  "refs_ok (reg\<lparr>next_id := n\<rparr>) = refs_ok reg"
  "refs_ok (reg\<lparr>subscribers := subs\<rparr>) = refs_ok reg"
  by (simp_all add: refs_ok_def)

lemma fst_set_update: "fst ` set (AList.update k v m) = insert k (fst ` set m)"
  by (induction m) (auto simp: image_iff)

lemma fst_set_delete: "fst ` set (AList.delete k m) = fst ` set m - {k}"
  by (induction m) (auto simp: AList.delete_eq)

lemma next_id_unused: "reg_ok reg \<Longrightarrow> groups_of reg (next_id reg) = {}"
  by (force simp: reg_ok_def)

lemma register_many_ok:
  assumes "reg_ok reg" "distinct gids" "register_many gids sub reg = (i, reg')"
  shows "i = next_id reg" "reg_ok reg'" "next_id reg' = next_id reg + 1"
    "groups_of reg' j = (if j = i then set gids else groups_of reg j)"
    "subscribers reg' = AList.update i sub (subscribers reg)"
proof -
  let ?r = "reg\<lparr>next_id := next_id reg + 1, subscribers := AList.update (next_id reg) sub (subscribers reg)\<rparr>"
  have i: "i = next_id reg" "reg' = register_loop (next_id reg) gids ?r"
    using assms(3) by (auto simp: register_many_def Let_def)
  then show "i = next_id reg" "next_id reg' = next_id reg + 1"
    "subscribers reg' = AList.update i sub (subscribers reg)" by simp_all
  have loop: "refs_ok reg' \<and> groups_of reg' j = (if j = i then set gids else groups_of reg j)" for j
    using register_loop_ok [of ?r gids "next_id reg" j] assms(1,2) next_id_unused [OF assms(1)] i
    by (simp add: reg_ok_def split: if_splits)
  then show "groups_of reg' j = (if j = i then set gids else groups_of reg j)" by simp
  from loop assms(1) i show "reg_ok reg'"
    by (auto simp: reg_ok_def distinct_update fst_set_update less_Suc_eq)
qed

lemma register_subscriber_many: "register_subscriber g sub reg = register_many [g] sub reg"
  by (simp add: register_subscriber_def register_many_def Let_def)

section \<open>Removing\<close>

lemma remove_from_group_parts:
  assumes "refs_ok reg" "g \<in> groups_of reg i"
  shows "group_subscribers (remove_from_group i g reg) =
      put_or_shift_remove g (remove1 i (members reg g)) (group_subscribers reg)"
    "refcounts (remove_from_group i g reg) =
      (if card (groups_of reg i) = 1 then AList.delete i (refcounts reg)
       else AList.update i (card (groups_of reg i) - 1) (refcounts reg))"
    "subscribers (remove_from_group i g reg) = subscribers reg"
    "next_id (remove_from_group i g reg) = next_id reg"
proof -
  have ne: "members reg g \<noteq> []" "groups_of reg i \<noteq> {}" using assms(2) by (auto simp: groups_of_def)
  then obtain ids where ids: "map_of (group_subscribers reg) g = Some ids" "members reg g = ids"
    by (auto simp: members_def get_or_default_def unwrap_or_def split: option.splits)
  have rc: "map_of (refcounts reg) i = Some (card (groups_of reg i))"
    using assms(1) ne by (simp add: refs_ok_def)
  have "0 < card (groups_of reg i)" using ne by (simp add: card_gt_0_iff)
  with ids rc show "group_subscribers (remove_from_group i g reg) =
      put_or_shift_remove g (remove1 i (members reg g)) (group_subscribers reg)"
    "refcounts (remove_from_group i g reg) =
      (if card (groups_of reg i) = 1 then AList.delete i (refcounts reg)
       else AList.update i (card (groups_of reg i) - 1) (refcounts reg))"
    "subscribers (remove_from_group i g reg) = subscribers reg"
    "next_id (remove_from_group i g reg) = next_id reg"
    by (auto simp: remove_from_group_def Let_def)
qed

lemma remove_from_group_ok:
  assumes "refs_ok reg" "g \<in> groups_of reg i"
  shows "refs_ok (remove_from_group i g reg)"
    and "groups_of (remove_from_group i g reg) j =
      (if j = i then groups_of reg j - {g} else groups_of reg j)"
proof -
  note parts = remove_from_group_parts [OF assms]
  have mem: "members (remove_from_group i g reg) g' =
      (if g' = g then remove1 i (members reg g) else members reg g')" for g'
    by (simp add: members_def [of "remove_from_group i g reg"] parts get_or_default_put)
      (simp add: members_def)
  have dist: "distinct (members reg g')" for g' using assms(1) by (simp add: refs_ok_def)
  show grp: "groups_of (remove_from_group i g reg) j =
      (if j = i then groups_of reg j - {g} else groups_of reg j)" for j
    using dist [of g] by (auto simp: groups_of_def mem split: if_splits)
  have card1: "groups_of reg i = {g}" if "card (groups_of reg i) = 1"
    using that assms(2) by (elim card_1_singletonE) auto
  have "map_of (refcounts (remove_from_group i g reg)) j =
      (if groups_of (remove_from_group i g reg) j = {} then None
       else Some (card (groups_of (remove_from_group i g reg) j)))" for j
  proof (cases "j = i")
    case True
    have "card (groups_of reg i - {g}) = card (groups_of reg i) - 1"
      using assms(2) by simp
    moreover have "card (groups_of reg i) = 1" if "groups_of reg i - {g} = {}"
      using that assms(2) by (metis card_1_singleton_iff One_nat_def Diff_eq_empty_iff subset_singletonD empty_iff)
    ultimately show ?thesis
      using True assms(2) card1 by (cases "card (groups_of reg i) = 1") (auto simp: parts grp map_of_update map_of_delete)
  next
    case False
    with assms(1) show ?thesis by (simp add: parts grp map_of_update map_of_delete refs_ok_def)
  qed
  then show "refs_ok (remove_from_group i g reg)"
    using assms(1) mem dist
    by (auto simp: refs_ok_def parts multimap_ok_put distinct_update distinct_delete)
qed

lemma remove_loop_ok:
  assumes "refs_ok reg" "distinct gids" "set gids \<subseteq> groups_of reg i"
  shows "refs_ok (remove_loop i gids reg) \<and>
    groups_of (remove_loop i gids reg) j = (if j = i then groups_of reg j - set gids else groups_of reg j) \<and>
    subscribers (remove_loop i gids reg) = subscribers reg \<and> next_id (remove_loop i gids reg) = next_id reg"
  using assms
proof (induction gids arbitrary: reg)
  case (Cons g gids)
  then have g: "g \<in> groups_of reg i" by simp
  note ok = remove_from_group_ok [OF Cons.prems(1) g] remove_from_group_parts(3,4) [OF Cons.prems(1) g]
  have "set gids \<subseteq> groups_of (remove_from_group i g reg) i" using Cons.prems by (auto simp: ok)
  with Cons.IH [OF ok(1)] Cons.prems show ?case by (auto simp: ok)
qed simp

text \<open>Removing a subscription under the groups it was registered with.\<close>

lemma remove_subscriber_ok:
  assumes "reg_ok reg" "distinct gids" "set gids = groups_of reg i"
  shows "reg_ok (remove_subscriber i gids reg)"
    "groups_of (remove_subscriber i gids reg) j = (if j = i then {} else groups_of reg j)"
    "subscribers (remove_subscriber i gids reg) = AList.delete i (subscribers reg)"
    "next_id (remove_subscriber i gids reg) = next_id reg"
proof -
  have loop: "refs_ok (remove_loop i gids reg)"
    "groups_of (remove_loop i gids reg) j = (if j = i then {} else groups_of reg j)"
    "subscribers (remove_loop i gids reg) = subscribers reg"
    "next_id (remove_loop i gids reg) = next_id reg" for j
    using remove_loop_ok [of reg gids i] assms by (auto simp: reg_ok_def)
  then have "map_of (refcounts (remove_loop i gids reg)) i = None" by (simp add: refs_ok_def)
  then have rs: "remove_subscriber i gids reg =
      remove_loop i gids reg\<lparr>subscribers := AList.delete i (subscribers reg)\<rparr>"
    by (simp add: remove_subscriber_def Let_def loop)
  show "groups_of (remove_subscriber i gids reg) j = (if j = i then {} else groups_of reg j)" for j
    by (simp add: rs loop)
  then show "reg_ok (remove_subscriber i gids reg)"
    using assms(1) loop by (auto simp: reg_ok_def rs distinct_delete fst_set_delete)
  show "subscribers (remove_subscriber i gids reg) = AList.delete i (subscribers reg)"
    "next_id (remove_subscriber i gids reg) = next_id reg"
    by (simp_all add: rs loop)
qed

section \<open>Fan-out\<close>

lemma publish_to_lookup:
  assumes "distinct ids"
  shows "map_of (publish_to ids m subs) j =
    map_option (if j \<in> set ids then push m else id) (map_of subs j)"
  using assms
proof (induction ids arbitrary: subs)
  case (Cons i ids)
  then show ?case by (cases "map_of subs i") (auto simp: map_of_update option.map_id)
qed (simp add: option.map_id)

lemma publish_to_keys: "map fst (publish_to ids m subs) = map fst subs"
proof (induction ids arbitrary: subs)
  case (Cons i ids)
  have "map fst (AList.update i v subs) = map fst subs" if "map_of subs i = Some w" for v w
    using that by (simp add: update_keys image_iff) (metis map_of_SomeD fst_conv)
  then show ?case by (cases "map_of subs i") (simp_all add: Cons)
qed simp

lemma alist_eqI:
  assumes "map fst xs = map fst ys" "distinct (map fst xs)" "map_of xs = map_of ys"
  shows "xs = ys"
proof (rule nth_equalityI)
  show "length xs = length ys" using assms(1) by (metis length_map)
  fix n assume "n < length xs"
  moreover from this assms(1) have "fst (xs ! n) = fst (ys ! n)" by (metis length_map nth_map)
  moreover have "map_of xs (fst (xs ! n)) = Some (snd (xs ! n))"
    using assms(2) \<open>n < length xs\<close> by (metis map_of_eq_Some_iff nth_mem prod.collapse)
  moreover have "map_of ys (fst (ys ! n)) = Some (snd (ys ! n))"
    using assms(1,2) calculation(1) by (metis length_map map_of_eq_Some_iff nth_mem prod.collapse)
  ultimately show "xs ! n = ys ! n" using assms(3) by (simp add: prod_eq_iff)
qed

text \<open>The order in which a \<^verbatim>\<open>HashSet\<close> hands out the ids makes no difference.\<close>

lemma publish_to_order:
  assumes "distinct ids" "distinct ids'" "set ids' = set ids" "distinct (map fst subs)"
  shows "publish_to ids' m subs = publish_to ids m subs"
  using assms by (intro alist_eqI) (auto simp: publish_to_keys publish_to_lookup)

lemma publish_live_alt: "publish_live m reg = reg\<lparr>subscribers := publish_to (members reg (gm_group_id m)) m (subscribers reg)\<rparr>"
  by (auto simp: publish_live_def members_def get_or_default_def unwrap_or_def split: option.split)

lemma publish_live_lookup:
  assumes "reg_ok reg"
  shows "map_of (subscribers (publish_live m reg)) j =
    map_option (if gm_group_id m \<in> groups_of reg j then push m else id) (map_of (subscribers reg) j)"
  using assms by (simp add: publish_live_alt publish_to_lookup reg_ok_def refs_ok_def members_alt)

lemma publish_live_ok:
  assumes "reg_ok reg"
  shows "reg_ok (publish_live m reg)" "groups_of (publish_live m reg) = groups_of reg"
    "next_id (publish_live m reg) = next_id reg"
proof -
  show "groups_of (publish_live m reg) = groups_of reg" "next_id (publish_live m reg) = next_id reg"
    by (simp_all add: publish_live_alt fun_eq_iff)
  have "fst ` set (publish_to ids m (subscribers reg)) = fst ` set (subscribers reg)" for ids
    using publish_to_keys [of ids m "subscribers reg"] by (metis set_map)
  with assms show "reg_ok (publish_live m reg)"
    by (simp add: publish_live_alt reg_ok_def publish_to_keys)
qed

lemma finish_merge_ok:
  assumes "reg_ok reg"
  shows "reg_ok (finish_merge i backlog reg)" "groups_of (finish_merge i backlog reg) = groups_of reg"
    "next_id (finish_merge i backlog reg) = next_id reg"
    "map_of (subscribers (finish_merge i backlog reg)) j =
      map_option (if j = i then finish_buffering \<circ> replay_backlog backlog else id) (map_of (subscribers reg) j)"
proof -
  show "groups_of (finish_merge i backlog reg) = groups_of reg" "next_id (finish_merge i backlog reg) = next_id reg"
    by (auto simp: finish_merge_def fun_eq_iff split: option.split)
  show "map_of (subscribers (finish_merge i backlog reg)) j =
      map_option (if j = i then finish_buffering \<circ> replay_backlog backlog else id) (map_of (subscribers reg) j)"
    by (auto simp: finish_merge_def map_of_update option.map_id split: option.split)
  show "reg_ok (finish_merge i backlog reg)"
    using assms
    by (auto simp: finish_merge_def reg_ok_def distinct_update fst_set_update split: option.split
        dest!: map_of_SomeD intro: rev_image_eqI)
qed

end
