(* ===== verification/Coordinator_Delivery.thy ===== *)
theory Coordinator_Delivery
  imports Coordinator_Registry
begin

text \<open>
  What one subscriber of \<^verbatim>\<open>coordinator.rs\<close> sends on its channel. \<open>accept v ms\<close> is the records a
  deduplicating subscriber passes on from \<open>ms\<close> when its last cursor is \<open>v\<close>; replaying a backlog
  appends, group by group, exactly those. On a log whose cursors run \<open>1, 2, 3, \<dots>\<close> every
  list in play is the log cut to an interval of cursors, and the merge of a backlog with the
  records buffered meanwhile is again such an interval.
\<close>

section \<open>What a deduplicating subscriber passes on\<close>

fun accept :: "i64 \<Rightarrow> GroupMessageRecord list \<Rightarrow> GroupMessageRecord list" where
  "accept v [] = []"
| "accept v (m # ms) = (if v < cursor m then m # accept (cursor m) ms else accept v ms)"

fun advance :: "i64 \<Rightarrow> GroupMessageRecord list \<Rightarrow> i64" where
  "advance v [] = v"
| "advance v (m # ms) = advance (max v (cursor m)) ms"

definition last_cursor :: "string \<Rightarrow> Subscriber \<Rightarrow> i64" where
  "last_cursor g sub = unwrap_or 0 (map_of (cursors_by_group sub) g)"

lemma accept_append: "accept v (xs @ ys) = accept v xs @ accept (advance v xs) ys"
  by (induction xs arbitrary: v) (auto simp: max_def)

lemma advance_append: "advance v (xs @ ys) = advance (advance v xs) ys"
  by (induction xs arbitrary: v) auto

lemma accept_subset: "set (accept v ms) \<subseteq> set ms"
  by (induction ms arbitrary: v) auto

lemma accept_increasing:
  "sorted_wrt (<) (map cursor (accept v ms)) \<and> (\<forall>m \<in> set (accept v ms). v < cursor m \<and> cursor m \<le> advance v ms)
    \<and> v \<le> advance v ms"
proof (induction ms arbitrary: v)
  case (Cons m ms)
  show ?case using Cons [of "cursor m"] Cons [of v] by (auto simp: max_def)
qed simp

lemma accept_sorted:
  "sorted_wrt (<) (map cursor ms) \<Longrightarrow> accept v ms = filter (\<lambda>m. v < cursor m) ms"
proof (induction ms arbitrary: v)
  case (Cons m ms)
  then have "\<forall>x \<in> set ms. cursor m < cursor x" by simp
  then have "v < cursor m \<Longrightarrow> filter (\<lambda>x. cursor m < cursor x) ms = filter (\<lambda>x. v < cursor x) ms"
    by (intro filter_cong) auto
  with Cons show ?case by auto
qed simp

section \<open>Subscribers\<close>

lemma emit_fields [simp]:
  "dedup (emit_if_new m sub) = dedup sub" "buffering (emit_if_new m sub) = buffering sub"
  "buffer (emit_if_new m sub) = buffer sub"
  by (simp_all add: emit_if_new_def send_def Let_def)

lemma emit_dedup:
  assumes "dedup sub"
  shows "group_log g (sender (emit_if_new m sub)) =
      group_log g (sender sub) @ accept (last_cursor g sub) (group_log g [m])"
    "last_cursor g (emit_if_new m sub) = advance (last_cursor g sub) (group_log g [m])"
  using assms by (auto simp: emit_if_new_def send_def last_cursor_def map_of_update Let_def max_def)

lemma emit_direct: "\<not> dedup sub \<Longrightarrow> emit_if_new m sub = sub\<lparr>sender := sender sub @ [m]\<rparr>"
  by (simp add: emit_if_new_def send_def)

lemma replay_fields [simp]:
  "dedup (replay_backlog ms sub) = dedup sub" "buffering (replay_backlog ms sub) = buffering sub"
  "buffer (replay_backlog ms sub) = buffer sub"
  by (induction ms arbitrary: sub) simp_all

lemma replay_dedup:
  assumes "dedup sub"
  shows "group_log g (sender (replay_backlog ms sub)) =
      group_log g (sender sub) @ accept (last_cursor g sub) (group_log g ms)"
    "last_cursor g (replay_backlog ms sub) = advance (last_cursor g sub) (group_log g ms)"
proof -
  have split: "group_log g (m # ms) = group_log g [m] @ group_log g ms" for m ms by simp
  have "group_log g (sender (replay_backlog ms sub)) =
      group_log g (sender sub) @ accept (last_cursor g sub) (group_log g ms) \<and>
    last_cursor g (replay_backlog ms sub) = advance (last_cursor g sub) (group_log g ms)"
    using assms
  proof (induction ms arbitrary: sub)
    case (Cons m ms)
    have "dedup (emit_if_new m sub)" using Cons.prems by simp
    note IH = Cons.IH [OF this]
    show ?case
      unfolding replay_backlog.simps split [of m ms] accept_append advance_append
      using IH emit_dedup [OF Cons.prems, of g m] by simp
  qed simp
  then show "group_log g (sender (replay_backlog ms sub)) =
      group_log g (sender sub) @ accept (last_cursor g sub) (group_log g ms)"
    "last_cursor g (replay_backlog ms sub) = advance (last_cursor g sub) (group_log g ms)" by simp_all
qed

lemma replay_sender_subset:
  "set (sender (replay_backlog ms sub)) \<subseteq> set (sender sub) \<union> set ms"
proof (induction ms arbitrary: sub)
  case (Cons m ms)
  have "set (sender (emit_if_new m sub)) \<subseteq> set (sender sub) \<union> {m}"
    by (auto simp: emit_if_new_def send_def Let_def)
  with Cons [of "emit_if_new m sub"] show ?case by auto
qed simp

lemma last_cursor_fields [simp]:
  "last_cursor g (sub\<lparr>buffering := b\<rparr>) = last_cursor g sub"
  "last_cursor g (sub\<lparr>buffer := ms\<rparr>) = last_cursor g sub"
  by (simp_all add: last_cursor_def)

lemma finish_buffering_fields [simp]:
  "dedup (finish_buffering sub) = dedup sub" "buffering (finish_buffering sub) = False"
  "buffer (finish_buffering sub) = []"
  by (simp_all add: finish_buffering_def)

text \<open>Setup as a whole: the backlog, then what was buffered.\<close>

lemma finish_setup:
  assumes "dedup sub"
  shows "group_log g (sender (finish_buffering (replay_backlog ms sub))) =
      group_log g (sender sub) @ accept (last_cursor g sub) (group_log g ms @ group_log g (buffer sub))"
    "last_cursor g (finish_buffering (replay_backlog ms sub)) =
      advance (last_cursor g sub) (group_log g ms @ group_log g (buffer sub))"
  using assms
  by (simp_all add: finish_buffering_def replay_dedup accept_append advance_append)

section \<open>Strictly increasing delivery\<close>

text \<open>Per group, cursors sent increase strictly and stay at or below the last cursor recorded.\<close>

definition delivery_ok :: "Subscriber \<Rightarrow> bool" where
  "delivery_ok sub \<longleftrightarrow> (dedup sub \<longrightarrow> (\<forall>g. sorted_wrt (<) (map cursor (group_log g (sender sub))) \<and>
     (\<forall>m \<in> set (group_log g (sender sub)). cursor m \<le> last_cursor g sub)))"

lemma delivery_ok_emit:
  assumes "delivery_ok sub"
  shows "delivery_ok (emit_if_new m sub)"
proof (cases "dedup sub")
  case True
  show ?thesis
    unfolding delivery_ok_def
  proof (intro impI allI)
    fix g
    let ?v = "last_cursor g sub" and ?ms = "group_log g [m]"
    have "sorted_wrt (<) (map cursor (group_log g (sender sub)))"
      "\<forall>x \<in> set (group_log g (sender sub)). cursor x \<le> ?v"
      using assms True unfolding delivery_ok_def by blast+
    with accept_increasing [of ?v ?ms] emit_dedup [OF True, of g m]
    show "sorted_wrt (<) (map cursor (group_log g (sender (emit_if_new m sub)))) \<and>
      (\<forall>x \<in> set (group_log g (sender (emit_if_new m sub))). cursor x \<le> last_cursor g (emit_if_new m sub))"
      by (fastforce simp: sorted_wrt_append simp del: set_filter filter.simps)
  qed
qed (simp add: delivery_ok_def)

lemma delivery_ok_replay: "delivery_ok sub \<Longrightarrow> delivery_ok (replay_backlog ms sub)"
  by (induction ms arbitrary: sub) (simp_all add: delivery_ok_emit)

lemma delivery_ok_fields [simp]:
  "delivery_ok (sub\<lparr>buffering := b\<rparr>) = delivery_ok sub"
  "delivery_ok (sub\<lparr>buffer := ms\<rparr>) = delivery_ok sub"
  by (simp_all add: delivery_ok_def)

lemma delivery_ok_push: "delivery_ok sub \<Longrightarrow> delivery_ok (push m sub)"
  by (simp add: push_def delivery_ok_emit)

lemma delivery_ok_finish: "delivery_ok sub \<Longrightarrow> delivery_ok (finish_buffering sub)"
  by (simp add: finish_buffering_def delivery_ok_replay)

section \<open>Intervals of a log\<close>

text \<open>The records of a group with a cursor above \<open>lo\<close> and at most \<open>hi\<close>.\<close>

definition interval :: "GroupMessageRecord list \<Rightarrow> string \<Rightarrow> i64 \<Rightarrow> i64 \<Rightarrow> GroupMessageRecord list" where
  "interval ms g lo hi = filter (\<lambda>m. lo < cursor m \<and> cursor m \<le> hi) (group_log g ms)"

abbreviation log_size :: "string \<Rightarrow> GroupMessageRecord list \<Rightarrow> int" where
  "log_size g ms \<equiv> int (length (group_log g ms))"

lemma interval_snoc:
  assumes "contiguous ms" "hi \<le> log_size g ms" "cursor m = log_size (gm_group_id m) ms + 1"
  shows "interval (ms @ [m]) g lo hi = interval ms g lo hi"
  using assms by (auto simp: interval_def)

lemma contiguous_strict: "contiguous ms \<Longrightarrow> sorted_wrt (<) (map cursor (group_log g ms))"
  using contiguous_sorted contiguous_distinct by (metis strict_sorted_iff)

lemma filter_append_sorted:
  assumes "sorted_wrt (<) (map f xs)" "\<And>x y. x \<in> set xs \<Longrightarrow> y \<in> set xs \<Longrightarrow> p x \<Longrightarrow> q y \<Longrightarrow> (f x :: int) < f y"
  shows "filter p xs @ filter q xs = filter (\<lambda>x. p x \<or> q x) xs"
  using assms
proof (induction xs)
  case (Cons x xs)
  show ?case
  proof (cases "q x")
    case True
    have "\<not> p y" if "y \<in> set (x # xs)" for y
      using Cons.prems(1) Cons.prems(2) [of y x] that True by auto
    then have "filter p (x # xs) = []" "filter (\<lambda>x. p x \<or> q x) (x # xs) = filter q (x # xs)"
      by (auto simp: filter_empty_conv intro!: filter_cong)
    then show ?thesis by (metis append_Nil)
  next
    case False
    with Cons show ?thesis by auto
  qed
qed simp

lemma advance_bounds:
  "v \<le> advance v ms" "m \<in> set ms \<Longrightarrow> cursor m \<le> advance v ms"
  "advance v ms = v \<or> (\<exists>m \<in> set ms. advance v ms = cursor m)"
proof -
  show le: "v \<le> advance v ms" for v and ms :: "GroupMessageRecord list"
  proof (induction ms arbitrary: v)
    case (Cons m ms)
    from Cons [of "max v (cursor m)"] show ?case by simp
  qed simp
  show "m \<in> set ms \<Longrightarrow> cursor m \<le> advance v ms"
  proof (induction ms arbitrary: v)
    case (Cons x xs)
    with le [of "max v (cursor x)" xs] show ?case by auto
  qed simp
  show "advance v ms = v \<or> (\<exists>m \<in> set ms. advance v ms = cursor m)"
    by (induction ms arbitrary: v) (auto simp: max_def split: if_splits)
qed

text \<open>A record that does not exceed what went before leaves no trace.\<close>

lemma accept_overtaken:
  assumes "cursor m \<le> v \<or> (\<exists>x \<in> set xs. cursor m \<le> cursor x)"
  shows "accept v (xs @ m # ys) = accept v (xs @ ys)"
proof -
  have "cursor m \<le> advance v xs"
    using assms advance_bounds(1) [of v xs] advance_bounds(2) [of _ xs v] by (meson order_trans)
  then show ?thesis by (simp add: accept_append)
qed

lemma contiguous_has_cursor:
  assumes "contiguous ms" "1 \<le> k" "k \<le> log_size g ms"
  shows "\<exists>m \<in> set (group_log g ms). cursor m = k"
proof
  let ?i = "nat (k - 1)"
  have i: "?i < length (group_log g ms)" using assms by linarith
  then show "group_log g ms ! ?i \<in> set (group_log g ms)" by (rule nth_mem)
  show "cursor (group_log g ms ! ?i) = k" using contiguous_nth_cursor [OF assms(1) i] assms(2) by simp
qed

lemma advance_interval:
  assumes "contiguous ms" "0 \<le> hi" "hi \<le> log_size g ms"
  shows "max 0 (advance v (interval ms g lo hi)) = (if lo < hi then max (max 0 v) hi else max 0 v)"
proof -
  let ?I = "interval ms g lo hi"
  have up: "cursor m \<le> hi" if "m \<in> set ?I" for m using that by (simp add: interval_def)
  have "\<exists>m \<in> set ?I. cursor m = hi" if "lo < hi" "1 \<le> hi"
    using contiguous_has_cursor [OF assms(1) that(2) assms(3)] that by (auto simp: interval_def)
  then have top: "hi \<le> advance v ?I" if "lo < hi" "1 \<le> hi"
    using that advance_bounds(2) [of _ ?I v] by blast
  have "?I = []" if "\<not> lo < hi" using that by (auto simp: interval_def filter_empty_conv)
  moreover have "advance v ?I \<le> max v hi" using advance_bounds(3) [of v ?I] up by fastforce
  ultimately show ?thesis
    using advance_bounds(1) [of v ?I] top assms(2)
    by (cases "lo < hi"; cases "1 \<le> hi") (auto simp: max_def)
qed

text \<open>
  A backlog up to \<open>f\<close> followed by the live records from \<open>k\<close> on, \<open>k \<le> f\<close>, as one interval: what was
  fetched and what was published meanwhile overlap or touch, and the overlap is dropped.
\<close>

lemma accept_merge:
  assumes c: "contiguous ms" and "max 0 v = max 0 lo" "0 \<le> f" "f \<le> log_size g ms" "k \<le> f"
    "0 \<le> p" "p \<le> log_size g ms"
  shows "accept v (interval ms g lo f @ interval ms g k p) = interval ms g lo (max f p)"
    and "max 0 (advance v (interval ms g lo f @ interval ms g k p)) = max (max 0 lo) (max f p)"
proof -
  have st: "sorted_wrt (<) (map cursor (group_log g ms))" by (rule contiguous_strict [OF c])
  have st': "sorted_wrt (<) (map cursor (interval ms g a b))" for a b
    using st by (simp add: interval_def sorted_wrt_map sorted_wrt_filter del: filter_filter)
  have pos: "1 \<le> cursor m" if "m \<in> set (group_log g ms)" for m
    using that contiguous_cursor_bounds [OF c, of m g] by simp
  let ?w = "advance v (interval ms g lo f)"
  have w: "max 0 ?w = max (max 0 lo) f"
    using advance_interval [OF c assms(3,4), of v lo] assms(2,3) by (auto simp: max_def split: if_splits)
  show "max 0 (advance v (interval ms g lo f @ interval ms g k p)) = max (max 0 lo) (max f p)"
    unfolding advance_append using advance_interval [OF c assms(6,7), of ?w k] w assms(3,5)
    by (auto simp: max_def split: if_splits)
  have "v < cursor m" if "m \<in> set (interval ms g lo f)" for m
    using that assms(2) pos [of m] by (auto simp: interval_def max_def split: if_splits)
  then have 1: "accept v (interval ms g lo f) = interval ms g lo f"
    unfolding accept_sorted [OF st'] by (simp add: filter_True)
  have 2: "accept ?w (interval ms g k p) = filter (\<lambda>m. max (max 0 lo) f < cursor m \<and> cursor m \<le> p) (group_log g ms)"
  proof -
    have "(?w < cursor m \<and> k < cursor m \<and> cursor m \<le> p) = (max (max 0 lo) f < cursor m \<and> cursor m \<le> p)"
      if "m \<in> set (group_log g ms)" for m
      using w pos [OF that] assms(5) by (auto simp: max_def split: if_splits)
    then show ?thesis
      unfolding accept_sorted [OF st'] unfolding interval_def [of ms g k p] filter_filter [of _ _ "group_log g ms"]
      by (intro filter_cong) auto
  qed
  have "filter (\<lambda>m. lo < cursor m \<and> cursor m \<le> f) (group_log g ms) @
      filter (\<lambda>m. max (max 0 lo) f < cursor m \<and> cursor m \<le> p) (group_log g ms) =
      filter (\<lambda>m. lo < cursor m \<and> cursor m \<le> f \<or> max (max 0 lo) f < cursor m \<and> cursor m \<le> p) (group_log g ms)"
    by (rule filter_append_sorted [OF st]) auto
  also have "\<dots> = interval ms g lo (max f p)"
    unfolding interval_def using pos by (intro filter_cong) (force simp: max_def)+
  finally show "accept v (interval ms g lo f @ interval ms g k p) = interval ms g lo (max f p)"
    unfolding accept_append 1 2 by (simp add: interval_def)
qed

end
