(* ===== verification/Coordinator_Interleaving.thy ===== *)
theory Coordinator_Interleaving
  imports Coordinator_Delivery
begin

text \<open>
  Interleavings of the coordinator's operations. Each operation of \<^verbatim>\<open>coordinator.rs\<close> is cut at its
  lock sections: \<^verbatim>\<open>post_group_message\<close> appends under the storage lock and fans out under the
  registry lock; \<^verbatim>\<open>subscribe_many_group_messages\<close> registers, fetches the backlog, and replays it
  in three sections. A \<open>system\<close> is the coordinator and the operations under way; an \<open>event\<close> is
  one lock section of one of them, and a list of events is an interleaving.
\<close>

section \<open>Events\<close>

record Setup =
  op_gids :: "string list"
  op_groups :: "FetchGroupMessagesInput list"
  op_backlog :: "GroupMessageRecord list option"

text \<open>A subscription handed out; \<open>request\<close> is what a multi-group one was opened with.\<close>

record Handle =
  subscription :: GroupMessageSubscription
  request :: "FetchGroupMessagesInput list option"

record 's system =
  coord :: "'s Coordinator"
  in_flight :: "GroupMessageRecord list"
  setups :: "(nat \<times> Setup) list"
  handles :: "(nat \<times> Handle) list"

datatype 'j event =
    PostAppend i64 PostGroupMessageInput
  | PostPublish nat
  | SubscribeOne string
  | OpenMany "FetchGroupMessagesInput list"
  | OpenFetch nat
  | OpenFinish nat
  | Unsubscribe nat
  | StorageCall "'j call"

definition append_params :: "i64 \<Rightarrow> PostGroupMessageInput \<Rightarrow> AppendGroupMessageParams" where
  "append_params now input = \<lparr>ap_group_id = pm_group_id input,
     ap_opaque_message = pm_opaque_message input, ap_created_at = now\<rparr>"

definition on_inner :: "(SubscriberRegistry \<Rightarrow> SubscriberRegistry) \<Rightarrow> 's system \<Rightarrow> 's system" where
  "on_inner f sys = sys\<lparr>coord := (coord sys)\<lparr>inner := f (inner (coord sys))\<rparr>\<rparr>"

fun is_append :: "'j call \<Rightarrow> bool" where
  "is_append (AppendGroupMessage p) = True"
| "is_append c = False"

fun step :: "('s, 'j) CoordinatorStorage \<Rightarrow> 'j event \<Rightarrow> 's system \<Rightarrow> 's system option" where
  "step ops (PostAppend now input) sys =
     (case on_storage (so_append_group_message ops (append_params now input)) (coord sys) of
        (Inl e, co) \<Rightarrow> Some (sys\<lparr>coord := co\<rparr>)
      | (Inr m, co) \<Rightarrow> Some (sys\<lparr>coord := co, in_flight := in_flight sys @ [m]\<rparr>))"
| "step ops (PostPublish n) sys =
     (if n < length (in_flight sys)
      then Some (on_inner (publish_live (in_flight sys ! n)) sys
                   \<lparr>in_flight := vec_remove n (in_flight sys)\<rparr>)
      else None)"
| "step ops (SubscribeOne g) sys =
     (let (h, co) = subscribe_group_messages g (coord sys)
      in Some (sys\<lparr>coord := co, handles :=
           AList.update (subscriber_id h) \<lparr>subscription = h, request = None\<rparr> (handles sys)\<rparr>))"
| "step ops (OpenMany gs) sys =
     (let ((i, gids), reg) = begin_merge gs (inner (coord sys))
      in Some (on_inner (\<lambda>_. reg) sys\<lparr>setups :=
           AList.update i \<lparr>op_gids = gids, op_groups = gs, op_backlog = None\<rparr> (setups sys)\<rparr>))"
| "step ops (OpenFetch i) sys =
     (case map_of (setups sys) i of
        None \<Rightarrow> None
      | Some w \<Rightarrow>
          if op_backlog w \<noteq> None then None
          else case on_storage (so_fetch_many_group_messages ops (op_groups w)) (coord sys) of
                 (Inl e, co) \<Rightarrow> Some (sys\<lparr>coord := drop_subscriber i (op_gids w) co,
                                         setups := AList.delete i (setups sys)\<rparr>)
               | (Inr ms, co) \<Rightarrow> Some (sys\<lparr>coord := co,
                   setups := AList.update i (w\<lparr>op_backlog := Some ms\<rparr>) (setups sys)\<rparr>))"
| "step ops (OpenFinish i) sys =
     (case map_of (setups sys) i of
        None \<Rightarrow> None
      | Some w \<Rightarrow>
          (case op_backlog w of
             None \<Rightarrow> None
           | Some ms \<Rightarrow> Some (on_inner (finish_merge i ms) sys
               \<lparr>setups := AList.delete i (setups sys),
                handles := AList.update i \<lparr>subscription = \<lparr>received = 0, subscriber_id = i,
                    group_ids = op_gids w, unsubscribed = False\<rparr>, request = Some (op_groups w)\<rparr>
                  (handles sys)\<rparr>)))"
| "step ops (Unsubscribe i) sys =
     (case map_of (handles sys) i of
        None \<Rightarrow> None
      | Some h \<Rightarrow>
          let (s, co) = unsubscribe (subscription h) (coord sys)
          in Some (sys\<lparr>coord := co, handles := AList.update i (h\<lparr>subscription := s\<rparr>) (handles sys)\<rparr>))"
| "step ops (StorageCall c) sys =
     (if is_append c then None
      else Some (sys\<lparr>coord := snd (on_storage (exec ops c) (coord sys))\<rparr>))"

fun run_events :: "('s, 'j) CoordinatorStorage \<Rightarrow> 'j event list \<Rightarrow> 's system \<Rightarrow> 's system option" where
  "run_events ops [] sys = Some sys"
| "run_events ops (ev # evs) sys =
     (case step ops ev sys of None \<Rightarrow> None | Some sys' \<Rightarrow> run_events ops evs sys')"

definition system_new :: "'s Coordinator \<Rightarrow> 's system" where
  "system_new co = \<lparr>coord = co, in_flight = [], setups = [], handles = []\<rparr>"

text \<open>Interleavings in which a post starts only when no other post is under way.\<close>

fun posts_serialized :: "('s, 'j) CoordinatorStorage \<Rightarrow> 'j event list \<Rightarrow> 's system \<Rightarrow> bool" where
  "posts_serialized ops [] sys = True"
| "posts_serialized ops (ev # evs) sys =
     ((case ev of PostAppend now input \<Rightarrow> in_flight sys = [] | _ \<Rightarrow> True) \<and>
      (case step ops ev sys of None \<Rightarrow> True | Some sys' \<Rightarrow> posts_serialized ops evs sys'))"

text \<open>The storage calls an interleaving makes, as far as they need room.\<close>

fun event_calls :: "'j event \<Rightarrow> 'j call list" where
  "event_calls (PostAppend now input) = [AppendGroupMessage (append_params now input)]"
| "event_calls (StorageCall c) = [c]"
| "event_calls ev = []"

text \<open>Run alone, the sections of an operation compose to the operation.\<close>

lemma post_sections:
  assumes "in_flight sys = []"
  shows "post_group_message ops now input (coord sys) = (Inr m, co) \<Longrightarrow>
      run_events ops [PostAppend now input, PostPublish 0] sys = Some (sys\<lparr>coord := co\<rparr>)"
    and "post_group_message ops now input (coord sys) = (Inl e, co) \<Longrightarrow>
      run_events ops [PostAppend now input] sys = Some (sys\<lparr>coord := co\<rparr>)"
  using assms
  by (auto simp: post_group_message_def append_params_def on_inner_def vec_remove_def split: prod.splits sum.splits)

lemma subscribe_many_sections:
  assumes "subscribe_many_group_messages ops gs (coord sys) = (r, co)"
  shows "\<exists>evs sys'. run_events ops evs sys = Some sys' \<and> coord sys' = co"
proof -
  obtain i gids reg where bm: "begin_merge gs (inner (coord sys)) = ((i, gids), reg)"
    by (metis prod.collapse)
  obtain x co1 where f: "on_storage (so_fetch_many_group_messages ops gs) ((coord sys)\<lparr>inner := reg\<rparr>) = (x, co1)"
    by force
  show ?thesis
  proof (cases x)
    case (Inl e)
    with assms bm f have "coord (the (run_events ops [OpenMany gs, OpenFetch i] sys)) = co"
      "run_events ops [OpenMany gs, OpenFetch i] sys \<noteq> None"
      by (auto simp: subscribe_many_group_messages_def on_inner_def map_of_update)
    then show ?thesis by (metis option.exhaust_sel)
  next
    case (Inr ms)
    with assms bm f have "coord (the (run_events ops [OpenMany gs, OpenFetch i, OpenFinish i] sys)) = co"
      "run_events ops [OpenMany gs, OpenFetch i, OpenFinish i] sys \<noteq> None"
      by (auto simp: subscribe_many_group_messages_def on_inner_def map_of_update)
    then show ?thesis by (metis option.exhaust_sel)
  qed
qed

section \<open>Registrations\<close>

text \<open>The groups a subscriber id is entered under, from the operations and handles that own it.\<close>

definition owned :: "'s system \<Rightarrow> nat \<Rightarrow> string list option" where
  "owned sys i =
     (case map_of (setups sys) i of
        Some w \<Rightarrow> Some (op_gids w)
      | None \<Rightarrow>
          (case map_of (handles sys) i of
             None \<Rightarrow> None
           | Some h \<Rightarrow> if unsubscribed (subscription h) then None else Some (group_ids (subscription h))))"

fun entry_ok :: "SubscriberRegistry \<Rightarrow> nat \<Rightarrow> string list option \<Rightarrow> bool" where
  "entry_ok reg i None \<longleftrightarrow> map_of (subscribers reg) i = None \<and> groups_of reg i = {}"
| "entry_ok reg i (Some gids) \<longleftrightarrow> map_of (subscribers reg) i \<noteq> None \<and> distinct gids \<and>
     groups_of reg i = set gids"

definition owners_ok :: "'s system \<Rightarrow> bool" where
  "owners_ok sys \<longleftrightarrow> reg_ok (inner (coord sys)) \<and>
     (\<forall>i. entry_ok (inner (coord sys)) i (owned sys i)) \<and>
     (\<forall>i. map_of (setups sys) i \<noteq> None \<longrightarrow> map_of (handles sys) i = None) \<and>
     (\<forall>i h. map_of (handles sys) i = Some h \<longrightarrow> subscriber_id (subscription h) = i) \<and>
     (\<forall>i. next_id (inner (coord sys)) \<le> i \<longrightarrow> map_of (setups sys) i = None \<and> map_of (handles sys) i = None)"

lemma on_storageD:
  "on_storage m co = (r, co') \<Longrightarrow> r = fst (m (storage co)) \<and> co' = co\<lparr>storage := snd (m (storage co))\<rparr>"
  by (auto simp: on_storage_def split: prod.splits)

lemma owned_coord [simp]:
  "owned (sys\<lparr>coord := co\<rparr>) i = owned sys i" "owned (sys\<lparr>in_flight := ms\<rparr>) i = owned sys i"
  by (simp_all add: owned_def split: option.split)

lemma owners_ok_coord:
  assumes "owners_ok sys" "reg_ok (inner co)" "groups_of (inner co) = groups_of (inner (coord sys))"
    "next_id (inner co) = next_id (inner (coord sys))"
    "\<And>i. (map_of (subscribers (inner co)) i = None) = (map_of (subscribers (inner (coord sys))) i = None)"
  shows "owners_ok (sys\<lparr>coord := co\<rparr>)"
proof -
  have "entry_ok (inner co) i (owned sys i)" for i
    using assms unfolding owners_ok_def by (cases "owned sys i") (auto dest!: spec [of _ i])
  with assms show ?thesis by (simp add: owners_ok_def)
qed

lemma owners_ok_in_flight [simp]: "owners_ok (sys\<lparr>in_flight := ms\<rparr>) = owners_ok sys"
  by (simp add: owners_ok_def)

lemma owned_unique:
  assumes "owners_ok sys"
  shows "next_id (inner (coord sys)) \<le> i \<Longrightarrow> owned sys i = None"
  using assms by (simp add: owners_ok_def owned_def)

lemma keys_cursors_loop: "distinct (map fst cs) \<Longrightarrow> distinct (map fst (cursors_loop gs cs))"
  by (induction gs arbitrary: cs) (simp_all add: distinct_update)

lemma begin_merge_ok:
  assumes "reg_ok reg" "begin_merge gs reg = ((i, gids), reg')"
  shows "i = next_id reg" "reg_ok reg'" "next_id reg' = next_id reg + 1" "distinct gids"
    "groups_of reg' j = (if j = i then set gids else groups_of reg j)"
    "subscribers reg' = AList.update i (merging (cursors_loop gs [])) (subscribers reg)"
    "gids = map fst (cursors_loop gs [])"
proof -
  have d: "distinct (map fst (cursors_loop gs []))" by (simp add: keys_cursors_loop)
  have r: "register_many (map fst (cursors_loop gs [])) (merging (cursors_loop gs [])) reg = (i, reg')"
    and g: "gids = map fst (cursors_loop gs [])"
    using assms(2) by (auto simp: begin_merge_def Let_def split: prod.splits)
  note ok = register_many_ok [OF assms(1) d r]
  from ok g d show "i = next_id reg" "reg_ok reg'" "next_id reg' = next_id reg + 1" "distinct gids"
    "groups_of reg' j = (if j = i then set gids else groups_of reg j)"
    "subscribers reg' = AList.update i (merging (cursors_loop gs [])) (subscribers reg)"
    "gids = map fst (cursors_loop gs [])" by simp_all
qed

lemma subscribe_one_ok:
  assumes "reg_ok (inner co)" "subscribe_group_messages g co = (h, co')"
  shows "h = \<lparr>received = 0, subscriber_id = next_id (inner co), group_ids = [g], unsubscribed = False\<rparr>"
    "reg_ok (inner co')" "next_id (inner co') = next_id (inner co) + 1"
    "groups_of (inner co') j = (if j = next_id (inner co) then {g} else groups_of (inner co) j)"
    "subscribers (inner co') = AList.update (next_id (inner co)) live_tail (subscribers (inner co))"
    "co' = co\<lparr>inner := inner co'\<rparr>"
proof -
  obtain i reg where r: "register_many [g] live_tail (inner co) = (i, reg)" by force
  then have eq: "h = \<lparr>received = 0, subscriber_id = i, group_ids = [g], unsubscribed = False\<rparr>"
    "co' = co\<lparr>inner := reg\<rparr>"
    using assms(2) by (auto simp: subscribe_group_messages_def register_subscriber_many Let_def split: prod.splits)
  from register_many_ok [OF assms(1) _ r] eq show
    "h = \<lparr>received = 0, subscriber_id = next_id (inner co), group_ids = [g], unsubscribed = False\<rparr>"
    "reg_ok (inner co')" "next_id (inner co') = next_id (inner co) + 1"
    "groups_of (inner co') j = (if j = next_id (inner co) then {g} else groups_of (inner co) j)"
    "subscribers (inner co') = AList.update (next_id (inner co)) live_tail (subscribers (inner co))"
    "co' = co\<lparr>inner := inner co'\<rparr>" by simp_all
qed

lemma drop_subscriber_ok:
  assumes "reg_ok (inner co)" "distinct gids" "set gids = groups_of (inner co) i"
  shows "reg_ok (inner (drop_subscriber i gids co))"
    "groups_of (inner (drop_subscriber i gids co)) j = (if j = i then {} else groups_of (inner co) j)"
    "map_of (subscribers (inner (drop_subscriber i gids co))) j =
       (if j = i then None else map_of (subscribers (inner co)) j)"
    "next_id (inner (drop_subscriber i gids co)) = next_id (inner co)"
    "storage (drop_subscriber i gids co) = storage co"
  using remove_subscriber_ok [OF assms]
  by (simp_all add: drop_subscriber_def Let_def map_of_delete)

text \<open>One law per event: whose registration it adds, keeps or ends.\<close>

lemma owners_ok_add:
  assumes ok: "owners_ok sys" and i: "i = next_id (inner (coord sys))"
    and reg: "reg_ok (inner (coord sys'))" "next_id (inner (coord sys')) = i + 1"
      "\<And>j. groups_of (inner (coord sys')) j = (if j = i then set gids else groups_of (inner (coord sys)) j)"
      "subscribers (inner (coord sys')) = AList.update i sub (subscribers (inner (coord sys)))" "distinct gids"
    and own: "\<And>j. j \<noteq> i \<Longrightarrow> map_of (setups sys') j = map_of (setups sys) j \<and> map_of (handles sys') j = map_of (handles sys) j"
      "owned sys' i = Some gids" "map_of (setups sys') i \<noteq> None \<longrightarrow> map_of (handles sys') i = None"
      "\<And>h. map_of (handles sys') i = Some h \<Longrightarrow> subscriber_id (subscription h) = i"
  shows "owners_ok sys'"
proof -
  have same: "owned sys' j = owned sys j" if "j \<noteq> i" for j using own(1) [OF that] by (simp add: owned_def split: option.split)
  have "entry_ok (inner (coord sys')) j (owned sys' j)" for j
  proof (cases "j = i")
    case False
    have "entry_ok (inner (coord sys)) j (owned sys j)" using ok by (simp add: owners_ok_def)
    with False show ?thesis using reg same by (cases "owned sys j") (simp_all add: map_of_update)
  qed (simp add: reg own(2) map_of_update)
  moreover have "map_of (setups sys') j \<noteq> None \<longrightarrow> map_of (handles sys') j = None"
    "map_of (handles sys') j = Some h \<longrightarrow> subscriber_id (subscription h) = j"
    "i + 1 \<le> j \<longrightarrow> map_of (setups sys') j = None \<and> map_of (handles sys') j = None" for j h
    using ok own(1) [of j] own(3,4) i by (cases "j = i"; auto simp: owners_ok_def)+
  ultimately show ?thesis using reg by (auto simp: owners_ok_def)
qed

lemma owners_ok_drop:
  assumes ok: "owners_ok sys" and i: "owned sys i = Some gids"
    and reg: "inner (coord sys') = inner (drop_subscriber i gids co)" "inner co = inner (coord sys)"
    and own: "\<And>j. j \<noteq> i \<Longrightarrow> map_of (setups sys') j = map_of (setups sys) j \<and> map_of (handles sys') j = map_of (handles sys) j"
      "owned sys' i = None" "map_of (setups sys') i = None"
      "\<And>h. map_of (handles sys') i = Some h \<Longrightarrow> subscriber_id (subscription h) = i"
  shows "owners_ok sys'"
proof -
  have r: "reg_ok (inner co)" "distinct gids" "set gids = groups_of (inner co) i" "i < next_id (inner co)"
  proof -
    have "entry_ok (inner co) i (Some gids)" using ok i reg(2) by (metis owners_ok_def)
    then show "distinct gids" "set gids = groups_of (inner co) i" by simp_all
    show "reg_ok (inner co)" using ok reg(2) by (simp add: owners_ok_def)
    show "i < next_id (inner co)" using owned_unique [OF ok, of i] i reg(2) by (force simp: not_le [symmetric])
  qed
  note dr = drop_subscriber_ok [OF r(1-3)]
  have same: "owned sys' j = owned sys j" if "j \<noteq> i" for j using own(1) [OF that] by (simp add: owned_def split: option.split)
  have "entry_ok (inner (coord sys')) j (owned sys' j)" for j
  proof (cases "j = i")
    case False
    have "entry_ok (inner (coord sys)) j (owned sys j)" using ok by (simp add: owners_ok_def)
    with False show ?thesis using reg dr same by (cases "owned sys j") simp_all
  qed (simp add: reg dr own(2))
  moreover have "map_of (setups sys') j \<noteq> None \<longrightarrow> map_of (handles sys') j = None"
    "map_of (handles sys') j = Some h \<longrightarrow> subscriber_id (subscription h) = j"
    "next_id (inner (coord sys)) \<le> j \<longrightarrow> map_of (setups sys') j = None \<and> map_of (handles sys') j = None" for j h
    using ok own(1) [of j] own(3,4) r(4) reg(2) by (cases "j = i"; auto simp: owners_ok_def)+
  ultimately show ?thesis using reg dr by (auto simp: owners_ok_def)
qed

lemma owners_ok_finish:
  assumes ok: "owners_ok sys" and i: "map_of (setups sys) i = Some w"
  shows "owners_ok (on_inner (finish_merge i ms) sys
    \<lparr>setups := AList.delete i (setups sys),
     handles := AList.update i \<lparr>subscription = \<lparr>received = 0, subscriber_id = i,
         group_ids = op_gids w, unsubscribed = False\<rparr>, request = rq\<rparr> (handles sys)\<rparr>)"
    (is "owners_ok ?s")
proof -
  have reg: "reg_ok (inner (coord sys))" using ok by (simp add: owners_ok_def)
  note fm = finish_merge_ok [OF reg, of i ms]
  have h: "map_of (handles sys) i = None" "i < next_id (inner (coord sys))"
    using ok i by (auto simp: owners_ok_def not_le [symmetric])
  have "owned ?s j = owned sys j" for j
    using i h by (auto simp: owned_def on_inner_def map_of_delete map_of_update split: option.split)
  moreover have "entry_ok (inner (coord ?s)) j (owned sys j)" for j
    using ok fm unfolding owners_ok_def by (cases "owned sys j") (auto simp: on_inner_def dest!: spec [of _ j])
  ultimately have "\<forall>j. entry_ok (inner (coord ?s)) j (owned ?s j)" by simp
  then show ?thesis
    using ok fm h by (auto simp: owners_ok_def on_inner_def map_of_delete map_of_update split: if_splits)
qed

lemma owners_ok_step:
  assumes "owners_ok sys" "step ops ev sys = Some sys'"
  shows "owners_ok sys'"
proof (cases ev)
  case (PostAppend now input)
  then show ?thesis using assms
    by (auto split: prod.splits sum.splits dest!: on_storageD intro!: owners_ok_coord simp: owners_ok_def)
next
  case (PostPublish n)
  have "reg_ok (inner (coord sys))" using assms(1) by (simp add: owners_ok_def)
  note pl = publish_live_ok [OF this] publish_live_lookup [OF this]
  show ?thesis
    using assms PostPublish
    by (auto simp: on_inner_def pl split: if_splits intro!: owners_ok_coord)
next
  case (SubscribeOne g)
  obtain h co where s: "subscribe_group_messages g (coord sys) = (h, co)" by force
  have reg: "reg_ok (inner (coord sys))" using assms(1) by (simp add: owners_ok_def)
  note so = subscribe_one_ok [OF reg s]
  have free: "map_of (setups sys) (next_id (inner (coord sys))) = None" using assms(1) by (simp add: owners_ok_def)
  from assms s SubscribeOne have sys': "sys' = sys\<lparr>coord := co, handles :=
      AList.update (next_id (inner (coord sys))) \<lparr>subscription = h, request = None\<rparr> (handles sys)\<rparr>"
    by (auto simp: so(1))
  show ?thesis
    by (rule owners_ok_add [OF assms(1) refl, where gids = "[g]" and sub = live_tail])
      (use free so in \<open>auto simp: sys' owned_def map_of_update\<close>)
next
  case (OpenMany gs)
  obtain i gids reg where s: "begin_merge gs (inner (coord sys)) = ((i, gids), reg)" by (metis prod.collapse)
  have rk: "reg_ok (inner (coord sys))" using assms(1) by (simp add: owners_ok_def)
  note bm = begin_merge_ok [OF rk s]
  have free: "map_of (handles sys) i = None" using assms(1) bm(1) by (simp add: owners_ok_def)
  from assms s OpenMany have sys': "sys' = on_inner (\<lambda>_. reg) sys\<lparr>setups :=
      AList.update i \<lparr>op_gids = gids, op_groups = gs, op_backlog = None\<rparr> (setups sys)\<rparr>" by auto
  show ?thesis
    by (rule owners_ok_add [OF assms(1) bm(1), where gids = gids and sub = "merging (cursors_loop gs [])"])
      (use free bm in \<open>auto simp: sys' owned_def map_of_update on_inner_def\<close>)
next
  case (OpenFetch i)
  with assms(2) obtain w where w: "map_of (setups sys) i = Some w" by (auto split: option.splits)
  obtain r co where f: "on_storage (so_fetch_many_group_messages ops (op_groups w)) (coord sys) = (r, co)" by force
  then have inn: "inner co = inner (coord sys)" by (auto dest: on_storageD)
  have h: "map_of (handles sys) i = None" using assms(1) w by (auto simp: owners_ok_def)
  show ?thesis
  proof (cases r)
    case (Inl e)
    with assms(2) OpenFetch w f have sys': "sys' = sys\<lparr>coord := drop_subscriber i (op_gids w) co,
        setups := AList.delete i (setups sys)\<rparr>" by (auto split: if_splits)
    show ?thesis
      by (rule owners_ok_drop [OF assms(1), where i = i and gids = "op_gids w" and co = co])
        (use w h inn in \<open>auto simp: sys' owned_def map_of_delete\<close>)
  next
    case (Inr ms)
    with assms(2) OpenFetch w f have sys': "sys' = sys\<lparr>coord := co,
        setups := AList.update i (w\<lparr>op_backlog := Some ms\<rparr>) (setups sys)\<rparr>" by (auto split: if_splits)
    have "owned sys' j = owned sys j" for j
      using w by (auto simp: sys' owned_def map_of_update split: option.split)
    with assms(1) inn w show ?thesis by (auto simp: owners_ok_def sys' map_of_update)
  qed
next
  case (OpenFinish i)
  with assms show ?thesis by (auto split: option.splits intro: owners_ok_finish)
next
  case (Unsubscribe i)
  with assms(2) obtain h where h: "map_of (handles sys) i = Some h" by (auto split: option.splits)
  have hid: "subscriber_id (subscription h) = i" "map_of (setups sys) i = None"
    using assms(1) h by (auto simp: owners_ok_def)
  show ?thesis
  proof (cases "unsubscribed (subscription h)")
    case True
    with assms(2) Unsubscribe h have sys': "sys' = sys\<lparr>handles := AList.update i h (handles sys)\<rparr>"
      by (auto simp: unsubscribe_def)
    have "map_of (AList.update i h (handles sys)) j = map_of (handles sys) j" for j
      using h by (simp add: map_of_update)
    with assms(1) show ?thesis by (simp add: sys' owners_ok_def owned_def cong: option.case_cong)
  next
    case False
    with assms(2) Unsubscribe h hid have sys': "sys' = sys\<lparr>coord := drop_subscriber i (group_ids (subscription h)) (coord sys),
        handles := AList.update i (h\<lparr>subscription := (subscription h)\<lparr>unsubscribed := True\<rparr>\<rparr>) (handles sys)\<rparr>"
      by (auto simp: unsubscribe_def)
    show ?thesis
      by (rule owners_ok_drop [OF assms(1), where i = i and gids = "group_ids (subscription h)" and co = "coord sys"])
        (use False h hid in \<open>auto simp: sys' owned_def map_of_update\<close>)
  qed
next
  case (StorageCall c)
  obtain r co where "on_storage (exec ops c) (coord sys) = (r, co)" by force
  with assms StorageCall show ?thesis
    by (auto dest!: on_storageD intro!: owners_ok_coord simp: owners_ok_def split: if_splits)
qed

lemma owners_ok_new: "inner co = SubscriberRegistry_new \<Longrightarrow> owners_ok (system_new co)"
  by (simp add: owners_ok_def system_new_def owned_def reg_ok_new)
    (simp add: SubscriberRegistry_new_def groups_of_def members_def)

lemma owners_ok_run: "owners_ok sys \<Longrightarrow> run_events ops evs sys = Some sys' \<Longrightarrow> owners_ok sys'"
  by (induction evs arbitrary: sys) (auto split: option.splits intro: owners_ok_step)

lemma map_of_all_None: "(\<And>k. map_of m k = None) \<Longrightarrow> m = []"
  using map_of_eq_empty_iff [of m] by blast

text \<open>With every owner gone, the registry is empty.\<close>

lemma owners_ok_empty:
  assumes "owners_ok sys" "\<And>i. owned sys i = None"
  shows "subscribers (inner (coord sys)) = []" "group_subscribers (inner (coord sys)) = []"
    "refcounts (inner (coord sys)) = []"
proof -
  let ?reg = "inner (coord sys)"
  have e: "map_of (subscribers ?reg) i = None" "groups_of ?reg i = {}" for i
    using assms unfolding owners_ok_def by (metis entry_ok.simps(1))+
  have ok: "refs_ok ?reg" using assms(1) by (simp add: owners_ok_def reg_ok_def)
  show "subscribers ?reg = []" using e(1) by (rule map_of_all_None)
  show "refcounts ?reg = []" using ok e(2) by (intro map_of_all_None) (simp add: refs_ok_def)
  show "group_subscribers ?reg = []"
  proof (rule map_of_all_None, rule ccontr)
    fix g assume "map_of (group_subscribers ?reg) g \<noteq> None"
    then obtain ids where ids: "map_of (group_subscribers ?reg) g = Some ids" by blast
    with ok have "ids \<noteq> []" by (auto simp: refs_ok_def dest: multimap_ok_keys)
    then obtain i where "i \<in> set (members ?reg g)"
      using ids by (cases ids) (auto simp: members_def get_or_default_def)
    with e(2) [of i] show False by (auto simp: groups_of_def)
  qed
qed

section \<open>What every interleaving guarantees\<close>

abbreviation subscriber :: "'s system \<Rightarrow> nat \<Rightarrow> Subscriber option" where
  "subscriber sys i \<equiv> map_of (subscribers (inner (coord sys))) i"

text \<open>How one event changes a subscriber: not at all, by a push, by finishing its setup, or anew.\<close>

lemma step_subscriber:
  assumes own: "owners_ok sys" and st: "step ops ev sys = Some sys'" and s: "subscriber sys' i = Some sub'"
  obtains (kept) "subscriber sys i = Some sub'"
  | (pushed) m sub where "subscriber sys i = Some sub" "sub' = push m sub"
  | (finished) b sub where "subscriber sys i = Some sub" "sub' = finish_buffering (replay_backlog b sub)"
  | (tail) "sub' = live_tail"
  | (merge) cs where "sub' = merging cs"
proof -
  have reg: "reg_ok (inner (coord sys))" and ent: "entry_ok (inner (coord sys)) j (owned sys j)" for j
    using own by (simp_all add: owners_ok_def)
  have drop: "subscriber sys' i = Some sub' \<Longrightarrow> subscriber sys i = Some sub'"
    if "coord sys' = drop_subscriber j gids co" "owned sys j = Some gids" "inner co = inner (coord sys)" for j gids co
    using drop_subscriber_ok(3) [of co gids j i] that reg ent [of j] by (auto split: if_splits)
  show thesis
  proof (cases ev)
    case (PostAppend now input)
    with st s show ?thesis by (auto split: prod.splits sum.splits dest!: on_storageD intro: kept)
  next
    case (PostPublish n)
    with st s publish_live_lookup [OF reg, of "in_flight sys ! n" i] show ?thesis
      by (auto simp: on_inner_def split: if_splits intro: kept pushed)
  next
    case (SubscribeOne g)
    obtain h co where so: "subscribe_group_messages g (coord sys) = (h, co)" by force
    with st s SubscribeOne show ?thesis
      by (auto simp: subscribe_one_ok(5) [OF reg so] map_of_update split: if_splits intro: kept tail)
  next
    case (OpenMany gs)
    obtain j gids reg' where b: "begin_merge gs (inner (coord sys)) = ((j, gids), reg')" by (metis prod.collapse)
    with st s OpenMany show ?thesis
      by (auto simp: begin_merge_ok(6) [OF reg b] on_inner_def map_of_update split: if_splits intro: kept merge)
  next
    case (OpenFetch j)
    with st obtain w where w: "map_of (setups sys) j = Some w" "op_backlog w = None"
      by (auto split: option.splits if_splits)
    obtain r co where f: "on_storage (so_fetch_many_group_messages ops (op_groups w)) (coord sys) = (r, co)" by force
    then have inn: "inner co = inner (coord sys)" by (auto dest: on_storageD)
    show ?thesis
    proof (cases r)
      case (Inl e)
      with st OpenFetch w f have "coord sys' = drop_subscriber j (op_gids w) co" by auto
      from drop [OF this _ inn s] w show ?thesis by (auto simp: owned_def intro: kept)
    next
      case (Inr ms)
      with st OpenFetch w f s inn show ?thesis by (auto intro: kept)
    qed
  next
    case (OpenFinish j)
    with st obtain w b where w: "map_of (setups sys) j = Some w" "op_backlog w = Some b"
      by (auto split: option.splits)
    with st s OpenFinish finish_merge_ok(4) [OF reg, of j b i] show ?thesis
      by (auto simp: on_inner_def split: if_splits intro: kept finished)
  next
    case (Unsubscribe j)
    with st obtain h where h: "map_of (handles sys) j = Some h" by (auto split: option.splits)
    have hid: "subscriber_id (subscription h) = j" "map_of (setups sys) j = None"
      using own h by (auto simp: owners_ok_def)
    show ?thesis
    proof (cases "unsubscribed (subscription h)")
      case True
      with st s Unsubscribe h show ?thesis by (auto simp: unsubscribe_def intro: kept)
    next
      case False
      with st Unsubscribe h hid have "coord sys' = drop_subscriber j (group_ids (subscription h)) (coord sys)"
        by (auto simp: unsubscribe_def)
      from drop [OF this _ refl s] False h hid show ?thesis by (auto simp: owned_def intro: kept)
    qed
  next
    case (StorageCall c)
    obtain r co where "on_storage (exec ops c) (coord sys) = (r, co)" by force
    with st s StorageCall show ?thesis by (auto dest!: on_storageD intro: kept split: if_splits)
  qed
qed

lemma delivery_ok_start: "delivery_ok live_tail" "delivery_ok (merging cs)"
  by (simp_all add: delivery_ok_def live_tail_def merging_def)

lemma delivery_ok_step:
  assumes "owners_ok sys" "\<And>i sub. subscriber sys i = Some sub \<Longrightarrow> delivery_ok sub"
    "step ops ev sys = Some sys'" "subscriber sys' i = Some sub'"
  shows "delivery_ok sub'"
  using assms(1,3,4)
proof (cases rule: step_subscriber)
qed (auto simp: delivery_ok_start intro: assms(2) delivery_ok_push delivery_ok_finish delivery_ok_replay)

lemma delivery_ok_run:
  assumes "owners_ok sys" "\<And>i sub. subscriber sys i = Some sub \<Longrightarrow> delivery_ok sub"
    "run_events ops evs sys = Some sys'" "subscriber sys' i = Some sub'"
  shows "delivery_ok sub'"
  using assms
proof (induction evs arbitrary: sys)
  case (Cons ev evs)
  then obtain sys1 where s1: "step ops ev sys = Some sys1" "run_events ops evs sys1 = Some sys'"
    by (auto split: option.splits)
  show ?case
    by (rule Cons.IH [OF owners_ok_step [OF Cons.prems(1) s1(1)] _ s1(2) Cons.prems(4)])
      (rule delivery_ok_step [OF Cons.prems(1,2) s1(1)])
qed simp

text \<open>The records an interleaving fans out, in the order it does.\<close>

fun published_in :: "('s, 'j) CoordinatorStorage \<Rightarrow> 'j event list \<Rightarrow> 's system \<Rightarrow> GroupMessageRecord list" where
  "published_in ops [] sys = []"
| "published_in ops (ev # evs) sys =
     (case step ops ev sys of
        None \<Rightarrow> []
      | Some sys' \<Rightarrow>
          (case ev of PostPublish n \<Rightarrow> [in_flight sys ! n] | _ \<Rightarrow> []) @ published_in ops evs sys')"

text \<open>What a step does to a subscription that is open: nothing, but for the record it may fan out.\<close>

lemma open_handle_step:
  assumes own: "owners_ok sys" and h: "map_of (handles sys) i = Some h" "\<not> unsubscribed (subscription h)"
    and st: "step ops ev sys = Some sys'" and ev: "ev \<noteq> Unsubscribe i"
  shows "map_of (handles sys') i = Some h \<and> subscriber sys' i = (case ev of
      PostPublish n \<Rightarrow> map_option (if gm_group_id (in_flight sys ! n) \<in> set (group_ids (subscription h))
        then push (in_flight sys ! n) else id) (subscriber sys i)
    | _ \<Rightarrow> subscriber sys i)"
proof -
  have reg: "reg_ok (inner (coord sys))" and su: "map_of (setups sys) i = None" and lt: "i < next_id (inner (coord sys))"
    using own h by (auto simp: owners_ok_def not_le [symmetric])
  have ent: "entry_ok (inner (coord sys)) j (owned sys j)" for j using own by (simp add: owners_ok_def)
  have grp: "groups_of (inner (coord sys)) i = set (group_ids (subscription h))"
    using ent [of i] h su by (simp add: owned_def)
  have drop: "subscriber sys' i = subscriber sys i"
    if "coord sys' = drop_subscriber j gids co" "owned sys j = Some gids" "inner co = inner (coord sys)" "j \<noteq> i" for j gids co
    using drop_subscriber_ok(3) [of co gids j i] that reg ent [of j] by auto
  have keep: ?thesis if "map_of (handles sys') i = Some h" "subscriber sys' i = subscriber sys i" "\<And>n. ev \<noteq> PostPublish n"
    using that by (cases ev) auto
  show ?thesis
  proof (cases ev)
    case (PostPublish n)
    with st h grp publish_live_lookup [OF reg, of "in_flight sys ! n" i] show ?thesis
      by (auto simp: on_inner_def split: if_splits)
  next
    case (PostAppend now input)
    with st h show ?thesis by (intro keep) (auto split: prod.splits sum.splits dest!: on_storageD)
  next
    case (SubscribeOne g')
    obtain k co where so: "subscribe_group_messages g' (coord sys) = (k, co)" by force
    with st h lt SubscribeOne show ?thesis
      by (intro keep) (auto simp: subscribe_one_ok(1,5) [OF reg so] map_of_update)
  next
    case (OpenMany gs)
    obtain j gids reg' where b: "begin_merge gs (inner (coord sys)) = ((j, gids), reg')" by (metis prod.collapse)
    have "j = next_id (inner (coord sys))" by (rule begin_merge_ok(1) [OF reg b])
    with b st h lt OpenMany show ?thesis
      by (intro keep) (auto simp: begin_merge_ok(6) [OF reg b] on_inner_def map_of_update)
  next
    case (OpenFetch j)
    with st obtain w where w: "map_of (setups sys) j = Some w" "op_backlog w = None"
      by (auto split: option.splits if_splits)
    with su have ji: "j \<noteq> i" by auto
    obtain r co where f: "on_storage (so_fetch_many_group_messages ops (op_groups w)) (coord sys) = (r, co)" by force
    then have inn: "inner co = inner (coord sys)" by (auto dest: on_storageD)
    show ?thesis
    proof (cases r)
      case (Inl e)
      with st OpenFetch w f have sys': "sys' = sys\<lparr>coord := drop_subscriber j (op_gids w) co,
          setups := AList.delete j (setups sys)\<rparr>" by auto
      then have "subscriber sys' i = subscriber sys i" using w inn ji by (intro drop [of j "op_gids w" co]) (auto simp: owned_def)
      with sys' h OpenFetch show ?thesis by (intro keep) auto
    next
      case (Inr ms)
      with st OpenFetch w f h inn show ?thesis by (intro keep) auto
    qed
  next
    case (OpenFinish j)
    with st obtain w b where w: "map_of (setups sys) j = Some w" "op_backlog w = Some b"
      by (auto split: option.splits)
    with su have "j \<noteq> i" by auto
    with st w h OpenFinish finish_merge_ok(4) [OF reg, of j b i] show ?thesis
      by (intro keep) (auto simp: on_inner_def map_of_update option.map_id)
  next
    case (Unsubscribe j)
    with st obtain k where k: "map_of (handles sys) j = Some k" by (auto split: option.splits)
    have kid: "subscriber_id (subscription k) = j" "map_of (setups sys) j = None" "j \<noteq> i"
      using own k ev Unsubscribe by (auto simp: owners_ok_def)
    show ?thesis
    proof (cases "unsubscribed (subscription k)")
      case True
      with st h kid Unsubscribe k show ?thesis by (intro keep) (auto simp: unsubscribe_def map_of_update)
    next
      case False
      with st Unsubscribe k kid have sys': "sys' = sys\<lparr>coord := drop_subscriber j (group_ids (subscription k)) (coord sys),
          handles := AList.update j (k\<lparr>subscription := (subscription k)\<lparr>unsubscribed := True\<rparr>\<rparr>) (handles sys)\<rparr>"
        by (auto simp: unsubscribe_def)
      then have "subscriber sys' i = subscriber sys i" using False k kid by (intro drop) (auto simp: owned_def)
      with sys' h kid Unsubscribe show ?thesis by (intro keep) (auto simp: map_of_update)
    qed
  next
    case (StorageCall c)
    obtain r co where "on_storage (exec ops c) (coord sys) = (r, co)" by force
    with st h StorageCall show ?thesis by (intro keep) (auto dest!: on_storageD split: if_splits)
  qed
qed

definition tail_at :: "'s system \<Rightarrow> nat \<Rightarrow> string \<Rightarrow> GroupMessageRecord list \<Rightarrow> bool" where
  "tail_at sys i g sent \<longleftrightarrow>
     (\<exists>h. map_of (handles sys) i = Some h \<and> \<not> unsubscribed (subscription h) \<and> group_ids (subscription h) = [g]) \<and>
     (\<exists>sub. subscriber sys i = Some sub \<and> \<not> dedup sub \<and> \<not> buffering sub \<and> sender sub = sent)"

lemma tail_at_step:
  assumes "owners_ok sys" "tail_at sys i g sent" "step ops ev sys = Some sys'" "ev \<noteq> Unsubscribe i"
  shows "tail_at sys' i g (sent @ filter (\<lambda>m. gm_group_id m = g)
    (case ev of PostPublish n \<Rightarrow> [in_flight sys ! n] | _ \<Rightarrow> []))"
proof -
  from assms(2) obtain h where h: "map_of (handles sys) i = Some h" "\<not> unsubscribed (subscription h)"
    "group_ids (subscription h) = [g]" unfolding tail_at_def by blast
  from open_handle_step [OF assms(1) h(1,2) assms(3,4)] assms(2) h show ?thesis
    by (cases ev) (auto simp: tail_at_def push_def emit_direct split: if_splits)
qed

lemma tail_at_run:
  assumes "owners_ok sys" "tail_at sys i g sent" "run_events ops evs sys = Some sys'" "Unsubscribe i \<notin> set evs"
  shows "tail_at sys' i g (sent @ filter (\<lambda>m. gm_group_id m = g) (published_in ops evs sys))"
  using assms
proof (induction evs arbitrary: sys sent)
  case (Cons ev evs)
  then obtain sys1 where s1: "step ops ev sys = Some sys1" "run_events ops evs sys1 = Some sys'"
    by (auto split: option.splits)
  have "ev \<noteq> Unsubscribe i" using Cons.prems(4) by auto
  note t1 = tail_at_step [OF Cons.prems(1,2) s1(1) this]
  from Cons.IH [OF owners_ok_step [OF Cons.prems(1) s1(1)] t1 s1(2)] Cons.prems(4) s1(1) show ?case by simp
qed simp

text \<open>
  A merged subscription once it is set up: it has sent \<open>sent\<close> of the group and its last cursor there
  is \<open>v\<close>.
\<close>

definition merged_at :: "'s system \<Rightarrow> nat \<Rightarrow> string \<Rightarrow> GroupMessageRecord list \<Rightarrow> i64 \<Rightarrow> bool" where
  "merged_at sys i g sent v \<longleftrightarrow>
     (\<exists>h. map_of (handles sys) i = Some h \<and> \<not> unsubscribed (subscription h) \<and> g \<in> set (group_ids (subscription h))) \<and>
     (\<exists>sub. subscriber sys i = Some sub \<and> dedup sub \<and> \<not> buffering sub \<and>
       group_log g (sender sub) = sent \<and> last_cursor g sub = v)"

lemma merged_at_step:
  assumes "owners_ok sys" "merged_at sys i g sent v" "step ops ev sys = Some sys'" "ev \<noteq> Unsubscribe i"
    and "ms = group_log g (case ev of PostPublish n \<Rightarrow> [in_flight sys ! n] | _ \<Rightarrow> [])"
  shows "merged_at sys' i g (sent @ accept v ms) (advance v ms)"
proof -
  from assms(2) obtain h sub where h: "map_of (handles sys) i = Some h" "\<not> unsubscribed (subscription h)"
    "g \<in> set (group_ids (subscription h))" and sub: "subscriber sys i = Some sub" "dedup sub" "\<not> buffering sub"
    "group_log g (sender sub) = sent" "last_cursor g sub = v"
    unfolding merged_at_def by blast
  note keep = open_handle_step [OF assms(1) h(1,2) assms(3,4)]
  show ?thesis
  proof (cases "\<exists>n. ev = PostPublish n \<and> gm_group_id (in_flight sys ! n) \<in> set (group_ids (subscription h))")
    case True
    then obtain n where n: "ev = PostPublish n" "gm_group_id (in_flight sys ! n) \<in> set (group_ids (subscription h))" by blast
    let ?new = "emit_if_new (in_flight sys ! n) sub"
    have "subscriber sys' i = Some ?new" "map_of (handles sys') i = Some h"
      using keep sub n by (simp_all add: push_def)
    moreover have "dedup ?new" "\<not> buffering ?new" using sub by simp_all
    moreover have "group_log g (sender ?new) = sent @ accept v ms" "last_cursor g ?new = advance v ms"
      using emit_dedup [OF sub(2), of g "in_flight sys ! n"] sub(4,5) assms(5) n(1) by simp_all
    ultimately show ?thesis using h unfolding merged_at_def by blast
  next
    case False
    with h(3) assms(5) have "ms = []" by (cases ev) auto
    moreover have "subscriber sys' i = Some sub" using keep sub(1) False by (cases ev) auto
    ultimately show ?thesis using keep h sub unfolding merged_at_def by auto
  qed
qed

lemma merged_at_run:
  assumes "owners_ok sys" "merged_at sys i g sent v" "run_events ops evs sys = Some sys'" "Unsubscribe i \<notin> set evs"
  shows "\<exists>v'. merged_at sys' i g (sent @ accept v (group_log g (published_in ops evs sys))) v'"
  using assms
proof (induction evs arbitrary: sys sent v)
  case (Cons ev evs)
  then obtain sys1 where s1: "step ops ev sys = Some sys1" "run_events ops evs sys1 = Some sys'"
    by (auto split: option.splits)
  have "ev \<noteq> Unsubscribe i" using Cons.prems(4) by auto
  note m1 = merged_at_step [OF Cons.prems(1,2) s1(1) this refl]
  from Cons.IH [OF owners_ok_step [OF Cons.prems(1) s1(1)] m1 s1(2)] Cons.prems(4) s1(1) show ?case
    by (simp add: accept_append)
qed auto

end
