(* ===== verification/Coordinator_Exactly_Once.thy ===== *)
theory Coordinator_Exactly_Once
  imports Coordinator_Interleaving
begin

text \<open>
  Exactly-once, in-order delivery to the subscriptions of \<^verbatim>\<open>coordinator.rs\<close>. In every interleaving
  in which posts do not overlap, each multi-group subscription has received, per group, exactly
  the log above the cursor it asked for, up to a cursor that covers everything published; each
  live-tail subscription exactly the records published since it was opened.
\<close>

section \<open>What a request asks for\<close>

definition requested_after :: "FetchGroupMessagesInput list \<Rightarrow> string \<Rightarrow> i64" where
  "requested_after gs g = unwrap_or 0 (map_of (cursors_loop gs []) g)"

abbreviation distinct_groups :: "FetchGroupMessagesInput list \<Rightarrow> bool" where
  "distinct_groups gs \<equiv> distinct (map fg_group_id gs)"

lemma map_of_cursors_loop:
  "map_of (cursors_loop gs cs) g = (case filter (\<lambda>x. fg_group_id x = g) gs of
     [] \<Rightarrow> map_of cs g | xs \<Rightarrow> Some (unwrap_or 0 (after_cursor (last xs))))"
  by (induction gs arbitrary: cs) (auto simp: map_of_update split: list.splits)

lemma distinct_groups_filter:
  assumes "distinct_groups gs" "x \<in> set gs"
  shows "filter (\<lambda>y. fg_group_id y = fg_group_id x) gs = [x]"
  using assms
proof (induction gs)
  case (Cons y ys)
  show ?case
  proof (cases "fg_group_id y = fg_group_id x")
    case True
    with Cons.prems have "y = x" by (auto simp: rev_image_eqI)
    moreover have "filter (\<lambda>z. fg_group_id z = fg_group_id x) ys = []"
      using Cons.prems True by (auto simp: filter_empty_conv rev_image_eqI)
    ultimately show ?thesis by simp
  next
    case False
    with Cons show ?thesis by auto
  qed
qed simp

lemma requested_after_distinct:
  "distinct_groups gs \<Longrightarrow> x \<in> set gs \<Longrightarrow> requested_after gs (fg_group_id x) = unwrap_or 0 (after_cursor x)"
  by (simp add: requested_after_def map_of_cursors_loop distinct_groups_filter)

lemma set_cursors_loop: "fst ` set (cursors_loop gs cs) = fg_group_id ` set gs \<union> fst ` set cs"
  by (induction gs arbitrary: cs) (auto simp: fst_set_update)

text \<open>The backlog of a request, seen from one group.\<close>

lemma group_log_log_after:
  "group_log g (log_after g' after ms) = (if g = g' then log_after g after ms else [])"
  by (auto simp: log_after_def filter_empty_conv conj_commute)

lemma group_log_backlog:
  assumes "distinct_groups gs" "x \<in> set gs"
  shows "group_log (fg_group_id x) (concat (map (\<lambda>y. log_after (fg_group_id y) (after_cursor y) ms) gs)) =
    log_after (fg_group_id x) (after_cursor x) ms"
proof -
  have "group_log g (concat (map (\<lambda>y. log_after (fg_group_id y) (after_cursor y) ms) gs)) =
      concat (map (\<lambda>y. log_after g (after_cursor y) ms) (filter (\<lambda>y. fg_group_id y = g) gs))" for g
    by (induction gs) (auto simp: group_log_log_after)
  then show ?thesis by (simp add: distinct_groups_filter [OF assms])
qed

lemma log_after_interval:
  "contiguous ms \<Longrightarrow> log_after g after ms = interval ms g (unwrap_or 0 after) (log_size g ms)"
  unfolding log_after_alt interval_def
  by (intro filter_cong) (auto dest: contiguous_cursor_bounds)

section \<open>Intervals grow by one record\<close>

lemma filter_eq_single: "distinct xs \<Longrightarrow> m \<in> set xs \<Longrightarrow> filter (\<lambda>x. x = m) xs = [m]"
  by (induction xs) (auto simp: filter_empty_conv)

lemma interval_extend:
  assumes c: "contiguous ms" and m: "m \<in> set ms" "cursor m = hi + 1" and "lo \<le> hi"
  shows "interval ms (gm_group_id m) lo (hi + 1) = interval ms (gm_group_id m) lo hi @ [m]"
proof -
  let ?L = "group_log (gm_group_id m) ms"
  have st: "sorted_wrt (<) (map cursor ?L)" by (rule contiguous_strict [OF c])
  have d: "distinct ?L" "inj_on cursor (set ?L)"
    using contiguous_distinct [OF c, of "gm_group_id m"] by (simp_all add: distinct_map)
  have "filter (\<lambda>x. cursor x = hi + 1) ?L = filter (\<lambda>x. x = m) ?L"
    using d(2) m by (intro filter_cong) (auto simp: inj_on_def)
  also have "\<dots> = [m]"
    using d(1) m(1) by (intro filter_eq_single) simp_all
  finally have one: "filter (\<lambda>x. cursor x = hi + 1) ?L = [m]" .
  have "filter (\<lambda>x. lo < cursor x \<and> cursor x \<le> hi) ?L @ filter (\<lambda>x. cursor x = hi + 1) ?L =
      filter (\<lambda>x. lo < cursor x \<and> cursor x \<le> hi \<or> cursor x = hi + 1) ?L"
    by (rule filter_append_sorted [OF st]) auto
  also have "\<dots> = interval ms (gm_group_id m) lo (hi + 1)"
    unfolding interval_def using \<open>lo \<le> hi\<close> by (intro filter_cong) auto
  finally show ?thesis unfolding one interval_def by (simp only:)
qed

lemma interval_empty: "hi \<le> lo \<Longrightarrow> interval ms g lo hi = []"
  by (auto simp: interval_def filter_empty_conv)

section \<open>The state of one subscriber\<close>

definition setup_ok :: "GroupMessageRecord list \<Rightarrow> (string \<Rightarrow> int) \<Rightarrow> Setup \<Rightarrow> Subscriber \<Rightarrow> bool" where
  "setup_ok ms p w sub \<longleftrightarrow> dedup sub \<and> buffering sub \<and> sender sub = [] \<and>
     (\<forall>g \<in> set (op_gids w). last_cursor g sub = requested_after (op_groups w) g \<and>
        (\<exists>k. 0 \<le> k \<and> k \<le> p g \<and> group_log g (buffer sub) = interval ms g k (p g) \<and>
           (\<forall>b. op_backlog w = Some b \<longrightarrow>
              (\<exists>f. k \<le> f \<and> f \<le> log_size g ms \<and>
                 group_log g b = interval ms g (requested_after (op_groups w) g) f))))"

definition merged_ok :: "GroupMessageRecord list \<Rightarrow> (string \<Rightarrow> int) \<Rightarrow> FetchGroupMessagesInput list \<Rightarrow>
    string list \<Rightarrow> Subscriber \<Rightarrow> bool" where
  "merged_ok ms p gs gids sub \<longleftrightarrow> dedup sub \<and> \<not> buffering sub \<and>
     (\<forall>g \<in> set gids. \<exists>n. p g \<le> n \<and> n \<le> log_size g ms \<and>
        group_log g (sender sub) = interval ms g (requested_after gs g) n \<and>
        max 0 (last_cursor g sub) = max (max 0 (requested_after gs g)) n)"

definition tail_ok :: "GroupMessageRecord list \<Rightarrow> (string \<Rightarrow> int) \<Rightarrow> string list \<Rightarrow> Subscriber \<Rightarrow> bool" where
  "tail_ok ms p gids sub \<longleftrightarrow> \<not> dedup sub \<and> \<not> buffering sub \<and>
     (\<forall>g \<in> set gids. \<exists>k. 0 \<le> k \<and> k \<le> p g \<and> group_log g (sender sub) = interval ms g k (p g))"

definition handle_ok :: "GroupMessageRecord list \<Rightarrow> (string \<Rightarrow> int) \<Rightarrow> Handle \<Rightarrow> Subscriber \<Rightarrow> bool" where
  "handle_ok ms p h sub =
     (case request h of
        None \<Rightarrow> tail_ok ms p (group_ids (subscription h)) sub
      | Some gs \<Rightarrow> group_ids (subscription h) = map fst (cursors_loop gs []) \<and>
          (distinct_groups gs \<longrightarrow> merged_ok ms p gs (group_ids (subscription h)) sub))"

definition bounded_by :: "(string \<Rightarrow> int) \<Rightarrow> GroupMessageRecord list \<Rightarrow> bool" where
  "bounded_by p ms \<longleftrightarrow> (\<forall>g. 0 \<le> p g \<and> p g \<le> log_size g ms)"

text \<open>Appending a record to the log, not yet published, changes nothing.\<close>

lemma log_size_snoc: "log_size g ms \<le> log_size g (ms @ [m])"
  by simp

lemma setup_ok_snoc:
  assumes "contiguous ms" "bounded_by p ms" "cursor m = log_size (gm_group_id m) ms + 1" "setup_ok ms p w sub"
  shows "setup_ok (ms @ [m]) p w sub"
proof -
  have iv: "interval (ms @ [m]) g lo hi = interval ms g lo hi" if "hi \<le> log_size g ms" for g lo hi
    using interval_snoc [OF assms(1) that assms(3)] .
  show ?thesis
    unfolding setup_ok_def
  proof (intro conjI ballI)
    fix g assume g: "g \<in> set (op_gids w)"
    with assms(4) show "last_cursor g sub = requested_after (op_groups w) g" by (simp add: setup_ok_def)
    from assms(4) g obtain k where k: "0 \<le> k" "k \<le> p g" "group_log g (buffer sub) = interval ms g k (p g)"
      and f: "\<And>b. op_backlog w = Some b \<Longrightarrow> \<exists>f. k \<le> f \<and> f \<le> log_size g ms \<and>
         group_log g b = interval ms g (requested_after (op_groups w) g) f"
      unfolding setup_ok_def by blast
    have p: "p g \<le> log_size g ms" using assms(2) by (simp add: bounded_by_def)
    have "\<exists>f. k \<le> f \<and> f \<le> log_size g (ms @ [m]) \<and>
         group_log g b = interval (ms @ [m]) g (requested_after (op_groups w) g) f" if "op_backlog w = Some b" for b
    proof -
      from f [OF that] obtain f where "k \<le> f" "f \<le> log_size g ms"
        "group_log g b = interval ms g (requested_after (op_groups w) g) f" by blast
      with iv log_size_snoc [of g ms m] show ?thesis by (intro exI [of _ f]) simp
    qed
    with k iv [OF p] show "\<exists>k. 0 \<le> k \<and> k \<le> p g \<and> group_log g (buffer sub) = interval (ms @ [m]) g k (p g) \<and>
           (\<forall>b. op_backlog w = Some b \<longrightarrow> (\<exists>f. k \<le> f \<and> f \<le> log_size g (ms @ [m]) \<and>
                 group_log g b = interval (ms @ [m]) g (requested_after (op_groups w) g) f))"
      by (intro exI [of _ k] conjI) (simp_all del: filter_append)
  qed (use assms(4) in \<open>simp_all add: setup_ok_def\<close>)
qed

lemma merged_ok_snoc:
  assumes "contiguous ms" "cursor m = log_size (gm_group_id m) ms + 1" "merged_ok ms p gs gids sub"
  shows "merged_ok (ms @ [m]) p gs gids sub"
  unfolding merged_ok_def
proof (intro conjI ballI)
  fix g assume "g \<in> set gids"
  with assms(3) obtain n where n: "p g \<le> n" "n \<le> log_size g ms"
    "group_log g (sender sub) = interval ms g (requested_after gs g) n"
    "max 0 (last_cursor g sub) = max (max 0 (requested_after gs g)) n" unfolding merged_ok_def by blast
  then show "\<exists>n\<ge>p g. n \<le> log_size g (ms @ [m]) \<and>
      group_log g (sender sub) = interval (ms @ [m]) g (requested_after gs g) n \<and>
      max 0 (last_cursor g sub) = max (max 0 (requested_after gs g)) n"
    using interval_snoc [OF assms(1) n(2) assms(2)] log_size_snoc [of g ms m]
    by (intro exI [of _ n]) (simp del: filter_append)
qed (use assms(3) in \<open>simp_all add: merged_ok_def\<close>)

lemma tail_ok_snoc:
  assumes "contiguous ms" "bounded_by p ms" "cursor m = log_size (gm_group_id m) ms + 1" "tail_ok ms p gids sub"
  shows "tail_ok (ms @ [m]) p gids sub"
proof -
  have "interval (ms @ [m]) g k (p g) = interval ms g k (p g)" for g k
    using assms(2) by (intro interval_snoc [OF assms(1) _ assms(3)]) (simp add: bounded_by_def)
  with assms(4) show ?thesis by (simp add: tail_ok_def)
qed

lemma handle_ok_snoc:
  assumes "contiguous ms" "bounded_by p ms" "cursor m = log_size (gm_group_id m) ms + 1" "handle_ok ms p h sub"
  shows "handle_ok (ms @ [m]) p h sub"
  using assms merged_ok_snoc tail_ok_snoc by (auto simp: handle_ok_def split: option.splits)

text \<open>Publishing the newest record of its group to a subscriber of that group.\<close>

lemma newest_extends:
  assumes "contiguous ms" "m \<in> set ms" "cursor m = log_size (gm_group_id m) ms" "p (gm_group_id m) = cursor m - 1"
    "k \<le> p (gm_group_id m)"
  shows "interval ms (gm_group_id m) k (log_size (gm_group_id m) ms) =
    interval ms (gm_group_id m) k (p (gm_group_id m)) @ [m]"
  using interval_extend [OF assms(1,2), of "cursor m - 1" k] assms(3-5) by simp

lemma setup_ok_push:
  assumes m: "contiguous ms" "m \<in> set ms" "cursor m = log_size (gm_group_id m) ms" "p (gm_group_id m) = cursor m - 1"
    and ok: "setup_ok ms p w sub"
  shows "setup_ok ms (p(gm_group_id m := log_size (gm_group_id m) ms)) w
    (if gm_group_id m \<in> set (op_gids w) then push m sub else sub)"
    (is "setup_ok ms ?p w ?sub")
  unfolding setup_ok_def
proof (intro conjI ballI)
  have push: "push m sub = sub\<lparr>buffer := buffer sub @ [m]\<rparr>" using ok by (simp add: push_def setup_ok_def)
  with ok show "dedup ?sub" "buffering ?sub" "sender ?sub = []" by (simp_all add: setup_ok_def)
  fix g assume g: "g \<in> set (op_gids w)"
  with ok push show "last_cursor g ?sub = requested_after (op_groups w) g" by (simp add: setup_ok_def)
  from ok g obtain k where k: "0 \<le> k" "k \<le> p g" "group_log g (buffer sub) = interval ms g k (p g)"
    and f: "\<forall>b. op_backlog w = Some b \<longrightarrow> (\<exists>f. k \<le> f \<and> f \<le> log_size g ms \<and>
         group_log g b = interval ms g (requested_after (op_groups w) g) f)"
    unfolding setup_ok_def by blast
  have "k \<le> ?p g" "group_log g (buffer ?sub) = interval ms g k (?p g)"
    using k g push newest_extends [where p = p and k = k, OF m] m(3,4) by auto
  with k(1) f show "\<exists>k. 0 \<le> k \<and> k \<le> ?p g \<and> group_log g (buffer ?sub) = interval ms g k (?p g) \<and>
      (\<forall>b. op_backlog w = Some b \<longrightarrow> (\<exists>f. k \<le> f \<and> f \<le> log_size g ms \<and>
         group_log g b = interval ms g (requested_after (op_groups w) g) f))"
    by (intro exI [of _ k]) blast
qed

lemma tail_ok_push:
  assumes m: "contiguous ms" "m \<in> set ms" "cursor m = log_size (gm_group_id m) ms" "p (gm_group_id m) = cursor m - 1"
    and ok: "tail_ok ms p gids sub"
  shows "tail_ok ms (p(gm_group_id m := log_size (gm_group_id m) ms)) gids
    (if gm_group_id m \<in> set gids then push m sub else sub)"
    (is "tail_ok ms ?p gids ?sub")
  unfolding tail_ok_def
proof (intro conjI ballI)
  have push: "push m sub = sub\<lparr>sender := sender sub @ [m]\<rparr>"
    using ok by (simp add: push_def tail_ok_def emit_direct)
  with ok show "\<not> dedup ?sub" "\<not> buffering ?sub" by (simp_all add: tail_ok_def)
  fix g assume g: "g \<in> set gids"
  from ok g obtain k where k: "0 \<le> k" "k \<le> p g" "group_log g (sender sub) = interval ms g k (p g)"
    unfolding tail_ok_def by blast
  have "k \<le> ?p g" "group_log g (sender ?sub) = interval ms g k (?p g)"
    using k g push newest_extends [where p = p and k = k, OF m] m(3,4) by auto
  with k(1) show "\<exists>k. 0 \<le> k \<and> k \<le> ?p g \<and> group_log g (sender ?sub) = interval ms g k (?p g)" by blast
qed

text \<open>The three cases of a live record at a merged subscription: seen in the backlog, not asked
  for, or new.\<close>

lemma merged_group_push:
  assumes m: "contiguous ms" "m \<in> set ms" "cursor m = log_size (gm_group_id m) ms" "p (gm_group_id m) = cursor m - 1"
    and sub: "dedup sub" "p (gm_group_id m) \<le> n" "n \<le> log_size (gm_group_id m) ms"
      "group_log (gm_group_id m) (sender sub) = interval ms (gm_group_id m) lo n"
      "max 0 (last_cursor (gm_group_id m) sub) = max (max 0 lo) n"
  shows "group_log (gm_group_id m) (sender (emit_if_new m sub)) = interval ms (gm_group_id m) lo (cursor m)"
    "max 0 (last_cursor (gm_group_id m) (emit_if_new m sub)) = max (max 0 lo) (cursor m)"
proof -
  let ?g = "gm_group_id m" and ?v = "last_cursor (gm_group_id m) sub"
  have pos: "1 \<le> cursor m" using contiguous_cursor_bounds [OF m(1,2)] by simp
  have ed: "group_log ?g (sender (emit_if_new m sub)) = interval ms ?g lo n @ accept ?v [m]"
    "last_cursor ?g (emit_if_new m sub) = max ?v (cursor m)"
    using emit_dedup [OF sub(1), of ?g m] sub(4) by simp_all
  consider "n = cursor m" | "n = cursor m - 1" "cursor m \<le> lo" | "n = cursor m - 1" "lo < cursor m"
    using sub(2,3) m(3,4) by linarith
  then have "interval ms ?g lo n @ accept ?v [m] = interval ms ?g lo (cursor m) \<and>
    max 0 (max ?v (cursor m)) = max (max 0 lo) (cursor m)"
  proof cases
    case 1
    with sub(5) pos show ?thesis by (auto simp: max_def split: if_splits)
  next
    case 2
    then have "\<not> ?v < cursor m" using sub(5) pos by (auto simp: max_def split: if_splits)
    with 2 sub(5) pos show ?thesis by (auto simp: interval_empty max_def split: if_splits)
  next
    case 3
    then have "?v < cursor m" using sub(5) pos by (auto simp: max_def split: if_splits)
    moreover have "interval ms ?g lo (cursor m) = interval ms ?g lo n @ [m]"
      using interval_extend [OF m(1,2), of n lo] 3 by simp
    ultimately show ?thesis using 3 pos by (auto simp: max_def)
  qed
  with ed show "group_log ?g (sender (emit_if_new m sub)) = interval ms ?g lo (cursor m)"
    "max 0 (last_cursor ?g (emit_if_new m sub)) = max (max 0 lo) (cursor m)" by simp_all
qed

lemma merged_ok_push:
  assumes m: "contiguous ms" "m \<in> set ms" "cursor m = log_size (gm_group_id m) ms" "p (gm_group_id m) = cursor m - 1"
    and ok: "merged_ok ms p gs gids sub"
  shows "merged_ok ms (p(gm_group_id m := log_size (gm_group_id m) ms)) gs gids
    (if gm_group_id m \<in> set gids then push m sub else sub)"
    (is "merged_ok ms ?p gs gids ?sub")
  unfolding merged_ok_def
proof (intro conjI ballI)
  have push: "push m sub = emit_if_new m sub" and d: "dedup sub"
    using ok by (simp_all add: push_def merged_ok_def)
  with ok show "dedup ?sub" "\<not> buffering ?sub" by (simp_all add: merged_ok_def)
  fix g assume g: "g \<in> set gids"
  from ok g obtain n where n: "p g \<le> n" "n \<le> log_size g ms"
    "group_log g (sender sub) = interval ms g (requested_after gs g) n"
    "max 0 (last_cursor g sub) = max (max 0 (requested_after gs g)) n"
    unfolding merged_ok_def by blast
  show "\<exists>n\<ge>?p g. n \<le> log_size g ms \<and> group_log g (sender ?sub) = interval ms g (requested_after gs g) n \<and>
      max 0 (last_cursor g ?sub) = max (max 0 (requested_after gs g)) n"
  proof (cases "g = gm_group_id m")
    case True
    with n merged_group_push [where p = p and n = n and lo = "requested_after gs g", OF m d] g push m(3) show ?thesis
      by (intro exI [of _ "cursor m"]) simp
  next
    case False
    with emit_dedup [OF d, of g m] push n show ?thesis by (intro exI [of _ n]) simp
  qed
qed

lemma handle_ok_push:
  assumes "contiguous ms" "m \<in> set ms" "cursor m = log_size (gm_group_id m) ms" "p (gm_group_id m) = cursor m - 1"
    and "handle_ok ms p h sub"
  shows "handle_ok ms (p(gm_group_id m := log_size (gm_group_id m) ms)) h
    (if gm_group_id m \<in> set (group_ids (subscription h)) then push m sub else sub)"
proof (cases "request h")
  case None
  show ?thesis unfolding handle_ok_def None option.case
    by (rule tail_ok_push [where p = p, OF assms(1-4)]) (use assms(5) None in \<open>simp add: handle_ok_def\<close>)
next
  case (Some gs)
  show ?thesis unfolding handle_ok_def Some option.case
  proof (intro conjI impI)
    from assms(5) Some show "group_ids (subscription h) = map fst (cursors_loop gs [])"
      by (simp add: handle_ok_def)
    assume "distinct_groups gs"
    with assms(5) Some have "merged_ok ms p gs (group_ids (subscription h)) sub" by (auto simp: handle_ok_def)
    then show "merged_ok ms (p(gm_group_id m := log_size (gm_group_id m) ms)) gs (group_ids (subscription h))
      (if gm_group_id m \<in> set (group_ids (subscription h)) then push m sub else sub)"
      by (rule merged_ok_push [where p = p, OF assms(1-4)])
  qed
qed

text \<open>Replaying the backlog and flushing the buffer makes a merged subscription.\<close>

lemma setup_finishes:
  assumes c: "contiguous ms" and p: "bounded_by p ms" and ok: "setup_ok ms p w sub" and b: "op_backlog w = Some b"
  shows "merged_ok ms p (op_groups w) (op_gids w) (finish_buffering (replay_backlog b sub))"
  unfolding merged_ok_def
proof (intro conjI ballI)
  have d: "dedup sub" "sender sub = []" using ok by (simp_all add: setup_ok_def)
  then show "dedup (finish_buffering (replay_backlog b sub))" "\<not> buffering (finish_buffering (replay_backlog b sub))"
    by simp_all
  fix g assume "g \<in> set (op_gids w)"
  with ok b obtain k f where s: "last_cursor g sub = requested_after (op_groups w) g" "0 \<le> k" "k \<le> p g"
    "group_log g (buffer sub) = interval ms g k (p g)" "k \<le> f" "f \<le> log_size g ms"
    "group_log g b = interval ms g (requested_after (op_groups w) g) f"
    unfolding setup_ok_def by blast
  have pg: "0 \<le> p g" "p g \<le> log_size g ms" using p by (simp_all add: bounded_by_def)
  have f0: "0 \<le> f" using s by simp
  note merge = accept_merge [OF c refl f0 s(6,5) pg, of "requested_after (op_groups w) g"]
  with finish_setup [OF d(1), of g b] d(2) s pg
  show "\<exists>n\<ge>p g. n \<le> log_size g ms \<and>
      group_log g (sender (finish_buffering (replay_backlog b sub))) =
        interval ms g (requested_after (op_groups w) g) n \<and>
      max 0 (last_cursor g (finish_buffering (replay_backlog b sub))) =
        max (max 0 (requested_after (op_groups w) g)) n"
    by (intro exI [of _ "max f (p g)"]) simp
qed

section \<open>The state of the system\<close>

definition published_upto :: "'s system \<Rightarrow> GroupMessageRecord list \<Rightarrow> string \<Rightarrow> int" where
  "published_upto sys ms g = log_size g ms - (if g \<in> gm_group_id ` set (in_flight sys) then 1 else 0)"

definition one_post :: "'s system \<Rightarrow> GroupMessageRecord list \<Rightarrow> bool" where
  "one_post sys ms \<longleftrightarrow> (in_flight sys = [] \<or>
     (\<exists>m. in_flight sys = [m] \<and> m \<in> set ms \<and> cursor m = log_size (gm_group_id m) ms))"

definition delivered_ok :: "'s system \<Rightarrow> GroupMessageRecord list \<Rightarrow> (string \<Rightarrow> int) \<Rightarrow> bool" where
  "delivered_ok sys ms p \<longleftrightarrow>
     (\<forall>i w sub. map_of (setups sys) i = Some w \<longrightarrow> subscriber sys i = Some sub \<longrightarrow>
        op_gids w = map fst (cursors_loop (op_groups w) []) \<and>
        (distinct_groups (op_groups w) \<longrightarrow> setup_ok ms p w sub)) \<and>
     (\<forall>i h sub. map_of (handles sys) i = Some h \<longrightarrow> \<not> unsubscribed (subscription h) \<longrightarrow>
        subscriber sys i = Some sub \<longrightarrow> handle_ok ms p h sub)"

definition exact :: "'s system \<Rightarrow> GroupMessageRecord list \<Rightarrow> bool" where
  "exact sys ms \<longleftrightarrow> one_post sys ms \<and> delivered_ok sys ms (published_upto sys ms)"

lemma published_bounded:
  assumes "contiguous ms" "one_post sys ms"
  shows "bounded_by (published_upto sys ms) ms"
  using assms by (auto simp: bounded_by_def published_upto_def one_post_def
      dest: contiguous_cursor_bounds)

lemma delivered_okD:
  assumes "delivered_ok sys ms p"
  shows "map_of (setups sys) i = Some w \<Longrightarrow> subscriber sys i = Some sub \<Longrightarrow>
      op_gids w = map fst (cursors_loop (op_groups w) [])"
    "map_of (setups sys) i = Some w \<Longrightarrow> subscriber sys i = Some sub \<Longrightarrow>
      distinct_groups (op_groups w) \<Longrightarrow> setup_ok ms p w sub"
    "map_of (handles sys) i = Some h \<Longrightarrow> \<not> unsubscribed (subscription h) \<Longrightarrow>
      subscriber sys i = Some sub \<Longrightarrow> handle_ok ms p h sub"
  using assms by (auto simp: delivered_ok_def)

lemma exact_append:
  assumes "contiguous ms" "exact sys ms" "in_flight sys = []"
    "cursor m = log_size (gm_group_id m) ms + 1" "inner co = inner (coord sys)"
  shows "exact (sys\<lparr>coord := co, in_flight := in_flight sys @ [m]\<rparr>) (ms @ [m])"
proof -
  let ?s = "sys\<lparr>coord := co, in_flight := in_flight sys @ [m]\<rparr>"
  have b: "bounded_by (published_upto sys ms) ms"
    using published_bounded [OF assms(1), of sys] assms(2) by (simp add: exact_def)
  have p: "published_upto ?s (ms @ [m]) = published_upto sys ms"
    using assms(3) by (auto simp: published_upto_def fun_eq_iff)
  have "delivered_ok sys (ms @ [m]) (published_upto sys ms)"
    using assms(2) setup_ok_snoc [OF assms(1) b assms(4)] handle_ok_snoc [OF assms(1) b assms(4)]
    unfolding exact_def delivered_ok_def by blast
  then show ?thesis
    using assms(3-5) unfolding exact_def p by (simp add: delivered_ok_def one_post_def)
qed

lemma exact_publish:
  assumes c: "contiguous ms" and ex: "exact sys ms" and own: "owners_ok sys" and f: "in_flight sys = [m]"
  shows "exact (on_inner (publish_live m) sys\<lparr>in_flight := []\<rparr>) ms"
proof -
  let ?s = "on_inner (publish_live m) sys\<lparr>in_flight := []\<rparr>" and ?p = "published_upto sys ms"
  have m: "m \<in> set ms" "cursor m = log_size (gm_group_id m) ms" "?p (gm_group_id m) = cursor m - 1"
    using ex f by (auto simp: exact_def one_post_def published_upto_def)
  have p: "published_upto ?s ms = ?p(gm_group_id m := log_size (gm_group_id m) ms)"
    using f by (auto simp: published_upto_def fun_eq_iff on_inner_def)
  have reg: "reg_ok (inner (coord sys))" using own by (simp add: owners_ok_def)
  have sub: "subscriber ?s i = map_option (if gm_group_id m \<in> groups_of (inner (coord sys)) i then push m else id)
      (subscriber sys i)" for i
    using publish_live_lookup [OF reg] by (simp add: on_inner_def)
  have own_i: "entry_ok (inner (coord sys)) i (owned sys i)" for i using own by (simp add: owners_ok_def)
  have gw: "groups_of (inner (coord sys)) i = set (op_gids w)" if "map_of (setups sys) i = Some w" for i w
    using own_i [of i] that by (simp add: owned_def)
  have gh: "groups_of (inner (coord sys)) i = set (group_ids (subscription h))"
    if "map_of (handles sys) i = Some h" "\<not> unsubscribed (subscription h)" for i h
  proof -
    have "map_of (setups sys) i = None" using own that by (auto simp: owners_ok_def)
    with own_i [of i] that show ?thesis by (simp add: owned_def)
  qed
  have del: "delivered_ok sys ms ?p" using ex by (simp add: exact_def)
  have "delivered_ok ?s ms (?p(gm_group_id m := log_size (gm_group_id m) ms))"
    unfolding delivered_ok_def
  proof (intro conjI allI impI)
    fix i w sub' assume w: "map_of (setups ?s) i = Some w" and s': "subscriber ?s i = Some sub'"
    then have w': "map_of (setups sys) i = Some w" by (simp add: on_inner_def)
    from s' sub [of i] gw [OF w'] obtain sub0 where s0: "subscriber sys i = Some sub0"
      "sub' = (if gm_group_id m \<in> set (op_gids w) then push m sub0 else sub0)"
      by (cases "subscriber sys i") (auto split: if_splits)
    show "op_gids w = map fst (cursors_loop (op_groups w) [])" by (rule delivered_okD(1) [OF del w' s0(1)])
    assume "distinct_groups (op_groups w)"
    then have "setup_ok ms ?p w sub0" by (rule delivered_okD(2) [OF del w' s0(1)])
    then show "setup_ok ms (?p(gm_group_id m := log_size (gm_group_id m) ms)) w sub'"
      unfolding s0(2) by (rule setup_ok_push [where p = ?p, OF c m])
  next
    fix i h sub' assume h: "map_of (handles ?s) i = Some h" "\<not> unsubscribed (subscription h)"
      and s': "subscriber ?s i = Some sub'"
    then have h': "map_of (handles sys) i = Some h" by (simp add: on_inner_def)
    from s' sub [of i] gh [OF h' h(2)] obtain sub0 where s0: "subscriber sys i = Some sub0"
      "sub' = (if gm_group_id m \<in> set (group_ids (subscription h)) then push m sub0 else sub0)"
      by (cases "subscriber sys i") (auto split: if_splits)
    have "handle_ok ms ?p h sub0" by (rule delivered_okD(3) [OF del h' h(2) s0(1)])
    then show "handle_ok ms (?p(gm_group_id m := log_size (gm_group_id m) ms)) h sub'"
      unfolding s0(2) by (rule handle_ok_push [where p = ?p, OF c m])
  qed
  then show ?thesis unfolding exact_def p by (simp add: one_post_def)
qed

text \<open>Every other event touches one subscriber and leaves the log and the posts alone.\<close>

lemma exact_at:
  assumes ex: "exact sys ms" and fl: "in_flight sys' = in_flight sys"
    and other: "\<And>j. j \<noteq> i \<Longrightarrow> map_of (setups sys') j = map_of (setups sys) j \<and>
      map_of (handles sys') j = map_of (handles sys) j \<and> subscriber sys' j = subscriber sys j"
    and st: "\<And>w sub. map_of (setups sys') i = Some w \<Longrightarrow> subscriber sys' i = Some sub \<Longrightarrow>
      op_gids w = map fst (cursors_loop (op_groups w) []) \<and>
      (distinct_groups (op_groups w) \<longrightarrow> setup_ok ms (published_upto sys ms) w sub)"
    and handle: "\<And>h sub. map_of (handles sys') i = Some h \<Longrightarrow> \<not> unsubscribed (subscription h) \<Longrightarrow>
      subscriber sys' i = Some sub \<Longrightarrow> handle_ok ms (published_upto sys ms) h sub"
  shows "exact sys' ms"
proof -
  have p: "published_upto sys' ms = published_upto sys ms" using fl by (simp add: published_upto_def fun_eq_iff)
  have del: "delivered_ok sys ms (published_upto sys ms)" using ex by (simp add: exact_def)
  have "delivered_ok sys' ms (published_upto sys ms)"
    unfolding delivered_ok_def
  proof (intro allI impI conjI)
    fix j w sub assume j: "map_of (setups sys') j = Some w" "subscriber sys' j = Some sub"
    show "op_gids w = map fst (cursors_loop (op_groups w) [])"
      using st other [of j] delivered_okD(1) [OF del, of j w sub] j by (cases "j = i") auto
    assume "distinct_groups (op_groups w)"
    then show "setup_ok ms (published_upto sys ms) w sub"
      using st other [of j] delivered_okD(2) [OF del, of j w sub] j by (cases "j = i") auto
  next
    fix j h sub assume j: "map_of (handles sys') j = Some h" "\<not> unsubscribed (subscription h)" "subscriber sys' j = Some sub"
    then show "handle_ok ms (published_upto sys ms) h sub"
      using handle other [of j] delivered_okD(3) [OF del, of j h sub] by (cases "j = i") auto
  qed
  with ex fl show ?thesis unfolding exact_def p by (simp add: one_post_def)
qed

lemma exact_coord:
  assumes "exact sys ms" "inner co = inner (coord sys)"
  shows "exact (sys\<lparr>coord := co\<rparr>) ms"
  using assms by (simp add: exact_def one_post_def delivered_ok_def published_upto_def [abs_def])

lemma exact_subscribe_one:
  assumes ex: "exact sys ms" and c: "contiguous ms" and own: "owners_ok sys"
    and st: "step ops (SubscribeOne g) sys = Some sys'"
  shows "exact sys' ms"
proof -
  obtain h co where s: "subscribe_group_messages g (coord sys) = (h, co)" by force
  have reg: "reg_ok (inner (coord sys))" using own by (simp add: owners_ok_def)
  note so = subscribe_one_ok [OF reg s]
  let ?i = "next_id (inner (coord sys))"
  have sys': "sys' = sys\<lparr>coord := co, handles := AList.update ?i \<lparr>subscription = h, request = None\<rparr> (handles sys)\<rparr>"
    using st s by (auto simp: so(1))
  have b: "bounded_by (published_upto sys ms) ms" using published_bounded [OF c, of sys] ex by (simp add: exact_def)
  have "tail_ok ms (published_upto sys ms) [g] live_tail"
    using b by (auto simp: tail_ok_def live_tail_def bounded_by_def interval_empty)
  moreover have "map_of (setups sys) ?i = None" using own by (simp add: owners_ok_def)
  ultimately show ?thesis
    by (intro exact_at [OF ex, of _ ?i]) (auto simp: sys' so(1,5) map_of_update handle_ok_def)
qed

lemma exact_open_many:
  assumes ex: "exact sys ms" and c: "contiguous ms" and own: "owners_ok sys"
    and st: "step ops (OpenMany gs) sys = Some sys'"
  shows "exact sys' ms"
proof -
  obtain i gids reg where s: "begin_merge gs (inner (coord sys)) = ((i, gids), reg)" by (metis prod.collapse)
  have rk: "reg_ok (inner (coord sys))" using own by (simp add: owners_ok_def)
  note bm = begin_merge_ok [OF rk s]
  have sys': "sys' = on_inner (\<lambda>_. reg) sys\<lparr>setups :=
      AList.update i \<lparr>op_gids = gids, op_groups = gs, op_backlog = None\<rparr> (setups sys)\<rparr>" using st s by auto
  have b: "bounded_by (published_upto sys ms) ms" using published_bounded [OF c, of sys] ex by (simp add: exact_def)
  have "setup_ok ms (published_upto sys ms) \<lparr>op_gids = gids, op_groups = gs, op_backlog = None\<rparr>
      (merging (cursors_loop gs []))"
    using b by (auto simp: setup_ok_def merging_def bounded_by_def interval_empty last_cursor_def requested_after_def)
  moreover have "map_of (handles sys) i = None" using own bm(1) by (simp add: owners_ok_def)
  ultimately show ?thesis
    by (intro exact_at [OF ex, of _ i]) (auto simp: sys' bm(6,7) map_of_update on_inner_def)
qed

lemma exact_fetched:
  assumes ex: "exact sys ms" and c: "contiguous ms" and w: "map_of (setups sys) i = Some w"
    and h: "map_of (handles sys) i = None" and inn: "inner co = inner (coord sys)"
    and b: "b = concat (map (\<lambda>g. log_after (fg_group_id g) (after_cursor g) ms) (op_groups w))"
    and none: "op_backlog w = None"
  shows "exact (sys\<lparr>coord := co, setups := AList.update i (w\<lparr>op_backlog := Some b\<rparr>) (setups sys)\<rparr>) ms"
proof -
  let ?p = "published_upto sys ms"
  have bd: "bounded_by ?p ms" using published_bounded [OF c, of sys] ex by (simp add: exact_def)
  have del: "delivered_ok sys ms ?p" using ex by (simp add: exact_def)
  have "setup_ok ms ?p (w\<lparr>op_backlog := Some b\<rparr>) sub"
    if s: "setup_ok ms ?p w sub" and gids: "op_gids w = map fst (cursors_loop (op_groups w) [])"
      and dist: "distinct_groups (op_groups w)" for sub
    unfolding setup_ok_def
  proof (intro conjI ballI)
    fix g assume "g \<in> set (op_gids (w\<lparr>op_backlog := Some b\<rparr>))"
    then have g: "g \<in> set (op_gids w)" by simp
    then obtain x where x: "x \<in> set (op_groups w)" "g = fg_group_id x"
      using set_cursors_loop [of "op_groups w" "[]"] by (auto simp: gids)
    have "group_log g b = interval ms g (requested_after (op_groups w) g) (log_size g ms)"
      unfolding b x(2) group_log_backlog [OF dist x(1)] unfolding log_after_interval [OF c]
        requested_after_distinct [OF dist x(1)] ..
    moreover from s g obtain k where k: "0 \<le> k" "k \<le> ?p g" "group_log g (buffer sub) = interval ms g k (?p g)"
      unfolding setup_ok_def by blast
    moreover have "k \<le> log_size g ms" using bd k(2) by (metis bounded_by_def order_trans)
    ultimately show "\<exists>k. 0 \<le> k \<and> k \<le> ?p g \<and> group_log g (buffer sub) = interval ms g k (?p g) \<and>
        (\<forall>b'. op_backlog (w\<lparr>op_backlog := Some b\<rparr>) = Some b' \<longrightarrow> (\<exists>f. k \<le> f \<and> f \<le> log_size g ms \<and>
           group_log g b' = interval ms g (requested_after (op_groups (w\<lparr>op_backlog := Some b\<rparr>)) g) f))"
      by (intro exI [of _ k]) auto
    show "last_cursor g sub = requested_after (op_groups (w\<lparr>op_backlog := Some b\<rparr>)) g"
      using s g by (simp add: setup_ok_def)
  qed (use s in \<open>simp_all add: setup_ok_def\<close>)
  with delivered_okD(1,2) [OF del w] show ?thesis
    by (intro exact_at [OF ex, of _ i]) (auto simp: map_of_update inn h)
qed

lemma exact_finished:
  assumes ex: "exact sys ms" and c: "contiguous ms" and w: "map_of (setups sys) i = Some w"
    and b: "op_backlog w = Some b" and own: "owners_ok sys"
  shows "exact (on_inner (finish_merge i b) sys
    \<lparr>setups := AList.delete i (setups sys),
     handles := AList.update i \<lparr>subscription = \<lparr>received = 0, subscriber_id = i,
         group_ids = op_gids w, unsubscribed = False\<rparr>, request = Some (op_groups w)\<rparr> (handles sys)\<rparr>) ms"
proof -
  let ?p = "published_upto sys ms"
  have bd: "bounded_by ?p ms" using published_bounded [OF c, of sys] ex by (simp add: exact_def)
  have del: "delivered_ok sys ms ?p" using ex by (simp add: exact_def)
  have reg: "reg_ok (inner (coord sys))" using own by (simp add: owners_ok_def)
  note fm = finish_merge_ok(4) [OF reg, of i b]
  have "merged_ok ms ?p (op_groups w) (op_gids w) (finish_buffering (replay_backlog b sub))"
    if "subscriber sys i = Some sub" "distinct_groups (op_groups w)" for sub
    by (rule setup_finishes [OF c bd delivered_okD(2) [OF del w that] b])
  with delivered_okD(1) [OF del w] show ?thesis
    by (intro exact_at [OF ex, of _ i])
      (auto simp: on_inner_def fm map_of_update map_of_delete handle_ok_def option.map_id)
qed

lemma exact_dropped:
  assumes "exact sys ms" "owners_ok sys" "owned sys i = Some gids" "inner co = inner (coord sys)"
    "in_flight sys' = in_flight sys" "coord sys' = drop_subscriber i gids co"
    "\<And>j. j \<noteq> i \<Longrightarrow> map_of (setups sys') j = map_of (setups sys) j \<and> map_of (handles sys') j = map_of (handles sys) j"
  shows "exact sys' ms"
proof -
  have e: "entry_ok (inner (coord sys)) i (owned sys i)" "reg_ok (inner (coord sys))"
    using assms(2) by (simp_all add: owners_ok_def)
  have r: "reg_ok (inner co)" "distinct gids" "set gids = groups_of (inner co) i"
    using e assms(3,4) by simp_all
  note dr = drop_subscriber_ok(3) [OF r]
  show ?thesis using assms(4-7) by (intro exact_at [OF assms(1), of _ i]) (simp_all add: dr)
qed

section \<open>Over any backend\<close>

lemma exec_spec_messages: "\<not> is_append c \<Longrightarrow> sp_messages (snd (exec spec_ops c a)) = sp_messages a"
proof (cases c)
  case (ConsumeKeyPackage x)
  then show ?thesis
    by (auto simp: spec_ops_def map_reply_def spec_consume_key_package_def spec_take_def
        spec_drop_ref_def split: option.splits)
qed (auto simp: spec_ops_def map_reply_def spec_defs Let_def)

lemma exec_spec_append:
  "snd (exec spec_ops (AppendGroupMessage p) a) = snd (spec_append_group_message p a)"
  by (simp add: spec_ops_def map_reply_def)

lemma exact_new: "exact (system_new co) ms"
  by (simp add: exact_def one_post_def delivered_ok_def system_new_def)

context coordinator_storage
begin

lemma rel_contiguous: "rel s a \<Longrightarrow> contiguous (sp_messages a)"
  using rel_inv by (auto simp: spec_inv_def)

lemma fetch_outcome:
  assumes "rel s a" "so_fetch_many_group_messages ops gs s = (r, s')"
  obtains (fetched) "r = Inr (concat (map (\<lambda>g. log_after (fg_group_id g) (after_cursor g) (sp_messages a)) gs))" "rel s' a"
  | (failed) e where "r = Inl e" "rel s' a"
  using fetch_many_group_messages [OF assms(1), of gs] assms(2)
  by (auto simp: refines_def spec_fetch_many_group_messages_def rel_sum.simps)

lemma append_outcome:
  assumes "rel s a" "cursor_room (ap_group_id p) a" "so_append_group_message ops p s = (r, s')"
  obtains (appended) m where "r = Inr m" "cursor m = log_size (gm_group_id m) (sp_messages a) + 1"
      "sp_messages (snd (spec_append_group_message p a)) = sp_messages a @ [m]"
      "rel s' (snd (spec_append_group_message p a))"
  | (failed) e where "r = Inl e" "rel s' a"
proof -
  let ?m = "\<lparr>cursor = log_size (ap_group_id p) (sp_messages a) + 1, gm_group_id = ap_group_id p,
    opaque_message = ap_opaque_message p, gm_created_at = ap_created_at p\<rparr>"
  have sp: "spec_append_group_message p a = (Inr ?m, a\<lparr>sp_messages := sp_messages a @ [?m]\<rparr>)"
    by (simp add: spec_append_group_message_def Let_def)
  have "r = Inr ?m \<and> rel s' (snd (spec_append_group_message p a)) \<or> (\<exists>msg. r = Inl (Backend msg)) \<and> rel s' a"
    using append_group_message [OF assms(1,2)] assms(3) by (auto simp: refines_def sp rel_sum.simps)
  then show thesis using appended [of ?m] failed sp by auto
qed

text \<open>A step keeps the backend related to some abstract state with room for the calls to come.\<close>

lemma exact_step:
  assumes rel: "rel (storage (coord sys)) a" and own: "owners_ok sys" and ex: "exact sys (sp_messages a)"
    and st: "step ops ev sys = Some sys'" and room: "call_room (event_calls ev @ cs) a"
    and serial: "\<And>now input. ev = PostAppend now input \<Longrightarrow> in_flight sys = []"
  shows "\<exists>a'. rel (storage (coord sys')) a' \<and> exact sys' (sp_messages a') \<and> call_room cs a'"
proof -
  note c = rel_contiguous [OF rel]
  show ?thesis
  proof (cases ev)
    case (PostAppend now input)
    let ?p = "append_params now input"
    from room PostAppend have room': "call_room (AppendGroupMessage ?p # cs) a" by simp
    then have cr: "cursor_room (ap_group_id ?p) a" using call_room_admissible by fastforce
    obtain r s' where call: "so_append_group_message ops ?p (storage (coord sys)) = (r, s')" by force
    from rel cr call show ?thesis
    proof (cases rule: append_outcome)
      case (appended m)
      with st PostAppend call have "sys' = sys\<lparr>coord := (coord sys)\<lparr>storage := s'\<rparr>, in_flight := in_flight sys @ [m]\<rparr>"
        by (simp add: on_storage_def)
      with appended exact_append [OF c ex serial [OF PostAppend] appended(2), of "(coord sys)\<lparr>storage := s'\<rparr>"]
        call_room_step [OF room', unfolded exec_spec_append] show ?thesis
        by (intro exI [of _ "snd (spec_append_group_message ?p a)"]) simp
    next
      case (failed e)
      with st PostAppend call have "sys' = sys\<lparr>coord := (coord sys)\<lparr>storage := s'\<rparr>\<rparr>" by (simp add: on_storage_def)
      with failed exact_coord [OF ex, of "(coord sys)\<lparr>storage := s'\<rparr>"] call_room_skip [OF room']
      show ?thesis by (intro exI [of _ a]) simp
    qed
  next
    case (PostPublish n)
    then have n: "n < length (in_flight sys)" using st by (simp split: if_splits)
    have "one_post sys (sp_messages a)" using ex by (simp add: exact_def)
    with n obtain m where m: "in_flight sys = [m]" "n = 0" by (auto simp: one_post_def)
    then have "sys' = on_inner (publish_live m) sys\<lparr>in_flight := []\<rparr>"
      using st PostPublish by (simp add: vec_remove_def)
    with exact_publish [OF c ex own m(1)] rel room PostPublish show ?thesis
      by (intro exI [of _ a]) (simp add: on_inner_def)
  next
    case (SubscribeOne g)
    obtain h co where s: "subscribe_group_messages g (coord sys) = (h, co)" by force
    then have "storage co = storage (coord sys)"
      by (auto simp: subscribe_group_messages_def Let_def split: prod.splits)
    with exact_subscribe_one [OF ex c own st [unfolded SubscribeOne]] st rel room SubscribeOne s show ?thesis
      by (intro exI [of _ a]) auto
  next
    case (OpenMany gs)
    have "storage (coord sys') = storage (coord sys)"
      using st OpenMany by (auto simp: on_inner_def split: prod.splits)
    with exact_open_many [OF ex c own] st rel room OpenMany show ?thesis by (intro exI [of _ a]) simp
  next
    case (OpenFetch i)
    with st obtain w where w: "map_of (setups sys) i = Some w" "op_backlog w = None"
      by (auto split: option.splits if_splits)
    have h: "map_of (handles sys) i = None" using own w by (auto simp: owners_ok_def)
    obtain r s' where call: "so_fetch_many_group_messages ops (op_groups w) (storage (coord sys)) = (r, s')" by force
    let ?co = "(coord sys)\<lparr>storage := s'\<rparr>"
    from rel call show ?thesis
    proof (cases rule: fetch_outcome)
      case fetched
      with st OpenFetch w call exact_fetched [OF ex c w(1) h, of ?co, OF _ refl w(2)] room
      show ?thesis by (intro exI [of _ a]) (auto simp: on_storage_def)
    next
      case (failed e)
      with st OpenFetch w call have sys': "sys' = sys\<lparr>coord := drop_subscriber i (op_gids w) ?co,
          setups := AList.delete i (setups sys)\<rparr>" by (simp add: on_storage_def)
      have "exact sys' (sp_messages a)"
        by (rule exact_dropped [OF ex own, where i = i and gids = "op_gids w" and co = ?co])
          (use w in \<open>simp_all add: sys' owned_def map_of_delete\<close>)
      moreover have "storage (coord sys') = s'" by (simp add: sys' drop_subscriber_def Let_def)
      ultimately show ?thesis using failed room OpenFetch by (intro exI [of _ a]) simp
    qed
  next
    case (OpenFinish i)
    with st obtain w b where w: "map_of (setups sys) i = Some w" "op_backlog w = Some b"
      by (auto split: option.splits)
    with exact_finished [OF ex c w own] st OpenFinish rel room show ?thesis
      by (intro exI [of _ a]) (auto simp: on_inner_def)
  next
    case (Unsubscribe i)
    with st obtain h where h: "map_of (handles sys) i = Some h" by (auto split: option.splits)
    have hid: "subscriber_id (subscription h) = i" "map_of (setups sys) i = None"
      using own h by (auto simp: owners_ok_def)
    show ?thesis
    proof (cases "unsubscribed (subscription h)")
      case True
      with st Unsubscribe h have sys': "sys' = sys\<lparr>handles := AList.update i h (handles sys)\<rparr>"
        by (auto simp: unsubscribe_def)
      have "exact sys' (sp_messages a)"
        by (rule exact_at [OF ex, of _ i]) (use True h hid in \<open>auto simp: sys' map_of_update\<close>)
      with rel room Unsubscribe show ?thesis by (intro exI [of _ a]) (simp add: sys')
    next
      case False
      with st Unsubscribe h hid have sys': "sys' = sys\<lparr>coord := drop_subscriber i (group_ids (subscription h)) (coord sys),
          handles := AList.update i (h\<lparr>subscription := (subscription h)\<lparr>unsubscribed := True\<rparr>\<rparr>) (handles sys)\<rparr>"
        by (auto simp: unsubscribe_def)
      have "exact sys' (sp_messages a)"
        by (rule exact_dropped [OF ex own, where i = i and gids = "group_ids (subscription h)" and co = "coord sys"])
          (use False h hid in \<open>simp_all add: sys' owned_def map_of_update\<close>)
      with rel room Unsubscribe show ?thesis
        by (intro exI [of _ a]) (simp add: sys' drop_subscriber_def Let_def)
    qed
  next
    case (StorageCall cl)
    then have na: "\<not> is_append cl" using st by (simp split: if_splits)
    from room StorageCall have room': "call_room (cl # cs) a" by simp
    obtain r s' where call: "exec ops cl (storage (coord sys)) = (r, s')" by force
    with st StorageCall na have sys': "sys' = sys\<lparr>coord := (coord sys)\<lparr>storage := s'\<rparr>\<rparr>" by (simp add: on_storage_def)
    have "rel s' (snd (exec spec_ops cl a)) \<or> rel s' a"
      using exec_refines [OF rel call_room_admissible [OF room']] call by (auto simp: refines_def)
    then show ?thesis
      using exact_coord [OF ex, of "(coord sys)\<lparr>storage := s'\<rparr>"] call_room_step [OF room'] call_room_skip [OF room']
        exec_spec_messages [OF na, of a] by (auto simp: sys')
  qed
qed

lemma exact_run:
  assumes "rel (storage (coord sys)) a" "owners_ok sys" "exact sys (sp_messages a)"
    "call_room (concat (map event_calls evs)) a" "posts_serialized ops evs sys"
    "run_events ops evs sys = Some sys'"
  shows "\<exists>a'. rel (storage (coord sys')) a' \<and> exact sys' (sp_messages a') \<and> owners_ok sys'"
  using assms
proof (induction evs arbitrary: sys a)
  case (Cons ev evs)
  then obtain sys1 where s1: "step ops ev sys = Some sys1" "run_events ops evs sys1 = Some sys'"
    by (auto split: option.splits)
  have serial: "in_flight sys = []" if "ev = PostAppend now input" for now input
    using Cons.prems(5) that by simp
  have "call_room (event_calls ev @ concat (map event_calls evs)) a" using Cons.prems(4) by simp
  from exact_step [OF Cons.prems(1-3) s1(1) this] serial
  obtain a1 where "rel (storage (coord sys1)) a1" "exact sys1 (sp_messages a1)"
    "call_room (concat (map event_calls evs)) a1" by blast
  moreover have "posts_serialized ops evs sys1" using Cons.prems(5) s1(1) by simp
  ultimately show ?case using Cons.IH owners_ok_step [OF Cons.prems(2) s1(1)] s1(2) by blast
qed auto

lemma system_new_storage [simp]: "coord (system_new co) = co"
  by (simp add: system_new_def)

text \<open>
  A multi-group subscription has received, per group, what fetching that group from the cursor
  it asked for returns now.
\<close>

lemma merged_exactly_once:
  assumes start: "rel (storage co) a" "inner co = SubscriberRegistry_new" "call_room (concat (map event_calls evs)) a"
    and run: "posts_serialized ops evs (system_new co)" "run_events ops evs (system_new co) = Some sys"
    and quiet: "in_flight sys = []"
    and h: "map_of (handles sys) i = Some h" "\<not> unsubscribed (subscription h)" "request h = Some gs"
      "distinct_groups gs" "x \<in> set gs"
    and fetch: "fst (so_fetch_group_messages ops (fg_group_id x) (after_cursor x) (storage (coord sys))) = Inr log"
  shows "group_log (fg_group_id x) (channel_contents i (coord sys)) = log"
proof -
  let ?g = "fg_group_id x"
  obtain a' where a': "rel (storage (coord sys)) a'" "exact sys (sp_messages a')" "owners_ok sys"
    using exact_run [OF _ owners_ok_new [OF start(2)] exact_new start(3) run] start(1) by auto
  note c = rel_contiguous [OF a'(1)]
  have log: "log = log_after ?g (after_cursor x) (sp_messages a')"
    using fetch_group_messages [OF a'(1), of ?g "after_cursor x"] fetch
    by (auto simp: refines_def spec_fetch_group_messages_def)
  have "map_of (setups sys) i = None" using a'(3) h(1) by (auto simp: owners_ok_def)
  then have "owned sys i = Some (group_ids (subscription h))" using h by (simp add: owned_def)
  then obtain sub where sub: "subscriber sys i = Some sub"
    using a'(3) unfolding owners_ok_def by (metis entry_ok.simps(2) option.exhaust)
  have "handle_ok (sp_messages a') (published_upto sys (sp_messages a')) h sub"
    using a'(2) h sub unfolding exact_def by (blast intro: delivered_okD(3))
  then have "merged_ok (sp_messages a') (published_upto sys (sp_messages a')) gs (group_ids (subscription h)) sub"
    and gids: "group_ids (subscription h) = map fst (cursors_loop gs [])"
    using h by (auto simp: handle_ok_def)
  moreover have "?g \<in> set (group_ids (subscription h))"
    using h(5) set_cursors_loop [of gs "[]"] by (simp add: gids)
  ultimately obtain n where "published_upto sys (sp_messages a') ?g \<le> n" "n \<le> log_size ?g (sp_messages a')"
    "group_log ?g (sender sub) = interval (sp_messages a') ?g (requested_after gs ?g) n"
    unfolding merged_ok_def by blast
  moreover have "published_upto sys (sp_messages a') ?g = log_size ?g (sp_messages a')"
    using quiet by (simp add: published_upto_def)
  ultimately show ?thesis
    unfolding log log_after_interval [OF c]
    by (simp add: channel_contents_def sub requested_after_distinct [OF h(4,5)])
qed

end

end
