(* ===== verification/In_Memory.thy ===== *)
theory In_Memory
  imports Storage_Calls
begin

text \<open>
  The in-memory backend, \<^verbatim>\<open>crates/cordn-core/src/storage/in_memory.rs\<close>: the state behind the
  mutex (\<open>InMemoryInner\<close>), one operation per trait method, and the proof that it is a
  \<open>coordinator_storage\<close>. Each method holds the mutex from its first to its last access, so a
  method is one function of the state; \<open>fetch_many_pending_join_requests\<close> takes the lock once per
  group and is the composition of its single-group fetches.
\<close>

section \<open>State\<close>

record GroupLog =
  next_cursor :: i64
  messages :: "GroupMessageRecord list"

definition GroupLog_new :: GroupLog where
  "GroupLog_new = \<lparr>next_cursor = 1, messages = []\<rparr>"

record 'j InMemoryInner =
  key_packages_by_identity :: "(string \<times> 'j PublishedKeyPackageRecord list) list"
  welcomes_by_identity :: "(string \<times> WelcomeQueueRecord list) list"
  join_requests_by_group :: "(string \<times> JoinRequestRecord list) list"
  groups :: "(string \<times> GroupLog) list"

definition InMemoryInner_default :: "'j InMemoryInner" where
  "InMemoryInner_default = \<lparr>key_packages_by_identity = [], welcomes_by_identity = [],
     join_requests_by_group = [], groups = []\<rparr>"

record 'j Located =
  loc_stable_pubkey :: string
  loc_index :: usize
  loc_record :: "'j PublishedKeyPackageRecord"

section \<open>Key packages\<close>

fun locate_by_ref :: "(string \<times> 'j PublishedKeyPackageRecord list) list \<Rightarrow> string \<Rightarrow>
    'j Located option" where
  "locate_by_ref [] x = None"
| "locate_by_ref ((pk, records) # rest) x =
     (case position (\<lambda>r. key_package_ref r = x) records of
        Some i \<Rightarrow> Some \<lparr>loc_stable_pubkey = pk, loc_index = i, loc_record = records ! i\<rparr>
      | None \<Rightarrow> locate_by_ref rest x)"

definition mem_publish_key_package ::
    "'j PublishedKeyPackageRecord \<Rightarrow> ('j InMemoryInner, 'j PublishedKeyPackageRecord) sop" where
  "mem_publish_key_package record inner =
     (Inr record, inner\<lparr>key_packages_by_identity :=
        entry_push (stable_pubkey record) record (key_packages_by_identity inner)\<rparr>)"

definition mem_list_key_packages_for_identity ::
    "string \<Rightarrow> ('j InMemoryInner, 'j PublishedKeyPackageRecord list) sop" where
  "mem_list_key_packages_for_identity pk inner =
     (Inr (get_or_default (key_packages_by_identity inner) pk), inner)"

definition mem_list_all_key_packages ::
    "('j InMemoryInner, 'j PublishedKeyPackageRecord list) sop" where
  "mem_list_all_key_packages inner = (Inr (concat (map snd (key_packages_by_identity inner))), inner)"

definition mem_get_key_package ::
    "string \<Rightarrow> ('j InMemoryInner, 'j PublishedKeyPackageRecord option) sop" where
  "mem_get_key_package x inner =
     (Inr (map_option loc_record (locate_by_ref (key_packages_by_identity inner) x)), inner)"

text \<open>
  \<^verbatim>\<open>get_mut(pk)\<close>, \<^verbatim>\<open>remove(index)\<close>, then \<^verbatim>\<open>shift_remove(pk)\<close> if the vector became empty. The
  \<^verbatim>\<open>expect\<close> of the source is discharged by \<open>locate_by_ref_SomeD\<close>: the key is present.
\<close>

definition remove_record_at :: "string \<Rightarrow> usize \<Rightarrow>
    (string \<times> 'j PublishedKeyPackageRecord list) list \<Rightarrow>
    (string \<times> 'j PublishedKeyPackageRecord list) list" where
  "remove_record_at pk i m = put_or_shift_remove pk (vec_remove i (get_or_default m pk)) m"

definition mem_remove_key_package ::
    "string \<Rightarrow> ('j InMemoryInner, 'j PublishedKeyPackageRecord option) sop" where
  "mem_remove_key_package x inner =
     (case locate_by_ref (key_packages_by_identity inner) x of
        None \<Rightarrow> (Inr None, inner)
      | Some loc \<Rightarrow>
          (Inr (Some (loc_record loc)), inner\<lparr>key_packages_by_identity :=
             remove_record_at (loc_stable_pubkey loc) (loc_index loc)
               (key_packages_by_identity inner)\<rparr>))"

definition mem_consume_key_package ::
    "string \<Rightarrow> ('j InMemoryInner, 'j PublishedKeyPackageRecord option) sop" where
  "mem_consume_key_package identifier inner =
     (let kps = key_packages_by_identity inner in
      case locate_by_ref kps identifier of
        Some loc \<Rightarrow>
          (Inr (Some (loc_record loc)),
           if \<not> is_last_resort (loc_record loc)
           then inner\<lparr>key_packages_by_identity :=
                  remove_record_at (loc_stable_pubkey loc) (loc_index loc) kps\<rparr>
           else inner)
      | None \<Rightarrow>
          (case Option.bind (map_of kps identifier) (position (\<lambda>r. \<not> is_last_resort r)) of
             Some index \<Rightarrow>
               (Inr (Some (get_or_default kps identifier ! index)),
                inner\<lparr>key_packages_by_identity := remove_record_at identifier index kps\<rparr>)
           | None \<Rightarrow> (Inr (Option.bind (map_of kps identifier) last_opt), inner)))"

section \<open>Welcomes\<close>

definition mem_store_welcome :: "WelcomeQueueRecord \<Rightarrow> ('j InMemoryInner, WelcomeQueueRecord) sop"
  where
  "mem_store_welcome record inner =
     (Inr record, inner\<lparr>welcomes_by_identity :=
        entry_push (target_stable_pubkey record) record (welcomes_by_identity inner)\<rparr>)"

definition mem_fetch_pending_welcomes ::
    "string \<Rightarrow> ConsumedWelcomeRef list \<Rightarrow> ('j InMemoryInner, WelcomeQueueRecord list) sop" where
  "mem_fetch_pending_welcomes target consumed inner =
     (case map_of (welcomes_by_identity inner) target of
        None \<Rightarrow> (Inr [], inner)
      | Some records \<Rightarrow>
          (let out = (if consumed \<noteq> [] then filter (\<lambda>r. \<not> welcome_consumed consumed r) records
                      else records)
           in (Inr out, inner\<lparr>welcomes_by_identity :=
                 put_or_shift_remove target out (welcomes_by_identity inner)\<rparr>)))"

text \<open>One pass over the map: the kept records of every key, the number dropped, the emptied keys.\<close>

fun expire_loop :: "('v \<Rightarrow> bool) \<Rightarrow> (string \<times> 'v list) list \<Rightarrow>
    (string \<times> 'v list) list \<times> usize \<times> string list" where
  "expire_loop keep [] = ([], 0, [])"
| "expire_loop keep ((k, records) # rest) =
     (let kept = filter keep records;
          (rest', deleted, empty_keys) = expire_loop keep rest
      in ((k, kept) # rest', (length records - length kept) + deleted,
          if kept = [] then k # empty_keys else empty_keys))"

definition expire :: "('v \<Rightarrow> bool) \<Rightarrow> (string \<times> 'v list) list \<Rightarrow>
    usize \<times> (string \<times> 'v list) list" where
  "expire keep m =
     (let (m', deleted, empty_keys) = expire_loop keep m
      in (deleted, fold AList.delete empty_keys m'))"

definition mem_delete_expired_welcomes :: "i64 \<Rightarrow> ('j InMemoryInner, usize) sop" where
  "mem_delete_expired_welcomes th inner =
     (if th \<le> 0 then (Inr 0, inner)
      else let (deleted, m) = expire (\<lambda>r. th \<le> w_created_at r) (welcomes_by_identity inner)
           in (Inr deleted, inner\<lparr>welcomes_by_identity := m\<rparr>))"

section \<open>Join requests\<close>

definition mem_store_join_request ::
    "JoinRequestRecord \<Rightarrow> ('j InMemoryInner, JoinRequestRecord) sop" where
  "mem_store_join_request record inner =
     (let m = join_requests_by_group inner; g = jr_group_id record in
      case Option.bind (map_of m g)
             (position (\<lambda>r. requester_stable_pubkey r = requester_stable_pubkey record)) of
        Some i \<Rightarrow>
          (let records = get_or_default m g
           in (Inr record, inner\<lparr>join_requests_by_group :=
                 AList.update g (records[i := refresh_request record (records ! i)]) m\<rparr>))
      | None \<Rightarrow>
          (let records = get_or_default m g
           in if MAX_PENDING_JOIN_REQUESTS_PER_GROUP \<le> length records
              then (Inl TooManyPendingJoinRequests,
                    inner\<lparr>join_requests_by_group := AList.update g records m\<rparr>)
              else (Inr record,
                    inner\<lparr>join_requests_by_group := AList.update g (records @ [record]) m\<rparr>)))"

definition mem_fetch_pending_join_requests ::
    "string \<Rightarrow> ConsumedJoinRequestRef list \<Rightarrow> ('j InMemoryInner, JoinRequestRecord list) sop" where
  "mem_fetch_pending_join_requests g consumed inner =
     (case map_of (join_requests_by_group inner) g of
        None \<Rightarrow> (Inr [], inner)
      | Some records \<Rightarrow>
          (let out = (if consumed \<noteq> [] then filter (\<lambda>r. \<not> join_request_consumed consumed r) records
                      else records)
           in (Inr out, inner\<lparr>join_requests_by_group :=
                 put_or_shift_remove g out (join_requests_by_group inner)\<rparr>)))"

fun mem_fetch_many_loop :: "(string \<times> ConsumedJoinRequestRef list) list \<Rightarrow> string list \<Rightarrow>
    JoinRequestRecord list \<Rightarrow> ('j InMemoryInner, JoinRequestRecord list) sop" where
  "mem_fetch_many_loop by_group [] out inner = (Inr out, inner)"
| "mem_fetch_many_loop by_group (g # gs) out inner =
     (case mem_fetch_pending_join_requests g (get_or_default by_group g) inner of
        (Inl e, inner') \<Rightarrow> (Inl e, inner')
      | (Inr rs, inner') \<Rightarrow> mem_fetch_many_loop by_group gs (out @ rs) inner')"

definition mem_fetch_many_pending_join_requests ::
    "string list \<Rightarrow> ConsumedJoinRequestWithGroupRef list \<Rightarrow>
     ('j InMemoryInner, JoinRequestRecord list) sop" where
  "mem_fetch_many_pending_join_requests gs consumed inner =
     mem_fetch_many_loop (partition_consumed_join_requests consumed) gs [] inner"

definition mem_delete_expired_join_requests :: "i64 \<Rightarrow> ('j InMemoryInner, usize) sop" where
  "mem_delete_expired_join_requests th inner =
     (if th \<le> 0 then (Inr 0, inner)
      else let (deleted, m) = expire (\<lambda>r. th \<le> jr_created_at r) (join_requests_by_group inner)
           in (Inr deleted, inner\<lparr>join_requests_by_group := m\<rparr>))"

section \<open>Group messages\<close>

definition mem_append_group_message ::
    "AppendGroupMessageParams \<Rightarrow> ('j InMemoryInner, GroupMessageRecord) sop" where
  "mem_append_group_message params inner =
     (let g = ap_group_id params;
          log = unwrap_or GroupLog_new (map_of (groups inner) g);
          c = next_cursor log;
          record = \<lparr>cursor = c, gm_group_id = g, opaque_message = ap_opaque_message params,
                    gm_created_at = ap_created_at params\<rparr>
      in (Inr record, inner\<lparr>groups :=
            AList.update g \<lparr>next_cursor = wrap64 (c + 1), messages = messages log @ [record]\<rparr>
              (groups inner)\<rparr>))"

definition mem_messages_after :: "'j InMemoryInner \<Rightarrow> string \<Rightarrow> i64 option \<Rightarrow>
    GroupMessageRecord list" where
  "mem_messages_after inner g after =
     (let ac = unwrap_or 0 after
      in unwrap_or [] (map_option (\<lambda>log. filter (\<lambda>m. ac < cursor m) (messages log))
           (map_of (groups inner) g)))"

definition mem_fetch_group_messages ::
    "string \<Rightarrow> i64 option \<Rightarrow> ('j InMemoryInner, GroupMessageRecord list) sop" where
  "mem_fetch_group_messages g after inner = (Inr (mem_messages_after inner g after), inner)"

definition mem_fetch_many_group_messages ::
    "FetchGroupMessagesInput list \<Rightarrow> ('j InMemoryInner, GroupMessageRecord list) sop" where
  "mem_fetch_many_group_messages gs inner =
     (Inr (concat (map (\<lambda>g. mem_messages_after inner (fg_group_id g) (after_cursor g)) gs)), inner)"

section \<open>The method table\<close>

definition mem_ops :: "('j InMemoryInner, 'j) CoordinatorStorage" where
  "mem_ops = \<lparr>
     so_publish_key_package = mem_publish_key_package,
     so_list_key_packages_for_identity = mem_list_key_packages_for_identity,
     so_list_all_key_packages = mem_list_all_key_packages,
     so_get_key_package = mem_get_key_package,
     so_remove_key_package = mem_remove_key_package,
     so_consume_key_package = mem_consume_key_package,
     so_store_welcome = mem_store_welcome,
     so_fetch_pending_welcomes = mem_fetch_pending_welcomes,
     so_delete_expired_welcomes = mem_delete_expired_welcomes,
     so_store_join_request = mem_store_join_request,
     so_fetch_pending_join_requests = mem_fetch_pending_join_requests,
     so_fetch_many_pending_join_requests = mem_fetch_many_pending_join_requests,
     so_delete_expired_join_requests = mem_delete_expired_join_requests,
     so_append_group_message = mem_append_group_message,
     so_fetch_group_messages = mem_fetch_group_messages,
     so_fetch_many_group_messages = mem_fetch_many_group_messages\<rparr>"

text \<open>The abstract states an in-memory state stands for.\<close>

definition mem_log_rel :: "GroupLog option \<Rightarrow> GroupMessageRecord list \<Rightarrow> bool" where
  "mem_log_rel l ms \<longleftrightarrow>
     (case l of None \<Rightarrow> ms = []
      | Some log \<Rightarrow> messages log = ms \<and> next_cursor log = int (length ms) + 1)"

definition mem_rel :: "'j InMemoryInner \<Rightarrow> 'j spec_state \<Rightarrow> bool" where
  "mem_rel s a \<longleftrightarrow>
     spec_inv a \<and>
     multimap_ok (key_packages_by_identity s) \<and>
     multimap_ok (welcomes_by_identity s) \<and>
     multimap_ok (join_requests_by_group s) \<and>
     (\<forall>pk. get_or_default (key_packages_by_identity s) pk =
        filter (\<lambda>r. stable_pubkey r = pk) (sp_key_packages a)) \<and>
     (\<forall>t. get_or_default (welcomes_by_identity s) t =
        filter (\<lambda>r. target_stable_pubkey r = t) (sp_welcomes a)) \<and>
     (\<forall>g. get_or_default (join_requests_by_group s) g = group_requests g (sp_join_requests a)) \<and>
     (\<forall>g. mem_log_rel (map_of (groups s) g) (group_log g (sp_messages a)))"

abbreviation mem_refines where
  "mem_refines eq m f s a \<equiv> refines eq mem_rel (\<lambda>_. True) m f s a"

section \<open>Locating a reference\<close>

lemma locate_by_ref_None:
  "locate_by_ref m x = None \<longleftrightarrow> (\<forall>vs \<in> snd ` set m. \<forall>r \<in> set vs. key_package_ref r \<noteq> x)"
  by (induction m x rule: locate_by_ref.induct)
    (auto split: option.splits dest: position_Some_ex simp: position_eq_None)

lemma locate_by_ref_SomeD:
  "locate_by_ref m x = Some loc \<Longrightarrow>
     \<exists>vs. (loc_stable_pubkey loc, vs) \<in> set m \<and>
       position (\<lambda>r. key_package_ref r = x) vs = Some (loc_index loc) \<and>
       loc_record loc = vs ! loc_index loc"
proof (induction m x rule: locate_by_ref.induct)
  case (2 pk records rest x)
  then show ?case
    by (cases "position (\<lambda>r. key_package_ref r = x) records") auto
qed simp

lemma mem_rel_kp_get:
  "mem_rel s a \<Longrightarrow> get_or_default (key_packages_by_identity s) pk =
     filter (\<lambda>r. stable_pubkey r = pk) (sp_key_packages a)"
  by (simp add: mem_rel_def)

text \<open>Where a reference is found, and what removing at that position leaves.\<close>

lemma locate_Some:
  assumes rel: "mem_rel s a"
    and loc: "locate_by_ref (key_packages_by_identity s) x = Some loc"
  shows "find (\<lambda>r. key_package_ref r = x) (sp_key_packages a) = Some (loc_record loc)"
    and "key_package_ref (loc_record loc) = x"
    and "position (\<lambda>r. key_package_ref r = x)
           (get_or_default (key_packages_by_identity s) (loc_stable_pubkey loc)) = Some (loc_index loc)"
    and "stable_pubkey (loc_record loc) = loc_stable_pubkey loc"
    and "loc_record loc =
           get_or_default (key_packages_by_identity s) (loc_stable_pubkey loc) ! loc_index loc"
proof -
  from locate_by_ref_SomeD [OF loc] obtain vs where
    vs: "(loc_stable_pubkey loc, vs) \<in> set (key_packages_by_identity s)"
    and pos: "position (\<lambda>r. key_package_ref r = x) vs = Some (loc_index loc)"
    and rcd: "loc_record loc = vs ! loc_index loc" by blast
  have get: "get_or_default (key_packages_by_identity s) (loc_stable_pubkey loc) = vs"
    using rel vs by (auto simp: mem_rel_def multimap_ok_def get_or_default_def)
  with pos show "position (\<lambda>r. key_package_ref r = x)
      (get_or_default (key_packages_by_identity s) (loc_stable_pubkey loc)) = Some (loc_index loc)"
    by simp
  show "loc_record loc =
      get_or_default (key_packages_by_identity s) (loc_stable_pubkey loc) ! loc_index loc"
    using rcd get by simp
  from pos rcd have "loc_record loc \<in> set vs" and ref: "key_package_ref (loc_record loc) = x"
    by (auto dest: position_SomeD)
  then have mem: "loc_record loc \<in> set (sp_key_packages a)"
    and "stable_pubkey (loc_record loc) = loc_stable_pubkey loc"
    using mem_rel_kp_get [OF rel, of "loc_stable_pubkey loc"] get by auto
  then show "stable_pubkey (loc_record loc) = loc_stable_pubkey loc" by simp
  show "key_package_ref (loc_record loc) = x" by (fact ref)
  show "find (\<lambda>r. key_package_ref r = x) (sp_key_packages a) = Some (loc_record loc)"
    using find_unique [of key_package_ref "sp_key_packages a" "loc_record loc"] rel mem ref
    by (simp add: mem_rel_def spec_inv_def)
qed

lemma locate_None:
  assumes rel: "mem_rel s a"
    and loc: "locate_by_ref (key_packages_by_identity s) x = None"
  shows "find (\<lambda>r. key_package_ref r = x) (sp_key_packages a) = None"
proof -
  have "key_package_ref r \<noteq> x" if "r \<in> set (sp_key_packages a)" for r
  proof -
    let ?vs = "get_or_default (key_packages_by_identity s) (stable_pubkey r)"
    have r: "r \<in> set ?vs" using mem_rel_kp_get [OF rel] that by simp
    then have "map_of (key_packages_by_identity s) (stable_pubkey r) = Some ?vs"
      by (cases "map_of (key_packages_by_identity s) (stable_pubkey r)")
        (auto simp: get_or_default_def)
    then have "?vs \<in> snd ` set (key_packages_by_identity s)" by (force dest: map_of_SomeD)
    with r loc show ?thesis unfolding locate_by_ref_None by blast
  qed
  then show ?thesis by (auto simp: find_None_iff)
qed

text \<open>Removing the first match of \<open>p\<close> in one identity's vector is dropping that record's reference.\<close>

lemma mem_rel_remove_record:
  assumes rel: "mem_rel s a"
    and pos: "position p (get_or_default (key_packages_by_identity s) pk) = Some i"
    and r: "r = get_or_default (key_packages_by_identity s) pk ! i"
  shows "mem_rel (s\<lparr>key_packages_by_identity :=
           remove_record_at pk i (key_packages_by_identity s)\<rparr>) (spec_drop_ref (key_package_ref r) a)"
proof -
  let ?kps = "sp_key_packages a" and ?m = "key_packages_by_identity s"
  let ?mine = "filter (\<lambda>r. stable_pubkey r = pk) ?kps"
  have dist: "distinct (map key_package_ref ?kps)" using rel by (simp add: mem_rel_def spec_inv_def)
  have mine: "get_or_default ?m pk = ?mine" by (rule mem_rel_kp_get [OF rel])
  have fnd: "find p ?mine = Some r" using position_SomeD [OF pos] r mine by simp
  then have rk: "r \<in> set ?kps" "stable_pubkey r = pk" by (auto dest: find_SomeD)
  have "vec_remove i (get_or_default ?m pk) = remove_first p ?mine"
    using vec_remove_position [OF pos] mine by simp
  also have "\<dots> = filter (\<lambda>y. key_package_ref y \<noteq> key_package_ref r) ?mine"
    using remove_first_find [OF _ fnd, of key_package_ref] dist by (simp add: distinct_map_filter)
  finally have rem: "vec_remove i (get_or_default ?m pk) =
    filter (\<lambda>y. key_package_ref y \<noteq> key_package_ref r) ?mine" .
  have other: "filter (\<lambda>y. stable_pubkey y = q) (filter (\<lambda>y. key_package_ref y \<noteq> key_package_ref r) ?kps)
      = filter (\<lambda>y. stable_pubkey y = q) ?kps" if "q \<noteq> pk" for q
    unfolding filter_filter
    by (rule filter_cong) (use that rk dist in \<open>auto dest: distinct_map_filter_eq\<close>)
  have "get_or_default (remove_record_at pk i ?m) q =
      filter (\<lambda>y. stable_pubkey y = q) (filter (\<lambda>y. key_package_ref y \<noteq> key_package_ref r) ?kps)" for q
    using rem other [of q] mem_rel_kp_get [OF rel, of q]
    by (auto simp: remove_record_at_def get_or_default_put conj_commute)
  moreover have "spec_inv (spec_drop_ref (key_package_ref r) a)"
    using rel by (simp add: mem_rel_def spec_inv_drop_ref)
  ultimately show ?thesis
    using rel by (simp add: mem_rel_def spec_drop_ref_def remove_record_at_def multimap_ok_put)
qed

section \<open>Key packages refine the specification\<close>

lemma mem_publish_refines:
  assumes "mem_rel s a" "fresh_ref r a"
  shows "mem_refines (=) (mem_publish_key_package r) (spec_publish_key_package r) s a"
  using assms spec_inv_publish [of a r]
  by (auto intro!: refinesI simp: mem_publish_key_package_def spec_publish_key_package_def
      mem_rel_def storage_simps)

lemma mem_list_identity_refines:
  assumes "mem_rel s a"
  shows "mem_refines (=) (mem_list_key_packages_for_identity pk)
    (spec_list_key_packages_for_identity pk) s a"
  using assms by (auto intro!: refinesI simp: mem_list_key_packages_for_identity_def
      spec_list_key_packages_for_identity_def mem_rel_kp_get)

lemma mem_list_all_refines:
  assumes "mem_rel s a"
  shows "mem_refines same_elements mem_list_all_key_packages spec_list_all_key_packages s a"
proof -
  have "mset (concat (map snd (key_packages_by_identity s))) = mset (sp_key_packages a)"
    using assms by (intro mset_concat_multimap) (auto simp: mem_rel_def)
  with assms show ?thesis
    by (auto intro!: refinesI simp: mem_list_all_key_packages_def spec_list_all_key_packages_def
        same_elements_def)
qed

lemma mem_get_refines:
  assumes "mem_rel s a"
  shows "mem_refines (=) (mem_get_key_package x) (spec_get_key_package x) s a"
proof (cases "locate_by_ref (key_packages_by_identity s) x")
  case None
  with assms show ?thesis
    by (auto intro!: refinesI simp: mem_get_key_package_def spec_get_key_package_def locate_None)
next
  case (Some loc)
  with assms show ?thesis
    by (auto intro!: refinesI simp: mem_get_key_package_def spec_get_key_package_def locate_Some)
qed

lemma mem_remove_refines:
  assumes rel: "mem_rel s a"
  shows "mem_refines (=) (mem_remove_key_package x) (spec_remove_key_package x) s a"
proof (cases "locate_by_ref (key_packages_by_identity s) x")
  case None
  note find = locate_None [OF rel None]
  then have "spec_drop_ref x a = a" by (simp add: spec_drop_ref_def filter_ne_id)
  with rel None find show ?thesis
    by (auto intro!: refinesI simp: mem_remove_key_package_def spec_remove_key_package_def)
next
  case (Some loc)
  note loc = locate_Some [OF rel Some]
  from mem_rel_remove_record [OF rel loc(3,5)] loc Some show ?thesis
    by (auto intro!: refinesI simp: mem_remove_key_package_def spec_remove_key_package_def)
qed

lemma mem_consume_by_ref:
  assumes rel: "mem_rel s a" and loc: "locate_by_ref (key_packages_by_identity s) x = Some loc"
  shows "mem_refines (=) (mem_consume_key_package x) (spec_consume_key_package x) s a"
proof -
  note facts = locate_Some [OF rel loc]
  show ?thesis
    using facts(1-4) loc rel mem_rel_remove_record [OF rel facts(3,5)]
    by (auto simp: refines_def mem_consume_key_package_def spec_consume_key_package_def
        spec_consume_choice_def spec_take_def)
qed

lemma map_of_bind_get_or_default:
  "(f [] = None) \<Longrightarrow> Option.bind (map_of m k) f = f (get_or_default m k)"
  by (cases "map_of m k") (auto simp: get_or_default_def)

lemma mem_consume_by_identity:
  assumes rel: "mem_rel s a" and loc: "locate_by_ref (key_packages_by_identity s) x = None"
  shows "mem_refines (=) (mem_consume_key_package x) (spec_consume_key_package x) s a"
proof -
  let ?vs = "get_or_default (key_packages_by_identity s) x"
  let ?regular = "\<lambda>r :: 'j PublishedKeyPackageRecord. \<not> is_last_resort r"
  have mine: "?vs = filter (\<lambda>r. stable_pubkey r = x) (sp_key_packages a)"
    by (rule mem_rel_kp_get [OF rel])
  have choice: "spec_consume_choice x (sp_key_packages a) =
      (case find ?regular ?vs of Some r \<Rightarrow> Some r | None \<Rightarrow> last_opt ?vs)"
    by (simp add: spec_consume_choice_def locate_None [OF rel loc] mine find_filter
        split: option.split)
  show ?thesis
  proof (cases "position ?regular ?vs")
    case None
    then have nr: "\<forall>r \<in> set ?vs. is_last_resort r" by (simp add: position_eq_None)
    then have "find ?regular ?vs = None" by (auto simp: find_None_iff)
    with choice have c: "spec_consume_choice x (sp_key_packages a) = last_opt ?vs" by simp
    have "spec_take r a = a" if "last_opt ?vs = Some r" for r
      using that nr by (auto simp: spec_take_def last_opt_def split: if_splits)
    with c None rel loc show ?thesis
      by (auto simp: refines_def mem_consume_key_package_def spec_consume_key_package_def
          map_of_bind_get_or_default split: option.split)
  next
    case (Some i)
    note pos = position_SomeD [OF Some]
    with choice have "spec_consume_choice x (sp_key_packages a) = Some (?vs ! i)" by simp
    with Some pos rel loc mem_rel_remove_record [OF rel Some refl] show ?thesis
      by (auto simp: refines_def mem_consume_key_package_def spec_consume_key_package_def
          map_of_bind_get_or_default spec_take_def Let_def)
  qed
qed

lemma mem_consume_refines:
  "mem_rel s a \<Longrightarrow> mem_refines (=) (mem_consume_key_package x) (spec_consume_key_package x) s a"
  by (cases "locate_by_ref (key_packages_by_identity s) x")
    (auto intro: mem_consume_by_ref mem_consume_by_identity)

section \<open>Welcomes refine the specification\<close>

lemma mem_store_welcome_refines:
  assumes "mem_rel s a"
  shows "mem_refines (=) (mem_store_welcome w) (spec_store_welcome w) s a"
  using assms spec_inv_welcomes [of a]
  by (auto intro!: refinesI simp: mem_store_welcome_def spec_store_welcome_def mem_rel_def
      storage_simps)

lemma filter_own_or_other:
  "filter (\<lambda>r. key r = k') (filter (\<lambda>r. key r = k \<longrightarrow> \<not> c r) xs) =
     (if k' = k then filter (\<lambda>r. \<not> c r) (filter (\<lambda>r. key r = k) xs)
      else filter (\<lambda>r. key r = k') xs)"
  by (induction xs) auto

lemma mem_fetch_welcomes_refines:
  assumes rel: "mem_rel s a"
  shows "mem_refines (=) (mem_fetch_pending_welcomes t c) (spec_fetch_pending_welcomes t c) s a"
proof -
  let ?ws = "filter (\<lambda>r. \<not> (target_stable_pubkey r = t \<and> welcome_consumed c r)) (sp_welcomes a)"
  have get: "get_or_default (welcomes_by_identity s) k =
      filter (\<lambda>r. target_stable_pubkey r = k) (sp_welcomes a)" for k
    using rel by (simp add: mem_rel_def)
  have inv: "spec_inv (a\<lparr>sp_welcomes := ?ws\<rparr>)" using rel by (simp add: mem_rel_def spec_inv_welcomes)
  show ?thesis
  proof (cases "map_of (welcomes_by_identity s) t")
    case None
    then have none: "filter (\<lambda>r. target_stable_pubkey r = t) (sp_welcomes a) = []"
      using get [of t] by (simp add: get_or_default_def)
    then have "?ws = sp_welcomes a" by (auto simp: filter_empty_conv intro!: filter_True)
    with None none rel show ?thesis
      by (auto intro!: refinesI
          simp: mem_fetch_pending_welcomes_def spec_fetch_pending_welcomes_def Let_def)
  next
    case (Some records)
    then have "records = filter (\<lambda>r. target_stable_pubkey r = t) (sp_welcomes a)"
      using get [of t] by (simp add: get_or_default_def)
    with Some inv rel show ?thesis
      by (auto intro!: refinesI simp: mem_fetch_pending_welcomes_def
          spec_fetch_pending_welcomes_def Let_def mem_rel_def storage_simps filter_own_or_other
          simp del: filter_filter)
  qed
qed

subsection \<open>Expiry\<close>

lemma expire_loop_eq:
  "expire_loop keep m =
     (map (\<lambda>(k, vs). (k, filter keep vs)) m,
      length (filter (\<lambda>v. \<not> keep v) (concat (map snd m))),
      map fst (filter (\<lambda>(k, vs). filter keep vs = []) m))"
  by (induction keep m rule: expire_loop.induct)
    (auto simp: sum_list_length_partition [symmetric] Let_def)

lemma expire_eq:
  assumes "distinct (map fst m)"
  shows "expire keep m = (length (filter (\<lambda>v. \<not> keep v) (concat (map snd m))),
    filter (\<lambda>(k, vs). vs \<noteq> []) (map (\<lambda>(k, vs). (k, filter keep vs)) m))"
proof -
  have "(\<exists>vs'. (k, vs') \<in> set m \<and> filter keep vs' = []) = (filter keep vs = [])"
    if "(k, vs) \<in> set m" for k vs
    using eq_key_imp_eq_value [OF assms that] that by blast
  then have "filter (\<lambda>(k, _). k \<notin> set (map fst (filter (\<lambda>(k, vs). filter keep vs = []) m)))
        (map (\<lambda>(k, vs). (k, filter keep vs)) m)
      = filter (\<lambda>(k, vs). vs \<noteq> []) (map (\<lambda>(k, vs). (k, filter keep vs)) m)"
    by (intro filter_cong) (auto simp: image_iff)
  then show ?thesis by (simp add: expire_def expire_loop_eq fold_delete Let_def)
qed

lemma get_or_default_kept:
  "distinct (map fst m) \<Longrightarrow>
   get_or_default (filter (\<lambda>(k, vs). vs \<noteq> []) (map (\<lambda>(k, vs). (k, filter keep vs)) m)) k =
     filter keep (get_or_default m k)"
proof (induction m)
  case (Cons kv m)
  show ?case
  proof (cases "fst kv = k")
    case True
    with Cons.prems have "map_of m k = None" by (auto simp: map_of_eq_None_iff)
    then have "get_or_default m k = []" by (simp add: get_or_default_def)
    with Cons True show ?thesis by (cases kv) (auto simp: get_or_default_def)
  next
    case False
    with Cons show ?thesis by (cases kv) (auto simp: get_or_default_def)
  qed
qed simp

lemma expire_correct:
  assumes ok: "multimap_ok m"
    and get: "\<And>k. get_or_default m k = filter (\<lambda>r. key r = k) xs"
    and exp: "expire keep m = (deleted, m')"
  shows "deleted = length (filter (\<lambda>r. \<not> keep r) xs)" and "multimap_ok m'"
    and "get_or_default m' k = filter (\<lambda>r. key r = k) (filter keep xs)"
proof -
  have dist: "distinct (map fst m)" using ok by (simp add: multimap_ok_def)
  have del: "deleted = length (filter (\<lambda>v. \<not> keep v) (concat (map snd m)))"
    and m': "m' = filter (\<lambda>(k, vs). vs \<noteq> []) (map (\<lambda>(k, vs). (k, filter keep vs)) m)"
    using exp expire_eq [OF dist, of keep] by auto
  have "mset (concat (map snd m)) = mset xs" by (rule mset_concat_multimap [OF ok get])
  then have "size (filter_mset (\<lambda>r. \<not> keep r) (mset (concat (map snd m)))) =
      size (filter_mset (\<lambda>r. \<not> keep r) (mset xs))" by simp
  then show "deleted = length (filter (\<lambda>r. \<not> keep r) xs)"
    unfolding del by (simp only: size_mset flip: mset_filter)
  have "distinct (map fst (map (\<lambda>(k, vs). (k, filter keep vs)) m))"
    using dist by (simp add: split_def comp_def)
  from distinct_map_filter [OF this] show "multimap_ok m'" by (auto simp: multimap_ok_def m')
  show "get_or_default m' k = filter (\<lambda>r. key r = k) (filter keep xs)"
    using get_or_default_kept [OF dist, of keep k] get [of k]
    by (simp add: m' conj_commute)
qed

lemma mem_delete_expired_welcomes_refines:
  assumes rel: "mem_rel s a"
  shows "mem_refines (=) (mem_delete_expired_welcomes th) (spec_delete_expired_welcomes th) s a"
proof -
  obtain d m where e: "expire (\<lambda>r. th \<le> w_created_at r) (welcomes_by_identity s) = (d, m)"
    by force
  note facts = expire_correct [where key = target_stable_pubkey and xs = "sp_welcomes a", OF _ _ e]
  show ?thesis
    using rel facts e
    by (auto simp: refines_def mem_delete_expired_welcomes_def spec_delete_expired_welcomes_def
        mem_rel_def spec_inv_welcomes not_le simp del: filter_filter)
qed

section \<open>Join requests refine the specification\<close>

lemma mem_rel_requests:
  "mem_rel s a \<Longrightarrow>
     get_or_default (join_requests_by_group s) g = group_requests g (sp_join_requests a)"
  by (simp add: mem_rel_def)

lemma mem_rel_set_requests:
  assumes "mem_rel s a" "multimap_ok m" "spec_inv (a\<lparr>sp_join_requests := rs\<rparr>)"
    and "\<And>g. get_or_default m g = group_requests g rs"
  shows "mem_rel (s\<lparr>join_requests_by_group := m\<rparr>) (a\<lparr>sp_join_requests := rs\<rparr>)"
  using assms by (simp add: mem_rel_def)

lemma position_requester:
  assumes "mem_rel s a"
  shows "(\<exists>i. position (\<lambda>x. requester_stable_pubkey x = requester_stable_pubkey r)
            (group_requests (jr_group_id r) (sp_join_requests a)) = Some i)
         \<longleftrightarrow> (\<exists>x \<in> set (sp_join_requests a). same_request r x)"
proof -
  have "position p xs \<noteq> None \<longleftrightarrow> (\<exists>x \<in> set xs. p x)" for p and xs :: "JoinRequestRecord list"
    by (simp add: position_eq_None)
  then show ?thesis by (auto simp: same_request_def)
qed

lemma distinct_requesters:
  assumes "distinct (map request_key rs)"
  shows "distinct (map requester_stable_pubkey (group_requests g rs))"
proof -
  have "distinct (map request_key (group_requests g rs))" by (rule distinct_map_filter [OF assms])
  then show ?thesis by (auto simp: distinct_map inj_on_def request_key_def)
qed

lemma group_requests_refresh:
  "group_requests g (map (\<lambda>x. if same_request r x then refresh_request r x else x) rs) =
     (if g = jr_group_id r
      then map (\<lambda>x. if requester_stable_pubkey x = requester_stable_pubkey r
                     then refresh_request r x else x) (group_requests g rs)
      else group_requests g rs)"
  by (induction rs) (auto simp: same_request_def)

lemma mem_store_join_request_refresh:
  assumes rel: "mem_rel s a" and old: "\<exists>x \<in> set (sp_join_requests a). same_request r x"
  shows "mem_refines (=) (mem_store_join_request r) (spec_store_join_request r) s a"
proof -
  let ?g = "jr_group_id r" and ?rs = "sp_join_requests a" and ?m = "join_requests_by_group s"
  let ?new = "map (\<lambda>x. if same_request r x then refresh_request r x else x) ?rs"
  obtain i where i: "position (\<lambda>x. requester_stable_pubkey x = requester_stable_pubkey r)
      (get_or_default ?m ?g) = Some i"
    using position_requester [OF rel, of r] old mem_rel_requests [OF rel] by auto
  let ?vs = "(get_or_default ?m ?g)[i := refresh_request r (get_or_default ?m ?g ! i)]"
  have "distinct (map requester_stable_pubkey (get_or_default ?m ?g))"
    unfolding mem_rel_requests [OF rel]
    using rel by (intro distinct_requesters) (simp add: mem_rel_def spec_inv_def)
  from update_position_map [OF this i, of "refresh_request r"]
  have "get_or_default (AList.update ?g ?vs ?m) h = group_requests h ?new" for h
    using mem_rel_requests [OF rel]
    by (simp add: get_or_default_update group_requests_refresh)
  moreover have "multimap_ok (AList.update ?g ?vs ?m)"
    using rel position_SomeD [OF i] by (intro multimap_ok_update) (auto simp: mem_rel_def)
  moreover have "spec_inv (a\<lparr>sp_join_requests := ?new\<rparr>)"
    using spec_inv_store_join_request [of a r] rel old
    by (simp add: spec_store_join_request_def mem_rel_def)
  ultimately have "mem_rel (s\<lparr>join_requests_by_group := AList.update ?g ?vs ?m\<rparr>)
      (a\<lparr>sp_join_requests := ?new\<rparr>)"
    by (intro mem_rel_set_requests [OF rel])
  with i old show ?thesis
    by (simp add: refines_def mem_store_join_request_def spec_store_join_request_def Let_def
        map_of_bind_get_or_default)
qed

lemma mem_store_join_request_new:
  assumes rel: "mem_rel s a" and new: "\<not> (\<exists>x \<in> set (sp_join_requests a). same_request r x)"
  shows "mem_refines (=) (mem_store_join_request r) (spec_store_join_request r) s a"
proof -
  let ?g = "jr_group_id r" and ?rs = "sp_join_requests a" and ?m = "join_requests_by_group s"
  note get = mem_rel_requests [OF rel]
  have pos: "position (\<lambda>x. requester_stable_pubkey x = requester_stable_pubkey r)
      (get_or_default ?m ?g) = None"
    using position_requester [OF rel, of r] new unfolding get by (metis not_Some_eq)
  have ok: "multimap_ok ?m" using rel by (simp add: mem_rel_def)
  show ?thesis
  proof (cases "MAX_PENDING_JOIN_REQUESTS_PER_GROUP \<le> length (get_or_default ?m ?g)")
    case True
    then have "get_or_default ?m ?g \<noteq> []" by (auto simp: MAX_PENDING_JOIN_REQUESTS_PER_GROUP_def)
    then have "mem_rel (s\<lparr>join_requests_by_group := AList.update ?g (get_or_default ?m ?g) ?m\<rparr>) a"
      using rel ok by (auto simp: mem_rel_def get_or_default_update multimap_ok_update)
    with True pos new get show ?thesis
      by (simp add: refines_def mem_store_join_request_def spec_store_join_request_def Let_def
          map_of_bind_get_or_default)
  next
    case False
    have "spec_inv (a\<lparr>sp_join_requests := ?rs @ [r]\<rparr>)"
      using spec_inv_store_join_request [of a r] rel new False get
      by (simp add: spec_store_join_request_def mem_rel_def)
    then have "mem_rel (s\<lparr>join_requests_by_group := AList.update ?g (get_or_default ?m ?g @ [r]) ?m\<rparr>)
        (a\<lparr>sp_join_requests := ?rs @ [r]\<rparr>)"
      using ok get by (intro mem_rel_set_requests [OF rel]) (auto simp: multimap_ok_update get_or_default_update)
    with False pos new get show ?thesis
      by (simp add: refines_def mem_store_join_request_def spec_store_join_request_def Let_def
          map_of_bind_get_or_default)
  qed
qed

lemma mem_fetch_join_requests_eq:
  assumes rel: "mem_rel s a"
    and rs: "rs = filter (\<lambda>r. jr_group_id r = g \<longrightarrow> \<not> join_request_consumed c r) (sp_join_requests a)"
  shows "fst (mem_fetch_pending_join_requests g c s) = Inr (group_requests g rs)"
    and "mem_rel (snd (mem_fetch_pending_join_requests g c s)) (a\<lparr>sp_join_requests := rs\<rparr>)"
proof -
  note get = mem_rel_requests [OF rel]
  have inv: "spec_inv (a\<lparr>sp_join_requests := rs\<rparr>)"
    using rel rs by (simp add: mem_rel_def spec_inv_requests_filter)
  have own: "group_requests h rs = (if h = g
      then filter (\<lambda>r. \<not> join_request_consumed c r) (get_or_default (join_requests_by_group s) g)
      else get_or_default (join_requests_by_group s) h)" for h
    using get by (simp add: rs filter_own_or_other del: filter_filter)
  have "fst (mem_fetch_pending_join_requests g c s) = Inr (group_requests g rs) \<and>
      mem_rel (snd (mem_fetch_pending_join_requests g c s)) (a\<lparr>sp_join_requests := rs\<rparr>)"
  proof (cases "map_of (join_requests_by_group s) g")
    case None
    then have none: "get_or_default (join_requests_by_group s) g = []" by (simp add: get_or_default_def)
    then have "rs = sp_join_requests a"
      using get [of g] unfolding rs by (intro filter_True) (auto simp: filter_empty_conv)
    with None rel get [of g] none show ?thesis by (simp add: mem_fetch_pending_join_requests_def)
  next
    case (Some records)
    then have r: "get_or_default (join_requests_by_group s) g = records" by (simp add: get_or_default_def)
    have out: "(if c \<noteq> [] then filter (\<lambda>r. \<not> join_request_consumed c r) records else records) =
        group_requests g rs" by (simp add: own r)
    have "mem_rel (s\<lparr>join_requests_by_group :=
        put_or_shift_remove g (group_requests g rs) (join_requests_by_group s)\<rparr>)
        (a\<lparr>sp_join_requests := rs\<rparr>)"
      using rel own by (intro mem_rel_set_requests [OF rel _ inv])
        (auto simp: mem_rel_def multimap_ok_put get_or_default_put)
    with Some out show ?thesis by (simp add: mem_fetch_pending_join_requests_def Let_def)
  qed
  then show "fst (mem_fetch_pending_join_requests g c s) = Inr (group_requests g rs)"
    and "mem_rel (snd (mem_fetch_pending_join_requests g c s)) (a\<lparr>sp_join_requests := rs\<rparr>)"
    by auto
qed

lemma mem_fetch_join_requests_refines:
  assumes "mem_rel s a"
  shows "mem_refines (=) (mem_fetch_pending_join_requests g c)
    (spec_fetch_pending_join_requests g c) s a"
  using mem_fetch_join_requests_eq [OF assms refl, of g c]
  by (simp add: refines_def spec_fetch_pending_join_requests_def Let_def)

text \<open>Retiring the consumed requests of the groups \<open>gs\<close>, as the multi-group fetch does.\<close>

abbreviation (input) retire_many where
  "retire_many cons gs rs \<equiv>
     filter (\<lambda>r. jr_group_id r \<in> set gs \<longrightarrow> \<not> join_request_consumed (cons (jr_group_id r)) r) rs"

lemma mem_fetch_many_loop_eq:
  assumes "mem_rel s a" and cons: "\<And>g. get_or_default by_group g = cons g"
  shows "fst (mem_fetch_many_loop by_group gs out s) =
      Inr (out @ concat (map (\<lambda>g. group_requests g (retire_many cons gs (sp_join_requests a))) gs)) \<and>
    mem_rel (snd (mem_fetch_many_loop by_group gs out s))
      (a\<lparr>sp_join_requests := retire_many cons gs (sp_join_requests a)\<rparr>)"
  using assms(1)
proof (induction gs arbitrary: s a out)
  case (Cons g gs)
  let ?rs1 = "filter (\<lambda>r. jr_group_id r = g \<longrightarrow> \<not> join_request_consumed (cons g) r) (sp_join_requests a)"
  let ?a1 = "a\<lparr>sp_join_requests := ?rs1\<rparr>"
  obtain s1 where f: "mem_fetch_pending_join_requests g (get_or_default by_group g) s =
      (Inr (group_requests g ?rs1), s1)" and rel1: "mem_rel s1 ?a1"
    using mem_fetch_join_requests_eq [OF Cons.prems refl, of g "cons g"] cons
    by (cases "mem_fetch_pending_join_requests g (get_or_default by_group g) s") auto
  have all: "retire_many cons gs ?rs1 = retire_many cons (g # gs) (sp_join_requests a)"
    by (auto intro: filter_cong)
  have own: "group_requests g ?rs1 = group_requests g (retire_many cons (g # gs) (sp_join_requests a))"
    by (auto intro: filter_cong)
  show ?case
    using Cons.IH [OF rel1, of "out @ group_requests g ?rs1"] f own
    by (simp add: all del: filter_filter)
qed simp

lemma mem_fetch_many_join_requests_refines:
  assumes "mem_rel s a"
  shows "mem_refines (=) (mem_fetch_many_pending_join_requests gs c)
    (spec_fetch_many_pending_join_requests gs c) s a"
  using mem_fetch_many_loop_eq [OF assms, of "partition_consumed_join_requests c"
      "consumed_in_group c" gs "[]"]
  by (simp add: refines_def mem_fetch_many_pending_join_requests_def
      spec_fetch_many_pending_join_requests_def get_or_default_partition consumed_in_group_def
      Let_def del: filter_filter)

lemma mem_delete_expired_join_requests_refines:
  assumes rel: "mem_rel s a"
  shows "mem_refines (=) (mem_delete_expired_join_requests th)
    (spec_delete_expired_join_requests th) s a"
proof -
  obtain d m where e: "expire (\<lambda>r. th \<le> jr_created_at r) (join_requests_by_group s) = (d, m)"
    by force
  note facts = expire_correct [where key = jr_group_id and xs = "sp_join_requests a", OF _ _ e]
  show ?thesis
    using rel facts e
    by (auto simp: refines_def mem_delete_expired_join_requests_def
        spec_delete_expired_join_requests_def mem_rel_def spec_inv_requests_filter not_le
        simp del: filter_filter)
qed

section \<open>Group messages refine the specification\<close>

lemma mem_log_rel_simps [simp]:
  "mem_log_rel None ms \<longleftrightarrow> ms = []"
  "mem_log_rel (Some log) ms \<longleftrightarrow> messages log = ms \<and> next_cursor log = int (length ms) + 1"
  by (simp_all add: mem_log_rel_def)

lemma mem_append_refines:
  assumes rel: "mem_rel s a" and room: "cursor_room (ap_group_id p) a"
  shows "mem_refines (=) (mem_append_group_message p) (spec_append_group_message p) s a"
proof -
  let ?g = "ap_group_id p" and ?n = "int (length (group_log (ap_group_id p) (sp_messages a)))"
  let ?log = "unwrap_or GroupLog_new (map_of (groups s) ?g)"
  have "mem_log_rel (map_of (groups s) ?g) (group_log ?g (sp_messages a))"
    using rel by (simp add: mem_rel_def)
  then have log: "next_cursor ?log = ?n + 1" "messages ?log = group_log ?g (sp_messages a)"
    by (auto simp: mem_log_rel_def GroupLog_new_def split: option.splits)
  have wrap: "wrap64 (2 + ?n) = 2 + ?n"
    using room by (intro wrap64_id) (simp add: is_i64_def cursor_room_def)
  show ?thesis
    using rel log wrap spec_inv_append [of a p]
    by (auto simp: refines_def mem_append_group_message_def spec_append_group_message_def Let_def
        mem_rel_def map_of_update)
qed

lemma mem_messages_after_eq:
  assumes "mem_rel s a"
  shows "mem_messages_after s g after = log_after g after (sp_messages a)"
proof -
  have "mem_log_rel (map_of (groups s) g) (group_log g (sp_messages a))"
    using assms by (simp add: mem_rel_def)
  then show ?thesis
    by (auto simp: mem_messages_after_def log_after_alt mem_log_rel_def Let_def
        simp del: filter_filter split: option.splits)
qed

lemma mem_fetch_messages_refines:
  assumes "mem_rel s a"
  shows "mem_refines (=) (mem_fetch_group_messages g after) (spec_fetch_group_messages g after) s a"
  using assms by (simp add: refines_def mem_fetch_group_messages_def spec_fetch_group_messages_def
      mem_messages_after_eq)

lemma mem_fetch_many_messages_refines:
  assumes "mem_rel s a"
  shows "mem_refines (=) (mem_fetch_many_group_messages fs) (spec_fetch_many_group_messages fs) s a"
  using assms by (simp add: refines_def mem_fetch_many_group_messages_def
      spec_fetch_many_group_messages_def mem_messages_after_eq)

section \<open>The backend is a coordinator storage\<close>

lemma mem_rel_default: "mem_rel InMemoryInner_default spec_empty"
  by (simp add: mem_rel_def InMemoryInner_default_def spec_inv_empty)
    (simp add: spec_empty_def mem_log_rel_def)

lemma mem_store_join_request_refines:
  "mem_rel s a \<Longrightarrow> mem_refines (=) (mem_store_join_request r) (spec_store_join_request r) s a"
  by (cases "\<exists>x \<in> set (sp_join_requests a). same_request r x")
    (auto intro: mem_store_join_request_refresh mem_store_join_request_new)

lemmas mem_refinements =
  mem_publish_refines mem_list_identity_refines mem_list_all_refines mem_get_refines
  mem_remove_refines mem_consume_refines mem_store_welcome_refines mem_fetch_welcomes_refines
  mem_delete_expired_welcomes_refines mem_store_join_request_refines
  mem_fetch_join_requests_refines mem_fetch_many_join_requests_refines
  mem_delete_expired_join_requests_refines mem_append_refines mem_fetch_messages_refines
  mem_fetch_many_messages_refines

interpretation mem: coordinator_storage mem_ops mem_rel "\<lambda>_. True"
  by unfold_locales (simp_all add: mem_ops_def mem_refinements, simp add: mem_rel_def)

end
