(* ===== verification/Sqlite.thy ===== *)
theory Sqlite
  imports Storage_Calls "HOL-Library.Product_Lexorder" "HOL-Library.Option_ord"
begin

text \<open>
  The SQLite backend, \<^verbatim>\<open>crates/cordn-core/src/storage/sqlite.rs\<close>: the tables of its schema, the SQL
  statements it sends as functions on those tables, and one operation per trait method, written
  over the driver calls in the order the source makes them.

  \<^item> A table with an \<^verbatim>\<open>INTEGER PRIMARY KEY AUTOINCREMENT\<close> is its rows and the largest id ever
    given out. \<^verbatim>\<open>ORDER BY\<close> is a sort by the key the statement names.
  \<^item> \<^verbatim>\<open>outcomes\<close> is what the database engine does with the next driver calls (\<^verbatim>\<open>transaction\<close>,
    \<^verbatim>\<open>prepare_cached\<close>, \<^verbatim>\<open>execute\<close>, \<^verbatim>\<open>query_row\<close>, \<^verbatim>\<open>query_map\<close>, a row of a result,
    \<^verbatim>\<open>commit\<close>): \<open>Some msg\<close> makes the call fail, and a call beyond the list succeeds. A failure
    inside a transaction drops it, and dropping a transaction rolls it back.
  \<^item> \<open>sqlite_env\<close> stands for the other packages: \<^verbatim>\<open>serde_json\<close> (writing and reading
    the stored event) and the message of a violated constraint.
\<close>

section \<open>Tables\<close>

record kp_row =
  kr_id :: int
  kr_stable_pubkey :: string
  kr_key_package_ref :: string
  kr_key_package_bytes :: bytes
  kr_is_last_resort :: i64
  kr_published_at :: i64
  kr_publication_event_json :: string

record welcome_row =
  wr_id :: int
  wr_target_stable_pubkey :: string
  wr_key_package_reference :: string
  wr_welcome_bytes :: bytes
  wr_created_at :: i64
  wr_join_after_cursor :: "i64 option"

record join_row =
  jw_id :: int
  jw_group_id :: string
  jw_requester_stable_pubkey :: string
  jw_key_package_ref :: string
  jw_created_at :: i64

record message_row =
  mr_id :: int
  mr_cursor :: i64
  mr_group_id :: string
  mr_opaque_message :: bytes
  mr_created_at :: i64

record 'r table =
  rows :: "'r list"
  last_id :: int

record database =
  t_key_packages :: "kp_row table"
  t_welcomes :: "welcome_row table"
  t_join_requests :: "join_row table"
  t_group_routing :: "(string \<times> i64) list"
  t_group_messages :: "message_row table"

record connection =
  db :: database
  outcomes :: "string option list"

record 'j sqlite_env =
  json_to_string :: "'j \<Rightarrow> string + string"
  json_from_str :: "string \<Rightarrow> string + 'j"
  constraint_error :: string

definition empty_table :: "'r table" where
  "empty_table = \<lparr>rows = [], last_id = 0\<rparr>"

definition empty_database :: database where
  "empty_database = \<lparr>t_key_packages = empty_table, t_welcomes = empty_table,
     t_join_requests = empty_table, t_group_routing = [], t_group_messages = empty_table\<rparr>"

section \<open>Driver calls, rows and transactions\<close>

definition sreturn :: "'a \<Rightarrow> ('s, 'a) sop" where
  "sreturn x s = (Inr x, s)"

definition sbind :: "('s, 'a) sop \<Rightarrow> ('a \<Rightarrow> ('s, 'b) sop) \<Rightarrow> ('s, 'b) sop" where
  "sbind m f s = (case m s of (Inl e, s') \<Rightarrow> (Inl e, s') | (Inr x, s') \<Rightarrow> f x s')"

definition sfail :: "StorageError \<Rightarrow> ('s, 'a) sop" where
  "sfail e s = (Inl e, s)"

definition driver_call :: "(connection, unit) sop" where
  "driver_call c =
     (case outcomes c of
        [] \<Rightarrow> (Inr (), c)
      | None # os \<Rightarrow> (Inr (), c\<lparr>outcomes := os\<rparr>)
      | Some msg # os \<Rightarrow> (Inl (Backend msg), c\<lparr>outcomes := os\<rparr>))"

text \<open>A statement's effect on the database, or the message of the constraint it violates.\<close>

definition on_db :: "(database \<Rightarrow> string + 'a \<times> database) \<Rightarrow> (connection, 'a) sop" where
  "on_db f c =
     (case f (db c) of Inl msg \<Rightarrow> (Inl (Backend msg), c) | Inr (x, d) \<Rightarrow> (Inr x, c\<lparr>db := d\<rparr>))"

text \<open>\<^verbatim>\<open>prepare_cached(sql)?\<close> then \<^verbatim>\<open>execute(params)?\<close>; a bound statement executed alone.\<close>

definition execute :: "(database \<Rightarrow> string + 'a \<times> database) \<Rightarrow> (connection, 'a) sop" where
  "execute f = sbind driver_call (\<lambda>_. on_db f)"

definition prepare_execute :: "(database \<Rightarrow> string + 'a \<times> database) \<Rightarrow> (connection, 'a) sop" where
  "prepare_execute f = sbind driver_call (\<lambda>_. execute f)"

text \<open>\<^verbatim>\<open>for row in rows { out.push(row?); }\<close>, each row converted by \<open>conv\<close>.\<close>

fun collect_rows :: "('r \<Rightarrow> string + 'a) \<Rightarrow> 'r list \<Rightarrow> 'a list \<Rightarrow> (connection, 'a list) sop" where
  "collect_rows conv [] out = sreturn out"
| "collect_rows conv (r # rs) out =
     sbind driver_call (\<lambda>_. case conv r of
        Inl msg \<Rightarrow> sfail (Backend msg)
      | Inr x \<Rightarrow> collect_rows conv rs (out @ [x]))"

text \<open>\<^verbatim>\<open>prepare_cached(sql)?\<close>, \<^verbatim>\<open>query_map(params, conv)?\<close>, then the rows.\<close>

definition query_map :: "('r \<Rightarrow> string + 'a) \<Rightarrow> (database \<Rightarrow> 'r list) \<Rightarrow> (connection, 'a list) sop"
  where
  "query_map conv sel =
     sbind driver_call (\<lambda>_. sbind (execute (\<lambda>d. Inr (sel d, d))) (\<lambda>rs. collect_rows conv rs []))"

text \<open>\<^verbatim>\<open>prepare_cached(sql)?\<close>, then \<^verbatim>\<open>query_row(params, conv).optional()?\<close>.\<close>

definition query_row_optional :: "('r \<Rightarrow> string + 'a) \<Rightarrow> (database \<Rightarrow> 'r list) \<Rightarrow>
    (connection, 'a option) sop" where
  "query_row_optional conv sel =
     sbind driver_call (\<lambda>_. sbind (execute (\<lambda>d. Inr (sel d, d))) (\<lambda>rs.
       case rs of [] \<Rightarrow> sreturn None
       | r # _ \<Rightarrow> (case conv r of Inl msg \<Rightarrow> sfail (Backend msg) | Inr x \<Rightarrow> sreturn (Some x))))"

text \<open>\<^verbatim>\<open>conn.transaction()?\<close>, a body, \<^verbatim>\<open>tx.commit()?\<close>; the transaction rolls back on every error.\<close>

definition transaction :: "(connection, 'a) sop \<Rightarrow> (connection, 'a) sop" where
  "transaction body c =
     (case driver_call c of
        (Inl e, c1) \<Rightarrow> (Inl e, c1)
      | (Inr _, c1) \<Rightarrow>
          (case body c1 of
             (Inl e, c2) \<Rightarrow> (Inl e, c2\<lparr>db := db c1\<rparr>)
           | (Inr x, c2) \<Rightarrow>
               (case driver_call c2 of
                  (Inl e, c3) \<Rightarrow> (Inl e, c3\<lparr>db := db c1\<rparr>)
                | (Inr _, c3) \<Rightarrow> (Inr x, c3))))"

section \<open>Rows to records\<close>

definition row_to_key_package :: "'j sqlite_env \<Rightarrow> kp_row \<Rightarrow> string + 'j PublishedKeyPackageRecord"
  where
  "row_to_key_package env row =
     (case json_from_str env (kr_publication_event_json row) of
        Inl msg \<Rightarrow> Inl msg
      | Inr event \<Rightarrow> Inr \<lparr>stable_pubkey = kr_stable_pubkey row,
          key_package_bytes = kr_key_package_bytes row, key_package_ref = kr_key_package_ref row,
          is_last_resort = (kr_is_last_resort row \<noteq> 0), published_at = kr_published_at row,
          publication_event = event\<rparr>)"

definition row_to_welcome :: "welcome_row \<Rightarrow> WelcomeQueueRecord" where
  "row_to_welcome row = \<lparr>target_stable_pubkey = wr_target_stable_pubkey row,
     key_package_reference = wr_key_package_reference row, welcome_bytes = wr_welcome_bytes row,
     w_created_at = wr_created_at row, join_after_cursor = wr_join_after_cursor row\<rparr>"

definition row_to_join_request :: "join_row \<Rightarrow> JoinRequestRecord" where
  "row_to_join_request row = \<lparr>jr_group_id = jw_group_id row,
     requester_stable_pubkey = jw_requester_stable_pubkey row,
     jr_key_package_ref = jw_key_package_ref row, jr_created_at = jw_created_at row\<rparr>"

definition row_to_group_message :: "message_row \<Rightarrow> GroupMessageRecord" where
  "row_to_group_message row = \<lparr>cursor = mr_cursor row, gm_group_id = mr_group_id row,
     opaque_message = mr_opaque_message row, gm_created_at = mr_created_at row\<rparr>"

section \<open>Statements\<close>

text \<open>An insert with a fresh id, and a delete that reports the number of rows.\<close>

definition insert_row :: "(int \<Rightarrow> 'r) \<Rightarrow> 'r table \<Rightarrow> 'r table" where
  "insert_row mk t = t\<lparr>rows := rows t @ [mk (last_id t + 1)], last_id := last_id t + 1\<rparr>"

definition delete_where :: "('r \<Rightarrow> bool) \<Rightarrow> 'r table \<Rightarrow> 'r table" where
  "delete_where p t = t\<lparr>rows := filter (\<lambda>r. \<not> p r) (rows t)\<rparr>"

definition count_where :: "('r \<Rightarrow> bool) \<Rightarrow> 'r table \<Rightarrow> usize" where
  "count_where p t = length (filter p (rows t))"

definition insert_key_package :: "'j sqlite_env \<Rightarrow> 'j PublishedKeyPackageRecord \<Rightarrow> string \<Rightarrow>
    database \<Rightarrow> string + unit \<times> database" where
  "insert_key_package env r json d =
     (if \<exists>row \<in> set (rows (t_key_packages d)). kr_key_package_ref row = key_package_ref r
      then Inl (constraint_error env)
      else Inr ((), d\<lparr>t_key_packages := insert_row (\<lambda>i. \<lparr>kr_id = i, kr_stable_pubkey = stable_pubkey r,
             kr_key_package_ref = key_package_ref r, kr_key_package_bytes = key_package_bytes r,
             kr_is_last_resort = (if is_last_resort r then 1 else 0), kr_published_at = published_at r,
             kr_publication_event_json = json\<rparr>) (t_key_packages d)\<rparr>))"

definition select_key_packages_of :: "string \<Rightarrow> database \<Rightarrow> kp_row list" where
  "select_key_packages_of pk d =
     sort_key kr_id (filter (\<lambda>row. kr_stable_pubkey row = pk) (rows (t_key_packages d)))"

definition select_all_key_packages :: "database \<Rightarrow> kp_row list" where
  "select_all_key_packages d = sort_key kr_id (rows (t_key_packages d))"

definition KP_SELECT_BY_REF_SQL :: "string \<Rightarrow> database \<Rightarrow> kp_row list" where
  "KP_SELECT_BY_REF_SQL x d =
     take 1 (filter (\<lambda>row. kr_key_package_ref row = x) (rows (t_key_packages d)))"

text \<open>
  \<^verbatim>\<open>ORDER BY is_last_resort ASC, CASE WHEN is_last_resort = 0 THEN id END ASC,
  CASE WHEN is_last_resort = 1 THEN id END DESC LIMIT 1\<close>. A missing \<^verbatim>\<open>CASE\<close> branch is \<^verbatim>\<open>NULL\<close>,
  which SQLite sorts before every value under \<^verbatim>\<open>ASC\<close> and after every value under \<^verbatim>\<open>DESC\<close>.
\<close>

definition consume_order :: "kp_row \<Rightarrow> int \<times> int option \<times> int \<times> int" where
  "consume_order row =
     (kr_is_last_resort row,
      (if kr_is_last_resort row = 0 then Some (kr_id row) else None),
      (if kr_is_last_resort row = 1 then (0, - kr_id row) else (1, 0)))"

definition KP_CONSUME_BY_IDENTITY_SQL :: "string \<Rightarrow> database \<Rightarrow> kp_row list" where
  "KP_CONSUME_BY_IDENTITY_SQL pk d =
     take 1 (sort_key consume_order
       (filter (\<lambda>row. kr_stable_pubkey row = pk) (rows (t_key_packages d))))"

definition delete_key_package :: "string \<Rightarrow> database \<Rightarrow> string + unit \<times> database" where
  "delete_key_package x d = Inr ((), d\<lparr>t_key_packages :=
     delete_where (\<lambda>row. kr_key_package_ref row = x) (t_key_packages d)\<rparr>)"

definition insert_welcome :: "WelcomeQueueRecord \<Rightarrow> database \<Rightarrow> string + unit \<times> database" where
  "insert_welcome w d = Inr ((), d\<lparr>t_welcomes := insert_row (\<lambda>i. \<lparr>wr_id = i,
     wr_target_stable_pubkey = target_stable_pubkey w,
     wr_key_package_reference = key_package_reference w, wr_welcome_bytes = welcome_bytes w,
     wr_created_at = w_created_at w, wr_join_after_cursor = join_after_cursor w\<rparr>) (t_welcomes d)\<rparr>)"

definition delete_welcome :: "string \<Rightarrow> ConsumedWelcomeRef \<Rightarrow> database \<Rightarrow> string + unit \<times> database"
  where
  "delete_welcome t c d = Inr ((), d\<lparr>t_welcomes := delete_where
     (\<lambda>row. wr_target_stable_pubkey row = t \<and>
        wr_key_package_reference row = cw_key_package_reference c \<and>
        wr_created_at row = cw_created_at c) (t_welcomes d)\<rparr>)"

definition select_welcomes :: "string \<Rightarrow> database \<Rightarrow> welcome_row list" where
  "select_welcomes t d =
     sort_key wr_id (filter (\<lambda>row. wr_target_stable_pubkey row = t) (rows (t_welcomes d)))"

definition delete_old_welcomes :: "i64 \<Rightarrow> database \<Rightarrow> string + usize \<times> database" where
  "delete_old_welcomes th d =
     Inr (count_where (\<lambda>row. wr_created_at row < th) (t_welcomes d),
          d\<lparr>t_welcomes := delete_where (\<lambda>row. wr_created_at row < th) (t_welcomes d)\<rparr>)"

definition select_existing_request :: "JoinRequestRecord \<Rightarrow> database \<Rightarrow> join_row list" where
  "select_existing_request r d =
     take 1 (filter (\<lambda>row. jw_group_id row = jr_group_id r \<and>
       jw_requester_stable_pubkey row = requester_stable_pubkey r) (rows (t_join_requests d)))"

definition update_join_request :: "JoinRequestRecord \<Rightarrow> database \<Rightarrow> string + unit \<times> database" where
  "update_join_request r d = Inr ((), d\<lparr>t_join_requests := (t_join_requests d)\<lparr>rows :=
     map (\<lambda>row. if jw_group_id row = jr_group_id r \<and>
                   jw_requester_stable_pubkey row = requester_stable_pubkey r
                then row\<lparr>jw_key_package_ref := jr_key_package_ref r, jw_created_at := jr_created_at r\<rparr>
                else row) (rows (t_join_requests d))\<rparr>\<rparr>)"

definition count_join_requests :: "string \<Rightarrow> database \<Rightarrow> string + usize \<times> database" where
  "count_join_requests g d = Inr (count_where (\<lambda>row. jw_group_id row = g) (t_join_requests d), d)"

definition insert_join_request :: "JoinRequestRecord \<Rightarrow> database \<Rightarrow> string + unit \<times> database" where
  "insert_join_request r d = Inr ((), d\<lparr>t_join_requests := insert_row (\<lambda>i. \<lparr>jw_id = i,
     jw_group_id = jr_group_id r, jw_requester_stable_pubkey = requester_stable_pubkey r,
     jw_key_package_ref = jr_key_package_ref r, jw_created_at = jr_created_at r\<rparr>)
     (t_join_requests d)\<rparr>)"

definition delete_join_request :: "string \<Rightarrow> ConsumedJoinRequestRef \<Rightarrow> database \<Rightarrow>
    string + unit \<times> database" where
  "delete_join_request g c d = Inr ((), d\<lparr>t_join_requests := delete_where
     (\<lambda>row. jw_group_id row = g \<and> jw_requester_stable_pubkey row = cj_requester_stable_pubkey c \<and>
        jw_created_at row = cj_created_at c) (t_join_requests d)\<rparr>)"

definition select_join_requests :: "string \<Rightarrow> database \<Rightarrow> join_row list" where
  "select_join_requests g d =
     sort_key jw_id (filter (\<lambda>row. jw_group_id row = g) (rows (t_join_requests d)))"

text \<open>The join of the numbered groups with the table, ordered by group number, then id.\<close>

definition select_many_join_requests :: "string list \<Rightarrow> database \<Rightarrow> join_row list" where
  "select_many_join_requests gs d =
     map snd (sort_key (\<lambda>(i, row). (i, jw_id row))
       (concat (map (\<lambda>(i, g). map (Pair i)
          (filter (\<lambda>row. jw_group_id row = g) (rows (t_join_requests d)))) (enumerate 0 gs))))"

definition delete_old_join_requests :: "i64 \<Rightarrow> database \<Rightarrow> string + usize \<times> database" where
  "delete_old_join_requests th d =
     Inr (count_where (\<lambda>row. jw_created_at row < th) (t_join_requests d),
          d\<lparr>t_join_requests := delete_where (\<lambda>row. jw_created_at row < th) (t_join_requests d)\<rparr>)"

definition select_last_cursor :: "string \<Rightarrow> database \<Rightarrow> i64 list" where
  "select_last_cursor g d = (case map_of (t_group_routing d) g of None \<Rightarrow> [] | Some c \<Rightarrow> [c])"

definition insert_group_message :: "'j sqlite_env \<Rightarrow> i64 \<Rightarrow> AppendGroupMessageParams \<Rightarrow>
    database \<Rightarrow> string + unit \<times> database" where
  "insert_group_message env c p d =
     (if \<exists>row \<in> set (rows (t_group_messages d)). mr_group_id row = ap_group_id p \<and> mr_cursor row = c
      then Inl (constraint_error env)
      else Inr ((), d\<lparr>t_group_messages := insert_row (\<lambda>i. \<lparr>mr_id = i, mr_cursor = c,
             mr_group_id = ap_group_id p, mr_opaque_message = ap_opaque_message p,
             mr_created_at = ap_created_at p\<rparr>) (t_group_messages d)\<rparr>))"

definition upsert_group_routing :: "string \<Rightarrow> i64 \<Rightarrow> database \<Rightarrow> string + unit \<times> database" where
  "upsert_group_routing g c d =
     Inr ((), d\<lparr>t_group_routing := AList.update g c (t_group_routing d)\<rparr>)"

definition select_group_messages :: "string \<Rightarrow> i64 \<Rightarrow> database \<Rightarrow> message_row list" where
  "select_group_messages g ac d =
     sort_key mr_cursor
       (filter (\<lambda>row. mr_group_id row = g \<and> ac < mr_cursor row) (rows (t_group_messages d)))"

definition select_many_group_messages :: "FetchGroupMessagesInput list \<Rightarrow> database \<Rightarrow>
    message_row list" where
  "select_many_group_messages gs d =
     map snd (sort_key (\<lambda>(i, row). (i, mr_cursor row))
       (concat (map (\<lambda>(i, g). map (Pair i)
          (filter (\<lambda>row. mr_group_id row = fg_group_id g \<and>
              unwrap_or 0 (after_cursor g) < mr_cursor row) (rows (t_group_messages d))))
          (enumerate 0 gs))))"

section \<open>The operations\<close>

definition sql_publish_key_package :: "'j sqlite_env \<Rightarrow> 'j PublishedKeyPackageRecord \<Rightarrow>
    (connection, 'j PublishedKeyPackageRecord) sop" where
  "sql_publish_key_package env record =
     (case json_to_string env (publication_event record) of
        Inl msg \<Rightarrow> sfail (Backend msg)
      | Inr pub_json \<Rightarrow>
          sbind (prepare_execute (insert_key_package env record pub_json)) (\<lambda>_. sreturn record))"

definition sql_list_key_packages_for_identity :: "'j sqlite_env \<Rightarrow> string \<Rightarrow>
    (connection, 'j PublishedKeyPackageRecord list) sop" where
  "sql_list_key_packages_for_identity env pk =
     query_map (row_to_key_package env) (select_key_packages_of pk)"

definition sql_list_all_key_packages :: "'j sqlite_env \<Rightarrow>
    (connection, 'j PublishedKeyPackageRecord list) sop" where
  "sql_list_all_key_packages env = query_map (row_to_key_package env) select_all_key_packages"

definition sql_get_key_package :: "'j sqlite_env \<Rightarrow> string \<Rightarrow>
    (connection, 'j PublishedKeyPackageRecord option) sop" where
  "sql_get_key_package env x = query_row_optional (row_to_key_package env) (KP_SELECT_BY_REF_SQL x)"

definition sql_remove_key_package :: "'j sqlite_env \<Rightarrow> string \<Rightarrow>
    (connection, 'j PublishedKeyPackageRecord option) sop" where
  "sql_remove_key_package env x =
     sbind (query_row_optional (row_to_key_package env) (KP_SELECT_BY_REF_SQL x)) (\<lambda>record.
       case record of
         None \<Rightarrow> sreturn None
       | Some r \<Rightarrow> sbind (prepare_execute (delete_key_package x)) (\<lambda>_. sreturn (Some r)))"

text \<open>Delete the record by its reference unless it is a last-resort package, then return it.\<close>

definition sql_take :: "string \<Rightarrow> 'j PublishedKeyPackageRecord \<Rightarrow>
    (connection, 'j PublishedKeyPackageRecord option) sop" where
  "sql_take x r =
     (if \<not> is_last_resort r
      then sbind (prepare_execute (delete_key_package x)) (\<lambda>_. sreturn (Some r))
      else sreturn (Some r))"

definition sql_consume_key_package :: "'j sqlite_env \<Rightarrow> string \<Rightarrow>
    (connection, 'j PublishedKeyPackageRecord option) sop" where
  "sql_consume_key_package env identifier =
     transaction
       (sbind (query_row_optional (row_to_key_package env) (KP_SELECT_BY_REF_SQL identifier)) (\<lambda>by_ref.
          case by_ref of
            Some r \<Rightarrow> sql_take identifier r
          | None \<Rightarrow>
              sbind (query_row_optional (row_to_key_package env)
                       (KP_CONSUME_BY_IDENTITY_SQL identifier)) (\<lambda>by_identity.
                case by_identity of
                  Some r \<Rightarrow> sql_take (key_package_ref r) r
                | None \<Rightarrow> sreturn None)))"

definition sql_store_welcome :: "WelcomeQueueRecord \<Rightarrow> (connection, WelcomeQueueRecord) sop" where
  "sql_store_welcome w = sbind (prepare_execute (insert_welcome w)) (\<lambda>_. sreturn w)"

text \<open>\<^verbatim>\<open>for c in consumed { stmt.execute(params)?; }\<close> with a statement prepared before.\<close>

fun execute_each :: "('c \<Rightarrow> database \<Rightarrow> string + unit \<times> database) \<Rightarrow> 'c list \<Rightarrow> (connection, unit) sop"
  where
  "execute_each stmt [] = sreturn ()"
| "execute_each stmt (c # cs) = sbind (execute (stmt c)) (\<lambda>_. execute_each stmt cs)"

definition sql_fetch_pending_welcomes :: "string \<Rightarrow> ConsumedWelcomeRef list \<Rightarrow>
    (connection, WelcomeQueueRecord list) sop" where
  "sql_fetch_pending_welcomes t consumed =
     transaction
       (sbind driver_call (\<lambda>_.
        sbind (execute_each (delete_welcome t) consumed) (\<lambda>_.
          query_map (\<lambda>row. Inr (row_to_welcome row)) (select_welcomes t))))"

definition sql_delete_expired_welcomes :: "i64 \<Rightarrow> (connection, usize) sop" where
  "sql_delete_expired_welcomes th =
     (if th \<le> 0 then sreturn 0 else prepare_execute (delete_old_welcomes th))"

definition sql_store_join_request :: "JoinRequestRecord \<Rightarrow> (connection, JoinRequestRecord) sop" where
  "sql_store_join_request r =
     transaction
       (sbind (query_row_optional (\<lambda>_. Inr ()) (select_existing_request r)) (\<lambda>existing.
          if existing \<noteq> None
          then sbind (prepare_execute (update_join_request r)) (\<lambda>_. sreturn r)
          else
            sbind (prepare_execute (count_join_requests (jr_group_id r))) (\<lambda>count.
              if MAX_PENDING_JOIN_REQUESTS_PER_GROUP \<le> count
              then sfail TooManyPendingJoinRequests
              else sbind (prepare_execute (insert_join_request r)) (\<lambda>_. sreturn r))))"

definition sql_fetch_pending_join_requests :: "string \<Rightarrow> ConsumedJoinRequestRef list \<Rightarrow>
    (connection, JoinRequestRecord list) sop" where
  "sql_fetch_pending_join_requests g consumed =
     transaction
       (sbind driver_call (\<lambda>_.
        sbind (execute_each (delete_join_request g) consumed) (\<lambda>_.
          query_map (\<lambda>row. Inr (row_to_join_request row)) (select_join_requests g))))"

fun retire_each_group :: "(string \<times> ConsumedJoinRequestRef list) list \<Rightarrow> string list \<Rightarrow>
    (connection, unit) sop" where
  "retire_each_group by_group [] = sreturn ()"
| "retire_each_group by_group (g # gs) =
     sbind (case map_of by_group g of
              None \<Rightarrow> sreturn ()
            | Some list \<Rightarrow> execute_each (delete_join_request g) list)
       (\<lambda>_. retire_each_group by_group gs)"

definition sql_fetch_many_pending_join_requests :: "string list \<Rightarrow>
    ConsumedJoinRequestWithGroupRef list \<Rightarrow> (connection, JoinRequestRecord list) sop" where
  "sql_fetch_many_pending_join_requests gs consumed =
     (if gs = [] then sreturn []
      else
        transaction
          (sbind driver_call (\<lambda>_.
           sbind (retire_each_group (partition_consumed_join_requests consumed) gs) (\<lambda>_.
             query_map (\<lambda>row. Inr (row_to_join_request row)) (select_many_join_requests gs)))))"

definition sql_delete_expired_join_requests :: "i64 \<Rightarrow> (connection, usize) sop" where
  "sql_delete_expired_join_requests th =
     (if th \<le> 0 then sreturn 0 else prepare_execute (delete_old_join_requests th))"

definition cursor_exhausted :: string where
  "cursor_exhausted = ''Unable to allocate per-group message cursor''"

definition sql_append_group_message :: "'j sqlite_env \<Rightarrow> AppendGroupMessageParams \<Rightarrow>
    (connection, GroupMessageRecord) sop" where
  "sql_append_group_message env p =
     transaction
       (sbind (query_row_optional Inr (select_last_cursor (ap_group_id p))) (\<lambda>last.
          let c = wrap64 (unwrap_or 0 last + 1) in
          if c \<le> 0 then sfail (Backend cursor_exhausted)
          else
            sbind (prepare_execute (insert_group_message env c p)) (\<lambda>_.
            sbind (prepare_execute (upsert_group_routing (ap_group_id p) c)) (\<lambda>_.
              sreturn \<lparr>cursor = c, gm_group_id = ap_group_id p,
                opaque_message = ap_opaque_message p, gm_created_at = ap_created_at p\<rparr>))))"

definition sql_fetch_group_messages :: "string \<Rightarrow> i64 option \<Rightarrow>
    (connection, GroupMessageRecord list) sop" where
  "sql_fetch_group_messages g after =
     query_map (\<lambda>row. Inr (row_to_group_message row)) (select_group_messages g (unwrap_or 0 after))"

definition sql_fetch_many_group_messages :: "FetchGroupMessagesInput list \<Rightarrow>
    (connection, GroupMessageRecord list) sop" where
  "sql_fetch_many_group_messages gs =
     (if gs = [] then sreturn []
      else query_map (\<lambda>row. Inr (row_to_group_message row)) (select_many_group_messages gs))"

definition sql_ops :: "'j sqlite_env \<Rightarrow> (connection, 'j) CoordinatorStorage" where
  "sql_ops env = \<lparr>
     so_publish_key_package = sql_publish_key_package env,
     so_list_key_packages_for_identity = sql_list_key_packages_for_identity env,
     so_list_all_key_packages = sql_list_all_key_packages env,
     so_get_key_package = sql_get_key_package env,
     so_remove_key_package = sql_remove_key_package env,
     so_consume_key_package = sql_consume_key_package env,
     so_store_welcome = sql_store_welcome,
     so_fetch_pending_welcomes = sql_fetch_pending_welcomes,
     so_delete_expired_welcomes = sql_delete_expired_welcomes,
     so_store_join_request = sql_store_join_request,
     so_fetch_pending_join_requests = sql_fetch_pending_join_requests,
     so_fetch_many_pending_join_requests = sql_fetch_many_pending_join_requests,
     so_delete_expired_join_requests = sql_delete_expired_join_requests,
     so_append_group_message = sql_append_group_message env,
     so_fetch_group_messages = sql_fetch_group_messages,
     so_fetch_many_group_messages = sql_fetch_many_group_messages\<rparr>"

end
