(* ===== verification/Sqlite_Refine.thy ===== *)
theory Sqlite_Refine
  imports Sqlite
begin

text \<open>
  The SQLite backend implements the storage contract. First the driver is taken out: \<open>implements\<close>
  says that an operation either fails with a \<open>Backend\<close> error and leaves the database as it was, or
  acts as a function of the database alone. Then that function is related to the specification.
\<close>

section \<open>Operations without driver failures\<close>

definition body_impl :: "(connection, 'a) sop \<Rightarrow> (database, 'a) sop \<Rightarrow> bool" where
  "body_impl m i \<longleftrightarrow> (\<forall>c. (outcomes c = [] \<longrightarrow> outcomes (snd (m c)) = []) \<and>
     (fst (m c) = fst (i (db c)) \<and> db (snd (m c)) = snd (i (db c))
      \<or> outcomes c \<noteq> [] \<and> (\<exists>msg. fst (m c) = Inl (Backend msg))))"

definition implements :: "(connection, 'a) sop \<Rightarrow> (database, 'a) sop \<Rightarrow> bool" where
  "implements m i \<longleftrightarrow> (\<forall>c. (outcomes c = [] \<longrightarrow> outcomes (snd (m c)) = []) \<and>
     (fst (m c) = fst (i (db c)) \<and> db (snd (m c)) = snd (i (db c))
      \<or> outcomes c \<noteq> [] \<and> (\<exists>msg. fst (m c) = Inl (Backend msg)) \<and> db (snd (m c)) = db c))"

text \<open>A statement as a function of the database, and a transaction around such a function.\<close>

definition pure_stmt :: "(database \<Rightarrow> string + 'a \<times> database) \<Rightarrow> (database, 'a) sop" where
  "pure_stmt f d = (case f d of Inl msg \<Rightarrow> (Inl (Backend msg), d) | Inr (x, d') \<Rightarrow> (Inr x, d'))"

definition pure_transaction :: "(database, 'a) sop \<Rightarrow> (database, 'a) sop" where
  "pure_transaction i d = (case i d of (Inl e, _) \<Rightarrow> (Inl e, d) | (Inr x, d') \<Rightarrow> (Inr x, d'))"

fun convert_rows :: "('r \<Rightarrow> string + 'a) \<Rightarrow> 'r list \<Rightarrow> StorageError + 'a list" where
  "convert_rows conv [] = Inr []"
| "convert_rows conv (r # rs) =
     (case conv r of Inl msg \<Rightarrow> Inl (Backend msg) | Inr x \<Rightarrow> map_sum id ((#) x) (convert_rows conv rs))"

definition read_only :: "(database, 'a) sop \<Rightarrow> bool" where
  "read_only i \<longleftrightarrow> (\<forall>d. snd (i d) = d)"

named_theorems impl \<open>operations without driver failures\<close>

lemma implements_body: "implements m i \<Longrightarrow> body_impl m i"
  by (auto simp: implements_def body_impl_def)

lemma body_implD:
  assumes "body_impl m i" "m c = (r, c1)" "i (db c) = (r', d1)"
  shows "outcomes c = [] \<longrightarrow> outcomes c1 = []"
    and "r = r' \<and> db c1 = d1 \<or> outcomes c \<noteq> [] \<and> (\<exists>msg. r = Inl (Backend msg))"
  using assms unfolding body_impl_def by (auto dest!: spec [of _ c])

lemma implementsD:
  assumes "implements m i" "m c = (r, c1)" "i (db c) = (r', d1)"
  shows "outcomes c = [] \<longrightarrow> outcomes c1 = []"
    and "r = r' \<and> db c1 = d1 \<or>
      outcomes c \<noteq> [] \<and> (\<exists>msg. r = Inl (Backend msg)) \<and> db c1 = db c"
  using assms unfolding implements_def by (auto dest!: spec [of _ c])

lemma sreturn_impl [impl]: "implements (sreturn x) (sreturn x)"
  by (simp add: implements_def sreturn_def)

lemma sfail_impl [impl]: "implements (sfail e) (sfail e)"
  by (simp add: implements_def sfail_def)

lemma driver_call_impl [impl]: "implements driver_call (sreturn ())"
  by (auto simp: implements_def driver_call_def sreturn_def split: list.splits option.splits)

lemma on_db_impl: "implements (on_db f) (pure_stmt f)"
  by (auto simp: implements_def on_db_def pure_stmt_def split: sum.splits)

lemma body_impl_bind:
  assumes m: "body_impl m i" and f: "\<And>x. body_impl (f x) (g x)"
  shows "body_impl (sbind m f) (sbind i g)"
  unfolding body_impl_def
proof (intro allI)
  fix c
  obtain r c1 where mc: "m c = (r, c1)" by force
  obtain r' d1 where ic: "i (db c) = (r', d1)" by force
  have 1: "outcomes c = [] \<longrightarrow> outcomes c1 = []"
    "r = r' \<and> db c1 = d1 \<or> outcomes c \<noteq> [] \<and> (\<exists>msg. r = Inl (Backend msg))"
    using body_implD [OF m mc ic] by auto
  show "(outcomes c = [] \<longrightarrow> outcomes (snd (sbind m f c)) = []) \<and>
      (fst (sbind m f c) = fst (sbind i g (db c)) \<and> db (snd (sbind m f c)) = snd (sbind i g (db c))
       \<or> outcomes c \<noteq> [] \<and> (\<exists>msg. fst (sbind m f c) = Inl (Backend msg)))"
  proof (cases r)
    case (Inl e)
    with 1 mc ic show ?thesis by (auto simp: sbind_def)
  next
    case (Inr x)
    with 1 have "r' = Inr x" "db c1 = d1" by auto
    obtain r2 c2 where fc: "f x c1 = (r2, c2)" by force
    obtain r3 d3 where gc: "g x (db c1) = (r3, d3)" by force
    from body_implD [OF f fc gc] \<open>r' = Inr x\<close> \<open>db c1 = d1\<close> Inr 1(1) mc ic fc gc show ?thesis
      by (auto simp: sbind_def)
  qed
qed

lemma implements_bind:
  assumes m: "implements m i" and ro: "read_only i" and f: "\<And>x. implements (f x) (g x)"
  shows "implements (sbind m f) (sbind i g)"
  unfolding implements_def
proof (intro allI)
  fix c
  obtain r c1 where mc: "m c = (r, c1)" by force
  obtain r' d1 where ic: "i (db c) = (r', d1)" by force
  have d1: "d1 = db c" using ro ic unfolding read_only_def by (metis snd_conv)
  have 1: "outcomes c = [] \<longrightarrow> outcomes c1 = []" "db c1 = db c"
    "r = r' \<or> outcomes c \<noteq> [] \<and> (\<exists>msg. r = Inl (Backend msg))"
    using implementsD [OF m mc ic] d1 by auto
  show "(outcomes c = [] \<longrightarrow> outcomes (snd (sbind m f c)) = []) \<and>
      (fst (sbind m f c) = fst (sbind i g (db c)) \<and> db (snd (sbind m f c)) = snd (sbind i g (db c))
       \<or> outcomes c \<noteq> [] \<and> (\<exists>msg. fst (sbind m f c) = Inl (Backend msg)) \<and>
          db (snd (sbind m f c)) = db c)"
  proof (cases r)
    case (Inl e)
    with 1 mc ic d1 show ?thesis by (auto simp: sbind_def)
  next
    case (Inr x)
    with 1 have "r' = Inr x" by auto
    obtain r2 c2 where fc: "f x c1 = (r2, c2)" by force
    obtain r3 d3 where gc: "g x (db c1) = (r3, d3)" by force
    from implementsD [OF f fc gc] \<open>r' = Inr x\<close> Inr 1(1,2) mc ic d1 fc gc show ?thesis
      by (auto simp: sbind_def)
  qed
qed

lemma read_only_simps [simp]:
  "read_only (sreturn x)" "read_only (sfail e)"
  by (simp_all add: read_only_def sreturn_def sfail_def)

lemma read_only_select [simp]: "read_only (pure_stmt (\<lambda>d. Inr (f d, d)))"
  by (simp add: read_only_def pure_stmt_def)

lemma sbind_sreturn [simp]: "sbind (sreturn x) f = f x"
  by (rule ext) (simp add: sbind_def sreturn_def)

lemma implements_map:
  assumes "implements m i"
  shows "implements (sbind m (\<lambda>x. sreturn (f x))) (sbind i (\<lambda>x. sreturn (f x)))"
  unfolding implements_def
proof (intro allI)
  fix c
  obtain r c1 where mc: "m c = (r, c1)" by force
  obtain r' d1 where ic: "i (db c) = (r', d1)" by force
  show "(outcomes c = [] \<longrightarrow> outcomes (snd (sbind m (\<lambda>x. sreturn (f x)) c)) = []) \<and>
      (fst (sbind m (\<lambda>x. sreturn (f x)) c) = fst (sbind i (\<lambda>x. sreturn (f x)) (db c)) \<and>
         db (snd (sbind m (\<lambda>x. sreturn (f x)) c)) = snd (sbind i (\<lambda>x. sreturn (f x)) (db c))
       \<or> outcomes c \<noteq> [] \<and> (\<exists>msg. fst (sbind m (\<lambda>x. sreturn (f x)) c) = Inl (Backend msg)) \<and>
          db (snd (sbind m (\<lambda>x. sreturn (f x)) c)) = db c)"
    using implementsD [OF assms mc ic] mc ic
    by (cases r; cases r') (auto simp: sbind_def sreturn_def)
qed

lemma driver_bind_impl [impl]: "implements m i \<Longrightarrow> implements (sbind driver_call (\<lambda>_. m)) i"
  using implements_bind [OF driver_call_impl, of "\<lambda>_. m" "\<lambda>_. i"] by simp

lemma execute_impl [impl]: "implements (execute f) (pure_stmt f)"
  unfolding execute_def by (intro driver_bind_impl on_db_impl)

lemma prepare_execute_impl [impl]: "implements (prepare_execute f) (pure_stmt f)"
  unfolding prepare_execute_def by (intro driver_bind_impl execute_impl)

lemma select_impl:
  assumes "\<And>rs. implements (k rs) (\<lambda>d. (g rs, d))"
  shows "implements (sbind (execute (\<lambda>d. Inr (sel d, d))) k) (\<lambda>d. (g (sel d), d))"
  using implements_bind [OF execute_impl read_only_select assms]
  by (simp add: sbind_def [abs_def] pure_stmt_def)

lemma collect_rows_impl:
  "implements (collect_rows conv rs out) (\<lambda>d. (map_sum id ((@) out) (convert_rows conv rs), d))"
proof (induction rs arbitrary: out)
  case Nil
  then show ?case using sreturn_impl [of out] by (simp add: sreturn_def [abs_def])
next
  case (Cons r rs)
  have "implements (case conv r of Inl msg \<Rightarrow> sfail (Backend msg) | Inr x \<Rightarrow> collect_rows conv rs (out @ [x]))
    (\<lambda>d. (map_sum id ((@) out) (convert_rows conv (r # rs)), d))"
  proof (cases "conv r")
    case (Inl msg)
    then show ?thesis using sfail_impl [of "Backend msg"] by (simp add: sfail_def [abs_def])
  next
    case (Inr x)
    have "map_sum id ((@) (out @ [x])) (convert_rows conv rs) =
        map_sum id ((@) out) (convert_rows conv (r # rs))"
      using Inr by (cases "convert_rows conv rs") auto
    with Cons [of "out @ [x]"] have "implements (collect_rows conv rs (out @ [x]))
        (\<lambda>d. (map_sum id ((@) out) (convert_rows conv (r # rs)), d))" by (simp only:)
    with Inr show ?thesis by (simp only: sum.case)
  qed
  then show ?case unfolding collect_rows.simps by (rule driver_bind_impl)
qed

lemma query_map_impl [impl]:
  "implements (query_map conv sel) (\<lambda>d. (convert_rows conv (sel d), d))"
proof -
  have "map_sum id ((@) []) x = x" for x :: "StorageError + 'a list" by (cases x) auto
  then have "implements (collect_rows conv rs []) (\<lambda>d. (convert_rows conv rs, d))" for rs
    using collect_rows_impl [of conv rs "[]"] by simp
  then show ?thesis unfolding query_map_def by (intro driver_bind_impl select_impl)
qed

definition convert_first :: "('r \<Rightarrow> string + 'a) \<Rightarrow> 'r list \<Rightarrow> StorageError + 'a option" where
  "convert_first conv rs = (case rs of [] \<Rightarrow> Inr None
     | r # _ \<Rightarrow> (case conv r of Inl msg \<Rightarrow> Inl (Backend msg) | Inr x \<Rightarrow> Inr (Some x)))"

lemma query_row_impl [impl]:
  "implements (query_row_optional conv sel) (\<lambda>d. (convert_first conv (sel d), d))"
proof -
  have "implements (case rs of [] \<Rightarrow> sreturn None
       | r # _ \<Rightarrow> (case conv r of Inl msg \<Rightarrow> sfail (Backend msg) | Inr x \<Rightarrow> sreturn (Some x)))
      (\<lambda>d. (convert_first conv rs, d))" for rs
    by (auto simp: implements_def sreturn_def sfail_def convert_first_def split: list.split sum.split)
  then show ?thesis unfolding query_row_optional_def by (intro driver_bind_impl select_impl)
qed

lemma transaction_impl [impl]:
  assumes "body_impl m i"
  shows "implements (transaction m) (pure_transaction i)"
proof -
  have dc: "(outcomes c = [] \<longrightarrow> outcomes (snd (driver_call c)) = []) \<and> db (snd (driver_call c)) = db c \<and>
      (fst (driver_call c) = Inr () \<or> outcomes c \<noteq> [] \<and> (\<exists>msg. fst (driver_call c) = Inl (Backend msg)))" for c
    by (auto simp: driver_call_def split: list.splits option.splits)
  show ?thesis
    unfolding implements_def
  proof (intro allI)
    fix c
    obtain r1 c1 where 1: "driver_call c = (r1, c1)" by force
    obtain r2 c2 where 2: "m c1 = (r2, c2)" by force
    obtain r3 c3 where 3: "driver_call c2 = (r3, c3)" by force
    obtain ri di where i: "i (db c1) = (ri, di)" by force
    have b: "outcomes c1 = [] \<longrightarrow> outcomes c2 = []"
      "r2 = ri \<and> db c2 = di \<or> outcomes c1 \<noteq> [] \<and> (\<exists>msg. r2 = Inl (Backend msg))"
      using body_implD [OF assms 2 i] by auto
    show "(outcomes c = [] \<longrightarrow> outcomes (snd (transaction m c)) = []) \<and>
      (fst (transaction m c) = fst (pure_transaction i (db c)) \<and>
         db (snd (transaction m c)) = snd (pure_transaction i (db c))
       \<or> outcomes c \<noteq> [] \<and> (\<exists>msg. fst (transaction m c) = Inl (Backend msg)) \<and>
          db (snd (transaction m c)) = db c)"
      using dc [of c] dc [of c2] b 1 2 3 i
      by (cases r1; cases r2; cases r3) (auto simp: transaction_def pure_transaction_def)
  qed
qed

lemmas body_impls = body_impl_bind sreturn_impl [THEN implements_body] sfail_impl [THEN implements_body]
  driver_call_impl [THEN implements_body] execute_impl [THEN implements_body]
  prepare_execute_impl [THEN implements_body] query_map_impl [THEN implements_body]
  query_row_impl [THEN implements_body]

section \<open>Tables and the abstract state\<close>

definition table_ok :: "('r \<Rightarrow> int) \<Rightarrow> 'r table \<Rightarrow> bool" where
  "table_ok idf t \<longleftrightarrow> sorted_wrt (<) (map idf (rows t)) \<and> (\<forall>r \<in> set (rows t). idf r \<le> last_id t)"

definition kp_row_rel :: "'j sqlite_env \<Rightarrow> kp_row \<Rightarrow> 'j PublishedKeyPackageRecord \<Rightarrow> bool" where
  "kp_row_rel env row r \<longleftrightarrow> row_to_key_package env row = Inr r \<and>
     kr_is_last_resort row = (if is_last_resort r then 1 else 0)"

definition routing_ok :: "(string \<times> i64) list \<Rightarrow> GroupMessageRecord list \<Rightarrow> bool" where
  "routing_ok routing ms \<longleftrightarrow> (\<forall>g. map_of routing g =
     (if group_log g ms = [] then None else Some (int (length (group_log g ms)))))"

definition db_rel :: "'j sqlite_env \<Rightarrow> database \<Rightarrow> 'j spec_state \<Rightarrow> bool" where
  "db_rel env d a \<longleftrightarrow> spec_inv a \<and>
     table_ok kr_id (t_key_packages d) \<and> table_ok wr_id (t_welcomes d) \<and>
     table_ok jw_id (t_join_requests d) \<and> table_ok mr_id (t_group_messages d) \<and>
     list_all2 (kp_row_rel env) (rows (t_key_packages d)) (sp_key_packages a) \<and>
     map row_to_welcome (rows (t_welcomes d)) = sp_welcomes a \<and>
     map row_to_join_request (rows (t_join_requests d)) = sp_join_requests a \<and>
     map row_to_group_message (rows (t_group_messages d)) = sp_messages a \<and>
     routing_ok (t_group_routing d) (sp_messages a)"

definition sql_rel :: "'j sqlite_env \<Rightarrow> connection \<Rightarrow> 'j spec_state \<Rightarrow> bool" where
  "sql_rel env c a \<longleftrightarrow> db_rel env (db c) a"

definition sql_reliable :: "connection \<Rightarrow> bool" where
  "sql_reliable c \<longleftrightarrow> outcomes c = []"

text \<open>What the code relies on of \<^verbatim>\<open>serde_json\<close>: a value is written, and read back as it was.\<close>

definition json_round_trip :: "'j sqlite_env \<Rightarrow> bool" where
  "json_round_trip env \<longleftrightarrow>
     (\<forall>v. \<exists>t. json_to_string env v = Inr t \<and> json_from_str env t = Inr v)"

abbreviation sql_refines where
  "sql_refines env eq m f c a \<equiv> refines eq (sql_rel env) sql_reliable m f c a"

lemma implements_refines:
  assumes "implements m i" "sql_rel env c a"
    and "rel_sum (=) eq (fst (i (db c))) (fst (f a))" "db_rel env (snd (i (db c))) (snd (f a))"
  shows "sql_refines env eq m f c a"
  using implementsD [OF assms(1) prod.collapse [symmetric] prod.collapse [symmetric], of c] assms(2-4)
  by (auto simp: refines_def sql_rel_def sql_reliable_def)

lemma table_ok_insert:
  assumes "table_ok idf t" "\<And>i. idf (mk i) = i"
  shows "table_ok idf (insert_row mk t)"
  using assms by (fastforce simp: table_ok_def insert_row_def sorted_wrt_append)

lemma table_ok_delete: "table_ok idf t \<Longrightarrow> table_ok idf (delete_where p t)"
  by (auto simp: table_ok_def delete_where_def sorted_wrt_map intro: sorted_wrt_filter)

lemma table_ok_sort:
  assumes "table_ok idf t"
  shows "sort_key idf (filter p (rows t)) = filter p (rows t)" "sort_key idf (rows t) = rows t"
proof -
  have "sorted (map idf (rows t))"
    using assms by (auto simp: table_ok_def intro: strict_sorted_imp_sorted)
  then show "sort_key idf (rows t) = rows t" by (rule sort_key_id_if_sorted)
  from \<open>sorted (map idf (rows t))\<close> show "sort_key idf (filter p (rows t)) = filter p (rows t)"
    by (intro sort_key_id_if_sorted) (simp add: sorted_filter)
qed

lemma empty_database_rel: "db_rel env empty_database spec_empty"
  using spec_inv_empty
  by (simp add: db_rel_def empty_database_def empty_table_def table_ok_def routing_ok_def)
    (simp add: spec_empty_def)

section \<open>Lists of related rows\<close>

lemma list_all2_filterI:
  assumes "list_all2 R xs ys" "\<And>x y. R x y \<Longrightarrow> p x = q y"
  shows "list_all2 R (filter p xs) (filter q ys)"
  using assms(1) by (induction rule: list_all2_induct) (auto simp: assms(2))

lemma list_all2_find:
  assumes "list_all2 R xs ys" "\<And>x y. R x y \<Longrightarrow> p x = q y"
  shows "rel_option R (find p xs) (find q ys)"
  using assms(1) by (induction rule: list_all2_induct) (auto simp: assms(2))

lemma list_all2_map_eq:
  assumes "list_all2 R xs ys" "\<And>x y. R x y \<Longrightarrow> f x = g y"
  shows "map f xs = map g ys"
  using assms(1) by (induction rule: list_all2_induct) (auto simp: assms(2))

lemma convert_rows_rel:
  "list_all2 (kp_row_rel env) xs ys \<Longrightarrow> convert_rows (row_to_key_package env) xs = Inr ys"
  by (induction rule: list_all2_induct) (auto simp: kp_row_rel_def)

lemma convert_rows_total: "convert_rows (\<lambda>row. Inr (f row)) xs = Inr (map f xs)"
  by (induction xs) auto

lemma kp_row_fields:
  "kp_row_rel env row r \<Longrightarrow> kr_stable_pubkey row = stable_pubkey r \<and>
     kr_key_package_ref row = key_package_ref r \<and> (kr_is_last_resort row = 0) = (\<not> is_last_resort r)"
  by (auto simp: kp_row_rel_def row_to_key_package_def split: sum.splits)

lemma convert_first_find:
  assumes "list_all2 (kp_row_rel env) xs ys" "\<And>x y. kp_row_rel env x y \<Longrightarrow> p x = q y"
  shows "convert_first (row_to_key_package env) (take 1 (filter p xs)) = Inr (find q ys)"
  using assms(1)
proof (induction rule: list_all2_induct)
  case (Cons x xs y ys)
  from Cons(1) have "row_to_key_package env x = Inr y" by (simp add: kp_row_rel_def)
  with Cons assms(2) [OF Cons(1)] show ?case by (cases "p x") (auto simp: convert_first_def)
qed (simp add: convert_first_def)

text \<open>\<^verbatim>\<open>LIMIT 1\<close> of a sort is the least element.\<close>

lemma take_1_sort_key:
  assumes "x \<in> set xs" "\<And>y. y \<in> set xs \<Longrightarrow> y \<noteq> x \<Longrightarrow> f x < (f y :: 'b :: linorder)"
  shows "take 1 (sort_key f xs) = [x]"
proof -
  have "sort_key f xs \<noteq> []" using assms(1) by (metis empty_iff empty_set set_sort)
  then obtain y ys where s: "sort_key f xs = y # ys" by (cases "sort_key f xs") auto
  have "sorted (map f (sort_key f xs))" by simp
  then have "\<forall>z \<in> set (sort_key f xs). f y \<le> f z" using s by auto
  then have "f y \<le> f x" using assms(1) by simp
  moreover have "y \<in> set xs" using s by (metis list.set_intros(1) set_sort)
  ultimately have "y = x" using assms(2) [of y] by force
  then show ?thesis using s by simp
qed

section \<open>Key packages\<close>

lemma consume_order_regular:
  assumes "sorted_wrt (<) (map kr_id xs)" "find (\<lambda>r. kr_is_last_resort r = 0) xs = Some x"
    and "\<forall>y \<in> set xs. kr_is_last_resort y \<in> {0, 1}"
  shows "take 1 (sort_key consume_order xs) = [x]"
proof (rule take_1_sort_key)
  from assms(2) have x: "x \<in> set xs" "kr_is_last_resort x = 0" by (auto dest: find_SomeD)
  then show "x \<in> set xs" by simp
  fix y assume y: "y \<in> set xs" "y \<noteq> x"
  have "kr_id x < kr_id y" if "kr_is_last_resort y = 0"
    using assms(1,2) y that by (induction xs) (auto split: if_splits dest: find_SomeD)
  with x y assms(3) show "consume_order x < consume_order y"
    by (auto simp: consume_order_def less_prod_def)
qed

lemma consume_order_last_resort:
  assumes "sorted_wrt (<) (map kr_id xs)" "xs \<noteq> []" "\<forall>y \<in> set xs. kr_is_last_resort y = 1"
  shows "take 1 (sort_key consume_order xs) = [last xs]"
proof (rule take_1_sort_key)
  show "last xs \<in> set xs" using assms(2) by simp
  fix y assume y: "y \<in> set xs" "y \<noteq> last xs"
  have "kr_id y < kr_id (last xs)"
    using assms(1,2) y by (induction xs) (auto split: if_splits)
  with y assms show "consume_order (last xs) < consume_order y"
    by (simp add: consume_order_def less_prod_def)
qed

lemma consume_by_identity_first:
  assumes rel: "list_all2 (kp_row_rel env) xs ys" and ids: "sorted_wrt (<) (map kr_id xs)"
  shows "convert_first (row_to_key_package env) (take 1 (sort_key consume_order xs)) =
    Inr (case find (\<lambda>r. \<not> is_last_resort r) ys of Some r \<Rightarrow> Some r | None \<Rightarrow> last_opt ys)"
proof -
  have lr: "\<forall>y \<in> set xs. kr_is_last_resort y \<in> {0, 1}"
    using rel by (auto simp: list_all2_conv_all_nth kp_row_rel_def in_set_conv_nth)
  have "rel_option (kp_row_rel env) (find (\<lambda>r. kr_is_last_resort r = 0) xs)
      (find (\<lambda>r. \<not> is_last_resort r) ys)"
    by (rule list_all2_find [OF rel]) (auto dest: kp_row_fields)
  then show ?thesis
  proof (cases rule: option.rel_cases)
    case None
    show ?thesis
    proof (cases "xs = []")
      case True
      with rel show ?thesis by (simp add: convert_first_def)
    next
      case False
      with rel have "ys \<noteq> []" by auto
      have "\<forall>y \<in> set xs. kr_is_last_resort y = 1"
        using None(1) lr by (auto simp: find_None_iff)
      note first = consume_order_last_resort [OF ids False this]
      have "kp_row_rel env (last xs) (last ys)"
        using rel False \<open>ys \<noteq> []\<close> by (auto simp: list_all2_conv_all_nth last_conv_nth)
      with first None(2) \<open>ys \<noteq> []\<close> show ?thesis
        by (simp add: convert_first_def kp_row_rel_def last_opt_def)
    qed
  next
    case (Some x y)
    note first = consume_order_regular [OF ids Some(1) lr]
    with Some show ?thesis by (simp add: convert_first_def kp_row_rel_def)
  qed
qed

lemma db_rel_kp: "db_rel env d a \<Longrightarrow> list_all2 (kp_row_rel env) (rows (t_key_packages d)) (sp_key_packages a)"
  by (simp add: db_rel_def)

lemma db_rel_delete_kp:
  assumes "db_rel env d a"
  shows "db_rel env (d\<lparr>t_key_packages := delete_where (\<lambda>row. kr_key_package_ref row = x)
    (t_key_packages d)\<rparr>) (spec_drop_ref x a)"
proof -
  have "list_all2 (kp_row_rel env) (filter (\<lambda>row. kr_key_package_ref row \<noteq> x) (rows (t_key_packages d)))
      (filter (\<lambda>r. key_package_ref r \<noteq> x) (sp_key_packages a))"
    by (rule list_all2_filterI [OF db_rel_kp [OF assms]]) (auto dest: kp_row_fields)
  with assms spec_inv_drop_ref [of a x] show ?thesis
    by (simp add: db_rel_def spec_drop_ref_def table_ok_delete) (simp add: delete_where_def)
qed

lemma db_rel_refs:
  "db_rel env d a \<Longrightarrow>
     map kr_key_package_ref (rows (t_key_packages d)) = map key_package_ref (sp_key_packages a)"
  by (auto intro!: list_all2_map_eq [OF db_rel_kp] dest: kp_row_fields)

lemma sql_publish_impl:
  assumes "json_to_string env (publication_event r) = Inr t"
  shows "implements (sql_publish_key_package env r)
    (sbind (pure_stmt (insert_key_package env r t)) (\<lambda>_. sreturn r))"
  using assms by (simp add: sql_publish_key_package_def implements_map prepare_execute_impl)

lemma sql_publish_refines:
  assumes js: "json_round_trip env" and rel: "sql_rel env c a" and fresh: "fresh_ref r a"
  shows "sql_refines env (=) (sql_publish_key_package env r) (spec_publish_key_package r) c a"
proof -
  obtain t where t: "json_to_string env (publication_event r) = Inr t"
    "json_from_str env t = Inr (publication_event r)"
    using js by (auto simp: json_round_trip_def)
  have d: "db_rel env (db c) a" using rel by (simp add: sql_rel_def)
  have "key_package_ref r \<notin> set (map kr_key_package_ref (rows (t_key_packages (db c))))"
    using fresh by (simp only: db_rel_refs [OF d] fresh_ref_def set_map not_False_eq_True)
  then show ?thesis
    using d t(2) fresh spec_inv_publish [of a r]
    by (intro implements_refines [OF sql_publish_impl [OF t(1)] rel])
      (auto simp: sbind_def pure_stmt_def insert_key_package_def sreturn_def
        spec_publish_key_package_def db_rel_def table_ok_insert image_iff,
       auto simp: insert_row_def list_all2_appendI kp_row_rel_def row_to_key_package_def)
qed

lemma sql_list_identity_refines:
  assumes "sql_rel env c a"
  shows "sql_refines env (=) (sql_list_key_packages_for_identity env pk)
    (spec_list_key_packages_for_identity pk) c a"
proof -
  have d: "db_rel env (db c) a" using assms by (simp add: sql_rel_def)
  have "list_all2 (kp_row_rel env) (select_key_packages_of pk (db c))
      (filter (\<lambda>r. stable_pubkey r = pk) (sp_key_packages a))"
    using d unfolding select_key_packages_of_def
    by (auto simp: db_rel_def table_ok_sort dest: kp_row_fields intro!: list_all2_filterI)
  with d show ?thesis
    unfolding sql_list_key_packages_for_identity_def
    by (intro implements_refines [OF query_map_impl assms])
      (auto simp: spec_list_key_packages_for_identity_def convert_rows_rel)
qed

lemma sql_list_all_eq:
  assumes "db_rel env d a"
  shows "convert_rows (row_to_key_package env) (select_all_key_packages d) = Inr (sp_key_packages a)"
  using assms by (auto simp: select_all_key_packages_def db_rel_def table_ok_sort intro: convert_rows_rel)

lemma sql_list_all_refines:
  assumes "sql_rel env c a"
  shows "sql_refines env same_elements (sql_list_all_key_packages env) spec_list_all_key_packages c a"
  using assms unfolding sql_list_all_key_packages_def
  by (intro implements_refines [OF query_map_impl assms])
    (auto simp: sql_list_all_eq sql_rel_def spec_list_all_key_packages_def same_elements_def)

lemma select_by_ref_eq:
  assumes "db_rel env d a"
  shows "convert_first (row_to_key_package env) (KP_SELECT_BY_REF_SQL x d) =
    Inr (find (\<lambda>r. key_package_ref r = x) (sp_key_packages a))"
  unfolding KP_SELECT_BY_REF_SQL_def
  by (rule convert_first_find [OF db_rel_kp [OF assms]]) (auto dest: kp_row_fields)

lemma sql_get_refines:
  assumes "sql_rel env c a"
  shows "sql_refines env (=) (sql_get_key_package env x) (spec_get_key_package x) c a"
  using assms unfolding sql_get_key_package_def
  by (intro implements_refines [OF query_row_impl assms])
    (auto simp: sql_rel_def spec_get_key_package_def select_by_ref_eq)

lemma read_only_query [simp]: "read_only (\<lambda>d. (f d, d))"
  by (simp add: read_only_def)

lemma sql_remove_impl:
  "implements (sql_remove_key_package env x)
     (sbind (\<lambda>d. (convert_first (row_to_key_package env) (KP_SELECT_BY_REF_SQL x d), d)) (\<lambda>record.
        case record of
          None \<Rightarrow> sreturn None
        | Some r \<Rightarrow> sbind (pure_stmt (delete_key_package x)) (\<lambda>_. sreturn (Some r))))"
  unfolding sql_remove_key_package_def
  by (rule implements_bind [OF query_row_impl read_only_query])
    (auto intro: sreturn_impl implements_map prepare_execute_impl split: option.split)

lemma sql_remove_refines:
  assumes "sql_rel env c a"
  shows "sql_refines env (=) (sql_remove_key_package env x) (spec_remove_key_package x) c a"
proof (rule implements_refines [OF sql_remove_impl assms])
  have d: "db_rel env (db c) a" using assms by (simp add: sql_rel_def)
  have gone: "spec_drop_ref x a = a" if "find (\<lambda>r. key_package_ref r = x) (sp_key_packages a) = None"
    using that by (simp add: spec_drop_ref_def filter_ne_id)
  let ?i = "sbind (\<lambda>d. (convert_first (row_to_key_package env) (KP_SELECT_BY_REF_SQL x d), d)) (\<lambda>record.
        case record of
          None \<Rightarrow> sreturn None
        | Some r \<Rightarrow> sbind (pure_stmt (delete_key_package x)) (\<lambda>_. sreturn (Some r)))"
  show "rel_sum (=) (=) (fst (?i (db c))) (fst (spec_remove_key_package x a))"
    by (auto simp: sbind_def select_by_ref_eq [OF d] sreturn_def pure_stmt_def delete_key_package_def
        spec_remove_key_package_def split: option.split)
  show "db_rel env (snd (?i (db c))) (snd (spec_remove_key_package x a))"
    using d gone db_rel_delete_kp [OF d, of x]
    by (auto simp: sbind_def select_by_ref_eq [OF d] sreturn_def pure_stmt_def delete_key_package_def
        spec_remove_key_package_def split: option.split)
qed

definition pure_take :: "string \<Rightarrow> 'j PublishedKeyPackageRecord \<Rightarrow>
    (database, 'j PublishedKeyPackageRecord option) sop" where
  "pure_take x r d = (Inr (Some r), if is_last_resort r then d
     else d\<lparr>t_key_packages := delete_where (\<lambda>row. kr_key_package_ref row = x) (t_key_packages d)\<rparr>)"

lemma sql_take_impl: "implements (sql_take x r) (pure_take x r)"
proof (cases "is_last_resort r")
  case True
  then show ?thesis by (simp add: sql_take_def pure_take_def [abs_def] implements_def sreturn_def)
next
  case False
  have "sbind (pure_stmt (delete_key_package x)) (\<lambda>_. sreturn (Some r)) = pure_take x r"
    using False by (auto simp: sbind_def pure_stmt_def delete_key_package_def sreturn_def pure_take_def)
  with False show ?thesis
    using implements_map [OF prepare_execute_impl, of "delete_key_package x" "\<lambda>_. Some r"]
    by (simp add: sql_take_def)
qed

definition pure_consume :: "'j sqlite_env \<Rightarrow> string \<Rightarrow>
    (database, 'j PublishedKeyPackageRecord option) sop" where
  "pure_consume env x =
     sbind (\<lambda>d. (convert_first (row_to_key_package env) (KP_SELECT_BY_REF_SQL x d), d)) (\<lambda>by_ref.
       case by_ref of
         Some r \<Rightarrow> pure_take x r
       | None \<Rightarrow>
           sbind (\<lambda>d. (convert_first (row_to_key_package env) (KP_CONSUME_BY_IDENTITY_SQL x d), d))
             (\<lambda>by_identity. case by_identity of
                Some r \<Rightarrow> pure_take (key_package_ref r) r
              | None \<Rightarrow> sreturn None))"

lemma sql_consume_impl: "implements (sql_consume_key_package env x) (pure_transaction (pure_consume env x))"
  unfolding sql_consume_key_package_def pure_consume_def
  by (rule transaction_impl)
    (auto intro!: body_impls sql_take_impl [THEN implements_body] split: option.split)

lemma pure_consume_eq:
  assumes d: "db_rel env d a"
  shows "fst (pure_consume env x d) = fst (spec_consume_key_package x a)"
    and "db_rel env (snd (pure_consume env x d)) (snd (spec_consume_key_package x a))"
proof -
  let ?rs = "sp_key_packages a"
  let ?xs = "filter (\<lambda>row. kr_stable_pubkey row = x) (rows (t_key_packages d))"
  let ?ys = "filter (\<lambda>r. stable_pubkey r = x) ?rs"
  have xs: "list_all2 (kp_row_rel env) ?xs ?ys"
    by (rule list_all2_filterI [OF db_rel_kp [OF d]]) (auto dest: kp_row_fields)
  have "sorted_wrt (<) (map kr_id ?xs)"
    using d by (auto simp: db_rel_def table_ok_def sorted_wrt_map intro: sorted_wrt_filter)
  note first = consume_by_identity_first [OF xs this, folded KP_CONSUME_BY_IDENTITY_SQL_def]
  have "pure_consume env x d = (case spec_consume_choice x ?rs of None \<Rightarrow> (Inr None, d)
      | Some r \<Rightarrow> pure_take (key_package_ref r) r d)"
    using first by (auto simp: pure_consume_def sbind_def select_by_ref_eq [OF d] sreturn_def
        spec_consume_choice_def find_filter split: option.split dest: find_SomeD)
  then show "fst (pure_consume env x d) = fst (spec_consume_key_package x a)"
    and "db_rel env (snd (pure_consume env x d)) (snd (spec_consume_key_package x a))"
    using d by (auto simp: spec_consume_key_package_def pure_take_def spec_take_def
        db_rel_delete_kp split: option.split)
qed

lemma sql_consume_refines:
  assumes "sql_rel env c a"
  shows "sql_refines env (=) (sql_consume_key_package env x) (spec_consume_key_package x) c a"
proof (rule implements_refines [OF sql_consume_impl assms])
  have d: "db_rel env (db c) a" using assms by (simp add: sql_rel_def)
  obtain v where "fst (spec_consume_key_package x a) = Inr v"
    by (cases "spec_consume_choice x (sp_key_packages a)") (auto simp: spec_consume_key_package_def)
  with pure_consume_eq [OF d, of x]
  show "rel_sum (=) (=) (fst (pure_transaction (pure_consume env x) (db c))) (fst (spec_consume_key_package x a))"
    and "db_rel env (snd (pure_transaction (pure_consume env x) (db c))) (snd (spec_consume_key_package x a))"
    by (auto simp: pure_transaction_def split: prod.split sum.split)
qed

section \<open>Welcomes\<close>

lemma pure_stmt_Inr [simp]: "pure_stmt (\<lambda>d. Inr (f d, g d)) = (\<lambda>d. (Inr (f d), g d))"
  by (rule ext) (simp add: pure_stmt_def)

lemma filter_map_row: "filter p (map f xs) = map f (filter (\<lambda>x. p (f x)) xs)"
  by (simp add: filter_map comp_def)

lemma sql_store_welcome_impl:
  "implements (sql_store_welcome w) (sbind (pure_stmt (insert_welcome w)) (\<lambda>_. sreturn w))"
  unfolding sql_store_welcome_def by (intro implements_map prepare_execute_impl)

lemma sql_store_welcome_refines:
  assumes "sql_rel env c a"
  shows "sql_refines env (=) (sql_store_welcome w) (spec_store_welcome w) c a"
  using assms spec_inv_welcomes [of a]
  by (intro implements_refines [OF sql_store_welcome_impl assms])
    (auto simp: sql_rel_def sbind_def pure_stmt_def insert_welcome_def sreturn_def spec_store_welcome_def
      db_rel_def table_ok_insert, auto simp: insert_row_def row_to_welcome_def)

fun pure_each :: "('c \<Rightarrow> database \<Rightarrow> string + unit \<times> database) \<Rightarrow> 'c list \<Rightarrow> (database, unit) sop" where
  "pure_each stmt [] = sreturn ()"
| "pure_each stmt (c # cs) = sbind (pure_stmt (stmt c)) (\<lambda>_. pure_each stmt cs)"

lemma execute_each_impl: "body_impl (execute_each stmt cs) (pure_each stmt cs)"
  by (induction cs) (auto intro!: body_impls)

lemma delete_welcomes_eq:
  "pure_each (delete_welcome t) cs d = (Inr (), d\<lparr>t_welcomes := delete_where
     (\<lambda>row. wr_target_stable_pubkey row = t \<and> welcome_consumed cs (row_to_welcome row)) (t_welcomes d)\<rparr>)"
proof (induction cs arbitrary: d)
  case (Cons c cs)
  have "filter (\<lambda>row. \<not> (wr_target_stable_pubkey row = t \<and> welcome_consumed cs (row_to_welcome row)))
      (filter (\<lambda>row. \<not> (wr_target_stable_pubkey row = t \<and>
          wr_key_package_reference row = cw_key_package_reference c \<and>
          wr_created_at row = cw_created_at c)) (rows (t_welcomes d))) =
      filter (\<lambda>row. \<not> (wr_target_stable_pubkey row = t \<and> welcome_consumed (c # cs) (row_to_welcome row)))
        (rows (t_welcomes d))"
    unfolding filter_filter
    by (rule filter_cong) (auto simp: welcome_consumed_Cons row_to_welcome_def)
  with Cons show ?case
    by (simp add: sbind_def pure_stmt_def delete_welcome_def delete_where_def)
qed (simp add: sreturn_def delete_where_def)

lemma sql_fetch_welcomes_impl:
  "implements (sql_fetch_pending_welcomes t cs)
     (pure_transaction (sbind (pure_each (delete_welcome t) cs)
        (\<lambda>_ d. (Inr (map row_to_welcome (select_welcomes t d)), d))))"
proof -
  have "body_impl (sbind driver_call (\<lambda>_. sbind (execute_each (delete_welcome t) cs) (\<lambda>_.
          query_map (\<lambda>row. Inr (row_to_welcome row)) (select_welcomes t))))
      (sbind (sreturn ()) (\<lambda>_. sbind (pure_each (delete_welcome t) cs)
        (\<lambda>_ d. (convert_rows (\<lambda>row. Inr (row_to_welcome row)) (select_welcomes t d), d))))"
    by (intro body_impls execute_each_impl)
  from transaction_impl [OF this] show ?thesis
    by (simp add: sql_fetch_pending_welcomes_def convert_rows_total)
qed

lemma sql_fetch_welcomes_refines:
  assumes "sql_rel env c a"
  shows "sql_refines env (=) (sql_fetch_pending_welcomes t cs) (spec_fetch_pending_welcomes t cs) c a"
proof -
  have d: "db_rel env (db c) a" using assms by (simp add: sql_rel_def)
  let ?t = "delete_where (\<lambda>row. wr_target_stable_pubkey row = t \<and>
    welcome_consumed cs (row_to_welcome row)) (t_welcomes (db c))"
  have tgt: "target_stable_pubkey (row_to_welcome row) = wr_target_stable_pubkey row" for row
    by (simp add: row_to_welcome_def)
  have ok: "table_ok wr_id ?t" using d by (simp add: db_rel_def table_ok_delete)
  have "sp_welcomes a = map row_to_welcome (rows (t_welcomes (db c)))" using d by (simp add: db_rel_def)
  then have ws: "map row_to_welcome (rows ?t) =
      filter (\<lambda>r. target_stable_pubkey r = t \<longrightarrow> \<not> welcome_consumed cs r) (sp_welcomes a)"
    by (simp add: delete_where_def filter_map_row tgt)
  have sel: "map row_to_welcome (sort_key wr_id (filter (\<lambda>row. wr_target_stable_pubkey row = t) (rows ?t))) =
      filter (\<lambda>r. target_stable_pubkey r = t) (map row_to_welcome (rows ?t))"
    by (simp add: table_ok_sort [OF ok] filter_map_row tgt del: filter_filter)
  show ?thesis
    using d ws sel ok spec_inv_welcomes [of a]
    by (intro implements_refines [OF sql_fetch_welcomes_impl assms])
      (auto simp: pure_transaction_def sbind_def delete_welcomes_eq select_welcomes_def
        spec_fetch_pending_welcomes_def Let_def db_rel_def simp del: filter_filter)
qed

lemma sql_delete_expired_welcomes_refines:
  assumes "sql_rel env c a"
  shows "sql_refines env (=) (sql_delete_expired_welcomes th) (spec_delete_expired_welcomes th) c a"
proof (cases "th \<le> 0")
  case True
  with assms show ?thesis
    by (auto simp: refines_def sql_delete_expired_welcomes_def spec_delete_expired_welcomes_def sreturn_def)
next
  case False
  have at: "w_created_at (row_to_welcome row) = wr_created_at row" for row
    by (simp add: row_to_welcome_def)
  have "sp_welcomes a = map row_to_welcome (rows (t_welcomes (db c)))"
    using assms by (simp add: sql_rel_def db_rel_def)
  then have "length (filter (\<lambda>r. w_created_at r < th) (sp_welcomes a)) =
        count_where (\<lambda>row. wr_created_at row < th) (t_welcomes (db c))"
    "map row_to_welcome (rows (delete_where (\<lambda>row. wr_created_at row < th) (t_welcomes (db c)))) =
        filter (\<lambda>r. th \<le> w_created_at r) (sp_welcomes a)"
    by (simp_all add: count_where_def delete_where_def filter_map_row at not_less)
  with False assms spec_inv_welcomes [of a] show ?thesis
    unfolding sql_delete_expired_welcomes_def
    by (auto intro!: implements_refines [OF prepare_execute_impl assms]
        simp: sql_rel_def pure_stmt_def delete_old_welcomes_def spec_delete_expired_welcomes_def
          db_rel_def table_ok_delete)
qed

end
