(* ===== verification/Sqlite_Contract.thy ===== *)
theory Sqlite_Contract
  imports Sqlite_Refine
begin

text \<open>
  The rest of the contract for the SQLite backend: join requests and group messages, and with them
  the interface \<open>coordinator_storage\<close> for every environment whose JSON codec round-trips.
\<close>

section \<open>Numbered groups\<close>

text \<open>
  The join of the numbered groups with a table, ordered by number and then by a key in which each
  group's rows are already sorted, is the groups' rows one after the other.
\<close>

lemma sorted_numbered_join:
  assumes "\<And>g. sorted (map key (sel g))"
  shows "map snd (sort_key (\<lambda>(i, row). (i, key row))
      (concat (map (\<lambda>(i, g). map (Pair i) (sel g)) (enumerate n gs)))) = concat (map sel gs)"
proof -
  have nums: "\<forall>x \<in> set (concat (map (\<lambda>(i, g). map (Pair i) (sel g)) (enumerate n gs))). n \<le> fst x" for n and gs :: "'a list"
    by (auto simp: in_set_enumerate_eq)
  have "sorted (map (\<lambda>(i, row). (i, key row))
      (concat (map (\<lambda>(i, g). map (Pair i) (sel g)) (enumerate n gs))))"
  proof (induction gs arbitrary: n)
    case (Cons g gs)
    have "sorted (map (\<lambda>(i, row). (i, key row)) (map (Pair n) (sel g)))"
      using assms [of g] by (simp add: sorted_map comp_def sorted_wrt_map less_eq_prod_def)
    moreover have "\<forall>x \<in> set (concat (map (\<lambda>(i, g). map (Pair i) (sel g)) (enumerate (Suc n) gs))). n < fst x"
      using nums [where n = "Suc n"] by (simp only: Suc_le_eq)
    then have "(\<lambda>(i, row). (i, key row)) x \<le> (\<lambda>(i, row). (i, key row)) y"
      if "x \<in> set (map (Pair n) (sel g))"
        "y \<in> set (concat (map (\<lambda>(i, g). map (Pair i) (sel g)) (enumerate (Suc n) gs)))" for x y
      using that by (cases y) (fastforce simp del: set_concat)
    ultimately show ?case using Cons [of "Suc n"]
      by (simp only: enumerate_simps list.map concat.simps case_prod_conv map_append sorted_append)
        (simp only: set_map ball_simps, blast)
  qed simp
  then have "sort_key (\<lambda>(i, row). (i, key row))
      (concat (map (\<lambda>(i, g). map (Pair i) (sel g)) (enumerate n gs))) =
      concat (map (\<lambda>(i, g). map (Pair i) (sel g)) (enumerate n gs))"
    by (rule sort_key_id_if_sorted)
  moreover have "map snd (concat (map (\<lambda>(i, g). map (Pair i) (sel g)) (enumerate n gs))) =
      concat (map sel gs)"
    by (induction gs arbitrary: n) (simp_all add: comp_def)
  ultimately show ?thesis by simp
qed

section \<open>Join requests\<close>

lemma body_impl_if:
  "body_impl m i \<Longrightarrow> body_impl m' i' \<Longrightarrow> body_impl (if p then m else m') (if p then i else i')"
  by simp

lemma row_to_join_request_fields [simp]:
  "jr_group_id (row_to_join_request row) = jw_group_id row"
  "requester_stable_pubkey (row_to_join_request row) = jw_requester_stable_pubkey row"
  "jr_created_at (row_to_join_request row) = jw_created_at row"
  by (simp_all add: row_to_join_request_def)

lemma same_request_row: "same_request r (row_to_join_request row) \<longleftrightarrow>
    jw_group_id row = jr_group_id r \<and> jw_requester_stable_pubkey row = requester_stable_pubkey r"
  by (simp add: same_request_def)

lemma db_rel_requests:
  assumes "db_rel env d a" "table_ok jw_id t" "map row_to_join_request (rows t) = rs"
    "spec_inv (a\<lparr>sp_join_requests := rs\<rparr>)"
  shows "db_rel env (d\<lparr>t_join_requests := t\<rparr>) (a\<lparr>sp_join_requests := rs\<rparr>)"
  using assms by (simp add: db_rel_def)

lemma table_ok_map:
  assumes "table_ok idf t" "\<And>row. idf (f row) = idf row"
  shows "table_ok idf (t\<lparr>rows := map f (rows t)\<rparr>)"
  using assms by (auto simp: table_ok_def comp_def)

definition pure_store_join :: "JoinRequestRecord \<Rightarrow> (database, JoinRequestRecord) sop" where
  "pure_store_join r d =
     (if select_existing_request r d \<noteq> [] then sbind (pure_stmt (update_join_request r)) (\<lambda>_. sreturn r) d
      else if MAX_PENDING_JOIN_REQUESTS_PER_GROUP \<le> count_where (\<lambda>row. jw_group_id row = jr_group_id r) (t_join_requests d)
      then (Inl TooManyPendingJoinRequests, d)
      else sbind (pure_stmt (insert_join_request r)) (\<lambda>_. sreturn r) d)"

lemma sql_store_join_request_impl:
  "implements (sql_store_join_request r) (pure_transaction (pure_store_join r))"
proof -
  have body: "body_impl (sbind (query_row_optional (\<lambda>_. Inr ()) (select_existing_request r)) (\<lambda>existing.
          if existing \<noteq> None
          then sbind (prepare_execute (update_join_request r)) (\<lambda>_. sreturn r)
          else sbind (prepare_execute (count_join_requests (jr_group_id r))) (\<lambda>count.
              if MAX_PENDING_JOIN_REQUESTS_PER_GROUP \<le> count then sfail TooManyPendingJoinRequests
              else sbind (prepare_execute (insert_join_request r)) (\<lambda>_. sreturn r))))
     (sbind (\<lambda>d. (convert_first (\<lambda>_. Inr ()) (select_existing_request r d), d)) (\<lambda>existing.
          if existing \<noteq> None
          then sbind (pure_stmt (update_join_request r)) (\<lambda>_. sreturn r)
          else sbind (pure_stmt (count_join_requests (jr_group_id r))) (\<lambda>count.
              if MAX_PENDING_JOIN_REQUESTS_PER_GROUP \<le> count then sfail TooManyPendingJoinRequests
              else sbind (pure_stmt (insert_join_request r)) (\<lambda>_. sreturn r))))"
    (is "body_impl _ ?i")
    by (intro body_impls body_impl_if)
  have "?i = pure_store_join r"
    by (rule ext) (auto simp: sbind_def pure_store_join_def convert_first_def pure_stmt_def
        count_join_requests_def sfail_def split: list.split)
  with transaction_impl [OF body] show ?thesis unfolding sql_store_join_request_def by (simp only:)
qed

lemma update_join_request_rows:
  "map row_to_join_request (map (\<lambda>row. if jw_group_id row = jr_group_id r \<and>
       jw_requester_stable_pubkey row = requester_stable_pubkey r
     then row\<lparr>jw_key_package_ref := jr_key_package_ref r, jw_created_at := jr_created_at r\<rparr> else row) xs) =
   map (\<lambda>x. if same_request r x then refresh_request r x else x) (map row_to_join_request xs)"
  by (simp add: same_request_row) (simp add: row_to_join_request_def refresh_request_def)

lemma sql_store_join_request_refines:
  assumes "sql_rel env c a"
  shows "sql_refines env (=) (sql_store_join_request r) (spec_store_join_request r) c a"
proof -
  have d: "db_rel env (db c) a" using assms by (simp add: sql_rel_def)
  then have rs: "sp_join_requests a = map row_to_join_request (rows (t_join_requests (db c)))"
    and ok: "table_ok jw_id (t_join_requests (db c))" and inv: "spec_inv a"
    by (simp_all add: db_rel_def)
  have ex: "select_existing_request r (db c) \<noteq> [] \<longleftrightarrow> (\<exists>x \<in> set (sp_join_requests a). same_request r x)"
    by (auto simp: rs select_existing_request_def same_request_row filter_empty_conv)
  have cnt: "count_where (\<lambda>row. jw_group_id row = g) (t_join_requests (db c)) =
      length (group_requests g (sp_join_requests a))" for g
    by (simp add: rs count_where_def filter_map_row)
  have "rel_sum (=) (=) (fst (pure_store_join r (db c))) (fst (spec_store_join_request r a)) \<and>
    db_rel env (snd (pure_store_join r (db c))) (snd (spec_store_join_request r a))"
  proof (cases "\<exists>x \<in> set (sp_join_requests a). same_request r x")
    case True
    with spec_inv_store_join_request [OF inv, of r] show ?thesis
      using ex unfolding pure_store_join_def spec_store_join_request_def
      by (auto simp: Let_def sbind_def pure_stmt_def update_join_request_def sreturn_def
          update_join_request_rows rs simp del: map_map
          intro!: db_rel_requests [OF d] table_ok_map [OF ok])
  next
    case False
    with spec_inv_store_join_request [OF inv, of r] show ?thesis
      using ex cnt d unfolding pure_store_join_def spec_store_join_request_def
      by (auto simp: Let_def sbind_def pure_stmt_def insert_join_request_def sreturn_def
          intro!: db_rel_requests [OF d] table_ok_insert [OF ok])
        (auto simp: insert_row_def rs row_to_join_request_def)
  qed
  moreover have "pure_transaction (pure_store_join r) = pure_store_join r"
    by (rule ext) (auto simp: pure_transaction_def pure_store_join_def sbind_def pure_stmt_def
        update_join_request_def insert_join_request_def sreturn_def)
  ultimately show ?thesis
    by (intro implements_refines [OF sql_store_join_request_impl assms]) auto
qed

lemma delete_where_twice: "delete_where p (delete_where q t) = delete_where (\<lambda>r. q r \<or> p r) t"
  by (simp add: delete_where_def)

lemma delete_join_requests_eq:
  "pure_each (delete_join_request g) cs d = (Inr (), d\<lparr>t_join_requests := delete_where
     (\<lambda>row. jw_group_id row = g \<and> join_request_consumed cs (row_to_join_request row)) (t_join_requests d)\<rparr>)"
proof (induction cs arbitrary: d)
  case (Cons c cs)
  show ?case
    by (simp add: sbind_def pure_stmt_def delete_join_request_def [of g c] Cons delete_where_twice)
      (auto simp: join_request_consumed_Cons delete_where_def intro!: filter_cong
        arg_cong [where f = "\<lambda>x. d\<lparr>t_join_requests := t_join_requests d\<lparr>rows := x\<rparr>\<rparr>"])
qed (simp add: sreturn_def delete_where_def)

text \<open>Retiring rows of the abstract state's kind and reading the rest back, in id order.\<close>

lemma retired_requests:
  assumes "db_rel env d a"
  shows "map row_to_join_request (rows (delete_where (\<lambda>row. q (row_to_join_request row)) (t_join_requests d))) =
      filter (\<lambda>r. \<not> q r) (sp_join_requests a)"
    and "db_rel env (d\<lparr>t_join_requests := delete_where (\<lambda>row. q (row_to_join_request row)) (t_join_requests d)\<rparr>)
      (a\<lparr>sp_join_requests := filter (\<lambda>r. \<not> q r) (sp_join_requests a)\<rparr>)"
proof -
  have rs: "sp_join_requests a = map row_to_join_request (rows (t_join_requests d))"
    and ok: "table_ok jw_id (t_join_requests d)" and inv: "spec_inv a"
    using assms by (simp_all add: db_rel_def)
  show eq: "map row_to_join_request (rows (delete_where (\<lambda>row. q (row_to_join_request row)) (t_join_requests d))) =
      filter (\<lambda>r. \<not> q r) (sp_join_requests a)"
    by (simp add: rs delete_where_def filter_map_row)
  show "db_rel env (d\<lparr>t_join_requests := delete_where (\<lambda>row. q (row_to_join_request row)) (t_join_requests d)\<rparr>)
      (a\<lparr>sp_join_requests := filter (\<lambda>r. \<not> q r) (sp_join_requests a)\<rparr>)"
    by (rule db_rel_requests [OF assms table_ok_delete [OF ok] eq spec_inv_requests_filter [OF inv]])
qed

lemma group_rows:
  assumes "db_rel env d a"
  shows "map row_to_join_request (filter (\<lambda>row. jw_group_id row = g) (rows (t_join_requests d))) =
    group_requests g (sp_join_requests a)"
proof -
  have "sp_join_requests a = map row_to_join_request (rows (t_join_requests d))"
    using assms by (simp add: db_rel_def)
  then show ?thesis by (simp add: filter_map_row)
qed

lemma selected_requests:
  assumes "db_rel env d a"
  shows "map row_to_join_request (select_join_requests g d) = group_requests g (sp_join_requests a)"
    and "map row_to_join_request (select_many_join_requests gs d) =
      concat (map (\<lambda>g. group_requests g (sp_join_requests a)) gs)"
proof -
  have ok: "table_ok jw_id (t_join_requests d)" using assms by (simp add: db_rel_def)
  then have "sorted (map jw_id (rows (t_join_requests d)))"
    by (auto simp: table_ok_def intro: strict_sorted_imp_sorted)
  then have "sorted (map jw_id (filter (\<lambda>row. jw_group_id row = g) (rows (t_join_requests d))))" for g
    by (simp add: sorted_filter)
  note join = sorted_numbered_join [where key = jw_id and n = 0 and gs = gs, OF this]
  show "map row_to_join_request (select_join_requests g d) = group_requests g (sp_join_requests a)"
    by (simp add: select_join_requests_def table_ok_sort [OF ok] group_rows [OF assms])
  show "map row_to_join_request (select_many_join_requests gs d) =
      concat (map (\<lambda>g. group_requests g (sp_join_requests a)) gs)"
    unfolding select_many_join_requests_def join
    by (simp add: map_concat comp_def group_rows [OF assms])
qed

lemma sql_fetch_join_requests_impl:
  "implements (sql_fetch_pending_join_requests g cs)
     (pure_transaction (sbind (pure_each (delete_join_request g) cs)
        (\<lambda>_ d. (Inr (map row_to_join_request (select_join_requests g d)), d))))"
proof -
  have "body_impl (sbind driver_call (\<lambda>_. sbind (execute_each (delete_join_request g) cs) (\<lambda>_.
          query_map (\<lambda>row. Inr (row_to_join_request row)) (select_join_requests g))))
      (sbind (sreturn ()) (\<lambda>_. sbind (pure_each (delete_join_request g) cs)
        (\<lambda>_ d. (convert_rows (\<lambda>row. Inr (row_to_join_request row)) (select_join_requests g d), d))))"
    by (intro body_impls execute_each_impl)
  from transaction_impl [OF this] show ?thesis
    by (simp add: sql_fetch_pending_join_requests_def convert_rows_total)
qed

lemma sql_fetch_join_requests_refines:
  assumes "sql_rel env c a"
  shows "sql_refines env (=) (sql_fetch_pending_join_requests g cs) (spec_fetch_pending_join_requests g cs) c a"
proof -
  have d: "db_rel env (db c) a" using assms by (simp add: sql_rel_def)
  note ret = retired_requests(2) [OF d, of "\<lambda>r. jr_group_id r = g \<and> join_request_consumed cs r"]
  from selected_requests(1) [OF this, of g] ret show ?thesis
    by (intro implements_refines [OF sql_fetch_join_requests_impl assms])
      (auto simp: pure_transaction_def sbind_def delete_join_requests_eq
        spec_fetch_pending_join_requests_def Let_def simp del: filter_filter)
qed

fun pure_retire :: "(string \<times> ConsumedJoinRequestRef list) list \<Rightarrow> string list \<Rightarrow> (database, unit) sop" where
  "pure_retire m [] = sreturn ()"
| "pure_retire m (g # gs) =
     sbind (case map_of m g of None \<Rightarrow> sreturn () | Some l \<Rightarrow> pure_each (delete_join_request g) l)
       (\<lambda>_. pure_retire m gs)"

lemma retire_each_group_impl: "body_impl (retire_each_group m gs) (pure_retire m gs)"
proof (induction gs)
  case (Cons g gs)
  then show ?case
    by (cases "map_of m g") (auto intro!: body_impls execute_each_impl simp: body_impl_bind)
qed (auto intro!: body_impls)

lemma pure_retire_eq:
  "pure_retire m gs d = (Inr (), d\<lparr>t_join_requests := delete_where
     (\<lambda>row. jw_group_id row \<in> set gs \<and>
        join_request_consumed (get_or_default m (jw_group_id row)) (row_to_join_request row))
     (t_join_requests d)\<rparr>)"
proof (induction gs arbitrary: d)
  case (Cons g gs)
  let ?P = "\<lambda>gs row. jw_group_id row \<in> set gs \<and>
    join_request_consumed (get_or_default m (jw_group_id row)) (row_to_join_request row)"
  have one: "(case map_of m g of None \<Rightarrow> sreturn () | Some l \<Rightarrow> pure_each (delete_join_request g) l) d =
      (Inr (), d\<lparr>t_join_requests := delete_where (?P [g]) (t_join_requests d)\<rparr>)"
    by (cases "map_of m g")
      (auto simp: delete_join_requests_eq sreturn_def delete_where_def get_or_default_def
        intro!: arg_cong [where f = "\<lambda>x. d\<lparr>t_join_requests := t_join_requests d\<lparr>rows := x\<rparr>\<rparr>"] filter_cong)
  have "delete_where (?P gs) (delete_where (?P [g]) (t_join_requests d)) =
      delete_where (?P (g # gs)) (t_join_requests d)"
    unfolding delete_where_twice by (rule arg_cong [where f = "\<lambda>p. delete_where p (t_join_requests d)"]) auto
  then show ?case
    unfolding pure_retire.simps sbind_def one prod.case sum.case Cons.IH
    by simp
qed (simp add: sreturn_def delete_where_def)

lemma sql_fetch_many_join_requests_refines:
  assumes "sql_rel env c a"
  shows "sql_refines env (=) (sql_fetch_many_pending_join_requests gs cs)
    (spec_fetch_many_pending_join_requests gs cs) c a"
proof (cases "gs = []")
  case True
  with assms show ?thesis
    by (auto simp: refines_def sql_fetch_many_pending_join_requests_def
        spec_fetch_many_pending_join_requests_def sreturn_def)
next
  case False
  let ?m = "partition_consumed_join_requests cs"
  have d: "db_rel env (db c) a" using assms by (simp add: sql_rel_def)
  have "body_impl (sbind driver_call (\<lambda>_. sbind (retire_each_group ?m gs) (\<lambda>_.
          query_map (\<lambda>row. Inr (row_to_join_request row)) (select_many_join_requests gs))))
      (sbind (sreturn ()) (\<lambda>_. sbind (pure_retire ?m gs)
        (\<lambda>_ d. (convert_rows (\<lambda>row. Inr (row_to_join_request row)) (select_many_join_requests gs d), d))))"
    by (intro body_impls retire_each_group_impl)
  from transaction_impl [OF this] False
  have impl: "implements (sql_fetch_many_pending_join_requests gs cs)
      (pure_transaction (sbind (pure_retire ?m gs)
        (\<lambda>_ d. (Inr (map row_to_join_request (select_many_join_requests gs d)), d))))"
    by (simp add: sql_fetch_many_pending_join_requests_def convert_rows_total)
  note ret = retired_requests(2) [OF d, of "\<lambda>r. jr_group_id r \<in> set gs \<and>
    join_request_consumed (consumed_in_group cs (jr_group_id r)) r"]
  from selected_requests(2) [OF this, of gs] ret show ?thesis
    by (intro implements_refines [OF impl assms])
      (auto simp: pure_transaction_def sbind_def pure_retire_eq get_or_default_partition
        spec_fetch_many_pending_join_requests_def Let_def consumed_in_group_def simp del: filter_filter)
qed

lemma sql_delete_expired_join_requests_refines:
  assumes "sql_rel env c a"
  shows "sql_refines env (=) (sql_delete_expired_join_requests th) (spec_delete_expired_join_requests th) c a"
proof (cases "th \<le> 0")
  case True
  with assms show ?thesis
    by (auto simp: refines_def sql_delete_expired_join_requests_def
        spec_delete_expired_join_requests_def sreturn_def)
next
  case False
  have d: "db_rel env (db c) a" using assms by (simp add: sql_rel_def)
  then have "sp_join_requests a = map row_to_join_request (rows (t_join_requests (db c)))"
    by (simp add: db_rel_def)
  then have "length (filter (\<lambda>r. jr_created_at r < th) (sp_join_requests a)) =
        count_where (\<lambda>row. jw_created_at row < th) (t_join_requests (db c))"
    by (simp add: count_where_def filter_map_row)
  with False retired_requests(2) [OF d, of "\<lambda>r. jr_created_at r < th"] show ?thesis
    unfolding sql_delete_expired_join_requests_def
    by (auto intro!: implements_refines [OF prepare_execute_impl assms]
        simp: pure_stmt_def delete_old_join_requests_def spec_delete_expired_join_requests_def not_less)
qed

section \<open>Group messages\<close>

lemma row_to_group_message_fields [simp]:
  "cursor (row_to_group_message row) = mr_cursor row"
  "gm_group_id (row_to_group_message row) = mr_group_id row"
  by (simp_all add: row_to_group_message_def)

lemma selected_messages:
  assumes "db_rel env d a"
  shows "map row_to_group_message (filter (\<lambda>row. mr_group_id row = g \<and> unwrap_or 0 after < mr_cursor row)
      (rows (t_group_messages d))) = log_after g after (sp_messages a)"
    and "sorted (map mr_cursor (filter (\<lambda>row. mr_group_id row = g \<and> unwrap_or 0 after < mr_cursor row)
      (rows (t_group_messages d))))"
proof -
  have ms: "sp_messages a = map row_to_group_message (rows (t_group_messages d))"
    and cont: "contiguous (sp_messages a)"
    using assms by (simp_all add: db_rel_def spec_inv_def)
  show log: "map row_to_group_message (filter (\<lambda>row. mr_group_id row = g \<and> unwrap_or 0 after < mr_cursor row)
      (rows (t_group_messages d))) = log_after g after (sp_messages a)"
    by (simp add: ms log_after_def filter_map_row)
  have "sorted (map cursor (log_after g after (sp_messages a)))"
    unfolding log_after_alt by (rule sorted_filter [OF contiguous_sorted [OF cont]])
  then show "sorted (map mr_cursor (filter (\<lambda>row. mr_group_id row = g \<and> unwrap_or 0 after < mr_cursor row)
      (rows (t_group_messages d))))"
    unfolding log [symmetric] by (simp add: comp_def)
qed

lemma sql_fetch_group_messages_refines:
  assumes "sql_rel env c a"
  shows "sql_refines env (=) (sql_fetch_group_messages g after) (spec_fetch_group_messages g after) c a"
proof -
  have d: "db_rel env (db c) a" using assms by (simp add: sql_rel_def)
  have "map row_to_group_message (select_group_messages g (unwrap_or 0 after) (db c)) =
      log_after g after (sp_messages a)"
    unfolding select_group_messages_def
    by (simp only: sort_key_id_if_sorted [OF selected_messages(2) [OF d]] selected_messages(1) [OF d])
  with d show ?thesis unfolding sql_fetch_group_messages_def
    by (intro implements_refines [OF query_map_impl assms])
      (simp_all add: spec_fetch_group_messages_def convert_rows_total)
qed

lemma sql_fetch_many_group_messages_refines:
  assumes "sql_rel env c a"
  shows "sql_refines env (=) (sql_fetch_many_group_messages gs) (spec_fetch_many_group_messages gs) c a"
proof (cases "gs = []")
  case True
  with assms show ?thesis
    by (auto simp: refines_def sql_fetch_many_group_messages_def spec_fetch_many_group_messages_def
        sreturn_def)
next
  case False
  have d: "db_rel env (db c) a" using assms by (simp add: sql_rel_def)
  note join = sorted_numbered_join [where key = mr_cursor and n = 0 and gs = gs,
    OF selected_messages(2) [OF d]]
  have "map row_to_group_message (select_many_group_messages gs (db c)) =
      concat (map (\<lambda>g. log_after (fg_group_id g) (after_cursor g) (sp_messages a)) gs)"
    unfolding select_many_group_messages_def join
    by (simp add: map_concat comp_def selected_messages(1) [OF d])
  with d False show ?thesis unfolding sql_fetch_many_group_messages_def
    by (auto intro!: implements_refines [OF query_map_impl assms]
        simp: spec_fetch_many_group_messages_def convert_rows_total)
qed

definition pure_append :: "'j sqlite_env \<Rightarrow> AppendGroupMessageParams \<Rightarrow> (database, GroupMessageRecord) sop"
  where
  "pure_append env p =
     sbind (\<lambda>d. (convert_first Inr (select_last_cursor (ap_group_id p) d), d)) (\<lambda>last.
          let c = wrap64 (unwrap_or 0 last + 1) in
          if c \<le> 0 then sfail (Backend cursor_exhausted)
          else
            sbind (pure_stmt (insert_group_message env c p)) (\<lambda>_.
            sbind (pure_stmt (upsert_group_routing (ap_group_id p) c)) (\<lambda>_.
              sreturn \<lparr>cursor = c, gm_group_id = ap_group_id p,
                opaque_message = ap_opaque_message p, gm_created_at = ap_created_at p\<rparr>)))"

lemma sql_append_impl: "implements (sql_append_group_message env p) (pure_transaction (pure_append env p))"
  unfolding sql_append_group_message_def pure_append_def Let_def
  by (intro transaction_impl body_impls body_impl_if)

lemma routing_append:
  assumes "routing_ok routing ms" "cursor m = int (length (group_log (gm_group_id m) ms)) + 1"
  shows "routing_ok (AList.update (gm_group_id m) (cursor m) routing) (ms @ [m])"
  using assms by (auto simp: routing_ok_def map_of_update)

lemma pure_append_eq:
  assumes d: "db_rel env d a" and room: "cursor_room (ap_group_id p) a"
  shows "fst (pure_append env p d) = fst (spec_append_group_message p a) \<and>
    db_rel env (snd (pure_append env p d)) (snd (spec_append_group_message p a))"
proof -
  let ?n = "length (group_log (ap_group_id p) (sp_messages a))"
  let ?m = "\<lparr>cursor = int ?n + 1, gm_group_id = ap_group_id p, opaque_message = ap_opaque_message p,
    gm_created_at = ap_created_at p\<rparr>"
  have ms: "sp_messages a = map row_to_group_message (rows (t_group_messages d))"
    and inv: "spec_inv a" and rt: "routing_ok (t_group_routing d) (sp_messages a)"
    and ok: "table_ok mr_id (t_group_messages d)"
    using d by (simp_all add: db_rel_def)
  have "convert_first Inr (select_last_cursor (ap_group_id p) d) =
      Inr (if ?n = 0 then None else Some (int ?n))"
    using rt by (auto simp: convert_first_def select_last_cursor_def routing_ok_def)
  moreover have "wrap64 (int ?n + 1) = int ?n + 1"
    using room by (intro wrap64_id) (auto simp: cursor_room_def is_i64_def)
  ultimately have c: "convert_first Inr (select_last_cursor (ap_group_id p) d) = Inr (if ?n = 0 then None else Some (int ?n))"
    "wrap64 (unwrap_or 0 (if ?n = 0 then None else Some (int ?n)) + 1) = int ?n + 1" by auto
  have "\<not> (\<exists>row \<in> set (rows (t_group_messages d)). mr_group_id row = ap_group_id p \<and> mr_cursor row = int ?n + 1)"
    using contiguous_cursor_bounds [of "sp_messages a" _ "ap_group_id p"] inv
    by (force simp: spec_inv_def ms)
  then have ins: "insert_group_message env (int ?n + 1) p d = Inr ((), d\<lparr>t_group_messages :=
      insert_row (\<lambda>i. \<lparr>mr_id = i, mr_cursor = int ?n + 1, mr_group_id = ap_group_id p,
        mr_opaque_message = ap_opaque_message p, mr_created_at = ap_created_at p\<rparr>) (t_group_messages d)\<rparr>)"
    by (simp add: insert_group_message_def)
  have "pure_append env p d = (Inr ?m, d\<lparr>t_group_messages :=
      insert_row (\<lambda>i. \<lparr>mr_id = i, mr_cursor = int ?n + 1, mr_group_id = ap_group_id p,
        mr_opaque_message = ap_opaque_message p, mr_created_at = ap_created_at p\<rparr>) (t_group_messages d),
      t_group_routing := AList.update (ap_group_id p) (int ?n + 1) (t_group_routing d)\<rparr>)"
    unfolding pure_append_def sbind_def c prod.case sum.case Let_def
    by (simp add: ins pure_stmt_def upsert_group_routing_def sreturn_def)
  moreover have "spec_append_group_message p a = (Inr ?m, a\<lparr>sp_messages := sp_messages a @ [?m]\<rparr>)"
    by (simp add: spec_append_group_message_def Let_def)
  ultimately show ?thesis
    using d spec_inv_append [OF inv, of p] routing_append [OF rt, of ?m]
    by (auto simp: db_rel_def table_ok_insert) (auto simp: insert_row_def row_to_group_message_def)
qed

lemma sql_append_refines:
  assumes "sql_rel env c a" "cursor_room (ap_group_id p) a"
  shows "sql_refines env (=) (sql_append_group_message env p) (spec_append_group_message p) c a"
proof -
  have "db_rel env (db c) a" using assms by (simp add: sql_rel_def)
  note eq = pure_append_eq [OF this assms(2)]
  moreover have "pure_transaction (pure_append env p) (db c) = pure_append env p (db c)"
    using eq by (cases "pure_append env p (db c)")
      (auto simp: pure_transaction_def spec_append_group_message_def Let_def)
  ultimately show ?thesis
    by (intro implements_refines [OF sql_append_impl assms(1)])
      (simp_all add: spec_append_group_message_def Let_def)
qed

section \<open>The interface\<close>

lemma sql_storage:
  assumes "json_round_trip env"
  shows "coordinator_storage (sql_ops env) (sql_rel env) sql_reliable"
  by unfold_locales
    (auto simp: sql_ops_def sql_rel_def db_rel_def intro: sql_publish_refines [OF assms]
      sql_list_identity_refines sql_list_all_refines sql_get_refines sql_remove_refines
      sql_consume_refines sql_store_welcome_refines sql_fetch_welcomes_refines
      sql_delete_expired_welcomes_refines sql_store_join_request_refines
      sql_fetch_join_requests_refines sql_fetch_many_join_requests_refines
      sql_delete_expired_join_requests_refines sql_append_refines
      sql_fetch_group_messages_refines sql_fetch_many_group_messages_refines)

text \<open>An environment in which an event is its own JSON text.\<close>

definition text_env :: "string sqlite_env" where
  "text_env = \<lparr>json_to_string = Inr, json_from_str = Inr, constraint_error = ''UNIQUE constraint failed''\<rparr>"

lemma text_env_round_trip: "json_round_trip text_env"
  by (simp add: json_round_trip_def text_env_def)

interpretation sql_text: coordinator_storage "sql_ops text_env" "sql_rel text_env" sql_reliable
  by (rule sql_storage [OF text_env_round_trip])

end
