(* ===== verification/Storage_Properties.thy ===== *)
theory Storage_Properties
  imports In_Memory Sqlite_Contract
begin

text \<open>
  What the two storage backends guarantee, from their empty states and over whole runs of calls:
  they answer alike, the SQLite backend is atomic under engine failures, and the promises callers
  build on (gapless cursors, one-shot key packages, the cap on join requests). Two theorems record
  where the backends differ.
\<close>

abbreviation fresh_connection :: "string option list \<Rightarrow> connection" where
  "fresh_connection os \<equiv> \<lparr>db = empty_database, outcomes = os\<rparr>"

section \<open>Runs of the specification\<close>

fun payloads :: "string \<Rightarrow> 'j call list \<Rightarrow> bytes list" where
  "payloads g [] = []"
| "payloads g (AppendGroupMessage p # cs) =
     (if ap_group_id p = g then ap_opaque_message p # payloads g cs else payloads g cs)"
| "payloads g (c # cs) = payloads g cs"

lemma call_room_empty: "distinct (published_refs cs) \<Longrightarrow> int (length cs) + 2 \<le> 2 ^ 63 \<Longrightarrow> call_room cs spec_empty"
  by (simp add: call_room_def spec_empty_def)

lemma call_room_run: "call_room cs a \<Longrightarrow> admissible_run cs a"
  by (induction cs arbitrary: a) (auto intro: call_room_admissible call_room_step)

lemma exec_spec_log:
  "map opaque_message (group_log g (sp_messages (snd (exec spec_ops c a)))) =
     map opaque_message (group_log g (sp_messages a)) @ payloads g [c]"
proof (cases c)
  case (ConsumeKeyPackage x)
  then show ?thesis
    by (auto simp: spec_ops_def map_reply_def spec_consume_key_package_def spec_take_def
        spec_drop_ref_def split: option.splits)
qed (auto simp: spec_ops_def map_reply_def spec_defs Let_def)

lemma payloads_Cons: "payloads g (c # cs) = payloads g [c] @ payloads g cs"
  by (cases c) auto

lemma run_spec_log:
  "map opaque_message (group_log g (sp_messages (snd (run spec_ops cs a)))) =
     map opaque_message (group_log g (sp_messages a)) @ payloads g cs"
proof (induction cs arbitrary: a)
  case (Cons c cs)
  have "snd (run spec_ops (c # cs) a) = snd (run spec_ops cs (snd (exec spec_ops c a)))"
    by (simp add: split_def Let_def)
  with Cons exec_spec_log [of g c a] show ?case by (simp add: payloads_Cons [of g c cs])
qed simp

text \<open>What a full fetch of a group's log shows after a run of the specification.\<close>

definition numbered :: "bytes list \<Rightarrow> (i64 \<times> bytes) list" where
  "numbered ps = zip (map int [1..<Suc (length ps)]) ps"

lemma map_pair_zip: "map (\<lambda>x. (f x, h x)) xs = zip (map f xs) (map h xs)"
  by (induction xs) auto

lemma spec_log_numbered:
  assumes "spec_inv (snd (run spec_ops cs spec_empty))"
  shows "map (\<lambda>m. (cursor m, opaque_message m)) (log_after g None (sp_messages (snd (run spec_ops cs spec_empty)))) =
    numbered (payloads g cs)"
proof -
  let ?ms = "sp_messages (snd (run spec_ops cs spec_empty))"
  have c: "contiguous ?ms" using assms by (simp add: spec_inv_def)
  have all: "log_after g None ?ms = group_log g ?ms"
    unfolding log_after_alt using contiguous_cursor_bounds [OF c, of _ g] by (intro filter_True) fastforce
  have ps: "map opaque_message (group_log g ?ms) = payloads g cs"
    using run_spec_log [of g cs spec_empty] by (simp add: spec_empty_def)
  moreover have "map cursor (group_log g ?ms) = map int [1..<Suc (length (payloads g cs))]"
    using c ps unfolding contiguous_def by (metis length_map)
  ultimately show ?thesis
    unfolding all numbered_def map_pair_zip by (simp only:)
qed

section \<open>Atomicity of the SQLite operations\<close>

text \<open>An operation that reports an error has left the database as it was.\<close>

definition atomic :: "(connection, 'a) sop \<Rightarrow> bool" where
  "atomic m \<longleftrightarrow> (\<forall>c e c'. m c = (Inl e, c') \<longrightarrow> db c' = db c)"

lemma atomic_transaction: "atomic (transaction m)"
  by (auto simp: atomic_def transaction_def driver_call_def split: prod.splits sum.splits list.splits option.splits)

lemma implements_atomic:
  assumes "implements m i" "\<And>d e d'. i d = (Inl e, d') \<Longrightarrow> d' = d"
  shows "atomic m"
  unfolding atomic_def
proof (intro allI impI)
  fix c e c' assume m: "m c = (Inl e, c')"
  obtain r d where i: "i (db c) = (r, d)" by force
  from implementsD [OF assms(1) m i] assms(2) i show "db c' = db c" by auto
qed

lemma atomic_map_reply:
  assumes "atomic m"
  shows "atomic (map_reply f m)"
  unfolding atomic_def
proof (intro allI impI)
  fix c e c' assume "map_reply f m c = (Inl e, c')"
  then have "m c = (Inl e, c')" by (cases "m c"; cases "fst (m c)") (auto simp: map_reply_def)
  with assms show "db c' = db c" by (auto simp: atomic_def)
qed

lemma atomic_read: "implements m (\<lambda>d. (f d, d)) \<Longrightarrow> atomic m"
  by (erule implements_atomic) simp

lemma atomic_stmt: "implements m (sbind (pure_stmt f) (\<lambda>_. sreturn x)) \<Longrightarrow> atomic m"
  by (erule implements_atomic) (auto simp: sbind_def pure_stmt_def sreturn_def split: sum.splits)

lemma atomic_sfail: "atomic (sfail e)"
  by (simp add: atomic_def sfail_def)

lemma atomic_sreturn: "atomic (sreturn x)"
  by (simp add: atomic_def sreturn_def)

lemma atomic_publish: "atomic (sql_publish_key_package env r)"
  by (cases "json_to_string env (publication_event r)")
    (auto simp: sql_publish_key_package_def atomic_sfail
      intro!: atomic_stmt [OF implements_map [OF prepare_execute_impl]])

lemma atomic_remove: "atomic (sql_remove_key_package env x)"
  by (rule implements_atomic [OF sql_remove_impl])
    (auto simp: sbind_def pure_stmt_def sreturn_def delete_key_package_def split: sum.splits option.splits)

lemma atomic_ops:
  "atomic (exec (sql_ops env) c)"
proof (cases c)
  case (DeleteExpiredWelcomes th)
  then show ?thesis
    by (auto simp: sql_ops_def sql_delete_expired_welcomes_def delete_old_welcomes_def [abs_def]
        intro!: atomic_map_reply atomic_sreturn implements_atomic [OF prepare_execute_impl] split: if_splits)
next
  case (DeleteExpiredJoinRequests th)
  then show ?thesis
    by (auto simp: sql_ops_def sql_delete_expired_join_requests_def delete_old_join_requests_def [abs_def]
        intro!: atomic_map_reply atomic_sreturn implements_atomic [OF prepare_execute_impl] split: if_splits)
next
  case (FetchManyGroupMessages fs)
  then show ?thesis
    by (auto simp: sql_ops_def sql_fetch_many_group_messages_def
        intro!: atomic_map_reply atomic_sreturn atomic_read [OF query_map_impl])
next
  case (FetchManyPendingJoinRequests gs cs)
  then show ?thesis
    by (auto simp: sql_ops_def sql_fetch_many_pending_join_requests_def
        intro!: atomic_map_reply atomic_sreturn atomic_transaction)
qed (auto simp: sql_ops_def sql_list_key_packages_for_identity_def sql_list_all_key_packages_def
    sql_get_key_package_def sql_consume_key_package_def sql_fetch_pending_welcomes_def
    sql_store_join_request_def sql_fetch_pending_join_requests_def sql_append_group_message_def
    sql_fetch_group_messages_def
    intro!: atomic_map_reply atomic_transaction atomic_publish atomic_remove
      atomic_read [OF query_map_impl] atomic_read [OF query_row_impl] atomic_stmt [OF sql_store_welcome_impl])

section \<open>Runs\<close>

lemma mem_run:
  assumes "distinct (published_refs cs)" "int (length cs) + 2 \<le> 2 ^ 63"
  shows "list_all2 (rel_sum (=) same_reply) (fst (run mem_ops cs InMemoryInner_default)) (fst (run spec_ops cs spec_empty))"
    "mem_rel (snd (run mem_ops cs InMemoryInner_default)) (snd (run spec_ops cs spec_empty))"
  using mem.run_simulates [OF mem_rel_default _ call_room_run [OF call_room_empty [OF assms]]] by simp_all

lemma sql_rel_fresh: "sql_rel env (fresh_connection os) spec_empty"
  using empty_database_rel [of env] by (simp add: sql_rel_def)

lemma sql_run:
  assumes "json_round_trip env" "distinct (published_refs cs)" "int (length cs) + 2 \<le> 2 ^ 63"
  shows "list_all2 (rel_sum (=) same_reply) (fst (run (sql_ops env) cs (fresh_connection []))) (fst (run spec_ops cs spec_empty))"
    "sql_rel env (snd (run (sql_ops env) cs (fresh_connection []))) (snd (run spec_ops cs spec_empty))"
    "outcomes (snd (run (sql_ops env) cs (fresh_connection []))) = []"
  using coordinator_storage.run_simulates [OF sql_storage [OF assms(1)] sql_rel_fresh _ call_room_run [OF call_room_empty [OF assms(2,3)]], of "[]"]
  by (simp_all add: sql_reliable_def)

lemma same_answer_trans:
  assumes "list_all2 (rel_sum (=) same_reply) xs zs" "list_all2 (rel_sum (=) same_reply) ys zs"
  shows "list_all2 (rel_sum (=) same_reply) xs ys"
proof -
  have "rel_sum (=) same_reply x y" if "rel_sum (=) same_reply x z" "rel_sum (=) same_reply y z" for x y z
    using that by (auto simp: rel_sum.simps intro: same_reply_trans [OF _ same_reply_sym])
  with assms show ?thesis unfolding list_all2_conv_all_nth by metis
qed

text \<open>A key package, and a run of calls that every theorem below can be tried on.\<close>

definition sample_key_package :: "string \<Rightarrow> string \<Rightarrow> bool \<Rightarrow> string PublishedKeyPackageRecord" where
  "sample_key_package pk x lr = \<lparr>stable_pubkey = pk, key_package_bytes = [1, 2], key_package_ref = x,
     is_last_resort = lr, published_at = 7, publication_event = ''{}''\<rparr>"

definition sample_calls :: "string call list" where
  "sample_calls =
     [PublishKeyPackage (sample_key_package ''alice'' ''r1'' True),
      PublishKeyPackage (sample_key_package ''alice'' ''r2'' False),
      ConsumeKeyPackage ''alice'', ConsumeKeyPackage ''alice'', ListAllKeyPackages,
      AppendGroupMessage \<lparr>ap_group_id = ''g'', ap_opaque_message = [3], ap_created_at = 1\<rparr>,
      AppendGroupMessage \<lparr>ap_group_id = ''g'', ap_opaque_message = [4], ap_created_at = 2\<rparr>,
      StoreJoinRequest \<lparr>jr_group_id = ''g'', requester_stable_pubkey = ''bob'',
        jr_key_package_ref = ''r3'', jr_created_at = 9\<rparr>]"

lemma sample_calls_room: "distinct (published_refs sample_calls)" "int (length sample_calls) + 2 \<le> 2 ^ 63"
  by (simp_all add: sample_calls_def sample_key_package_def)

section \<open>Choosing a key package\<close>

lemma find_drop_ref:
  "find (\<lambda>r. key_package_ref r = x) (filter (\<lambda>r. key_package_ref r \<noteq> x) rs) = None"
  by (simp add: find_None_iff)

lemma spec_consume_facts:
  assumes inv: "spec_inv a" and some: "spec_consume_choice x (sp_key_packages a) = Some r"
  shows "key_package_ref r = x \<or> stable_pubkey r = x"
    "fst (spec_get_key_package (key_package_ref r) (snd (spec_consume_key_package x a))) =
      Inr (if is_last_resort r then Some r else None)"
    "key_package_ref r \<noteq> x \<Longrightarrow> is_last_resort r \<Longrightarrow>
      \<forall>k \<in> set (sp_key_packages a). stable_pubkey k = x \<longrightarrow> is_last_resort k"
proof -
  let ?rs = "sp_key_packages a"
  have d: "distinct (map key_package_ref ?rs)" using inv by (simp add: spec_inv_def)
  have mem: "r \<in> set ?rs \<and> (key_package_ref r = x \<or> stable_pubkey r = x)"
  proof -
    have "last xs \<in> set ?rs \<and> stable_pubkey (last xs) = x" if "xs = filter (\<lambda>r. stable_pubkey r = x) ?rs" "xs \<noteq> []" for xs
      using that last_in_set [OF that(2)] by auto
    with some show ?thesis
      by (auto simp: spec_consume_choice_def last_opt_def split: option.splits if_splits dest: find_SomeD)
  qed
  then show "key_package_ref r = x \<or> stable_pubkey r = x" by simp
  show "fst (spec_get_key_package (key_package_ref r) (snd (spec_consume_key_package x a))) =
      Inr (if is_last_resort r then Some r else None)"
    using some mem find_unique [OF d]
    by (simp add: spec_consume_key_package_def spec_take_def spec_drop_ref_def spec_get_key_package_def find_drop_ref)
  assume "key_package_ref r \<noteq> x" "is_last_resort r"
  with some show "\<forall>k \<in> set ?rs. stable_pubkey k = x \<longrightarrow> is_last_resort k"
    by (auto simp: spec_consume_choice_def find_None_iff split: option.splits dest: find_SomeD)
qed

section \<open>Properties\<close>

text \<open>
  C7. The two backends answer alike. Over every run of storage calls from the empty state that
  publishes no key-package reference twice, the in-memory backend and the SQLite backend on an
  engine that does not fail give the same replies and the same errors, call by call; only the order of \<open>list_all_key_packages\<close> may differ.
\<close>

theorem storage_parity:
  assumes "json_round_trip env" "distinct (published_refs cs)" "int (length cs) + 2 \<le> 2 ^ 63"
  shows "list_all2 (rel_sum (=) same_reply) (fst (run mem_ops cs InMemoryInner_default))
    (fst (run (sql_ops env) cs (fresh_connection [])))"
  by (rule same_answer_trans [OF mem_run(1) [OF assms(2,3)] sql_run(1) [OF assms]])

theorem storage_parity_witness:
  "list_all2 (rel_sum (=) same_reply) (fst (run mem_ops sample_calls InMemoryInner_default))
    (fst (run (sql_ops text_env) sample_calls (fresh_connection [])))"
  by (rule storage_parity [OF text_env_round_trip sample_calls_room])

text \<open>
  C10. The SQLite backend under arbitrary engine failures. Whatever driver calls fail (\<open>os\<close>), the
  storage calls that did not report a backend error answered exactly as the specification does on
  those calls alone: a failed call has no effect, and no other call is disturbed.
\<close>

theorem sqlite_run_with_failures:
  assumes "json_round_trip env" "distinct (published_refs cs)" "int (length cs) + 2 \<le> 2 ^ 63"
  shows "list_all2 (rel_sum (=) same_reply)
    (filter (\<lambda>r. \<not> backend_failure r) (fst (run (sql_ops env) cs (fresh_connection os))))
    (fst (run spec_ops (answered (sql_ops env) cs (fresh_connection os)) spec_empty))"
  using coordinator_storage.run_with_failures [OF sql_storage [OF assms(1)] sql_rel_fresh call_room_empty [OF assms(2,3)]]
  by simp

theorem sqlite_run_with_failures_witness:
  "list_all2 (rel_sum (=) same_reply)
    (filter (\<lambda>r. \<not> backend_failure r) (fst (run (sql_ops text_env) sample_calls (fresh_connection [None, Some ''disk I/O error'']))))
    (fst (run spec_ops (answered (sql_ops text_env) sample_calls (fresh_connection [None, Some ''disk I/O error''])) spec_empty))"
  by (rule sqlite_run_with_failures [OF text_env_round_trip sample_calls_room])

text \<open>
  C14. Every storage call of the SQLite backend is atomic: when it reports an error of any kind (an
  engine failure at any point, a violated constraint, a full group), the database is unchanged.
\<close>

theorem sqlite_atomic:
  assumes "exec (sql_ops env) c s = (Inl e, s')"
  shows "db s' = db s"
  using atomic_ops [of env c] assms by (simp add: atomic_def)

theorem sqlite_atomic_witness:
  "db (snd (exec (sql_ops text_env) (PublishKeyPackage (sample_key_package ''alice'' ''r1'' True))
     (fresh_connection [None, Some ''disk full'']))) = empty_database"
proof -
  let ?c = "PublishKeyPackage (sample_key_package ''alice'' ''r1'' True)"
  let ?s = "fresh_connection [None, Some ''disk full'']"
  have "fst (exec (sql_ops text_env) ?c ?s) = Inl (Backend ''disk full'')"
    by (simp add: sql_ops_def map_reply_def sql_publish_key_package_def text_env_def sbind_def
        prepare_execute_def execute_def driver_call_def)
  then have "exec (sql_ops text_env) ?c ?s = (Inl (Backend ''disk full''), snd (exec (sql_ops text_env) ?c ?s))"
    by (metis prod.collapse)
  from sqlite_atomic [OF this] show ?thesis by simp
qed

text \<open>
  C22. Group logs are gapless and faithful. After any run, fetching a group's messages returns
  exactly the payloads appended to that group, in order, with cursors \<open>1, 2, 3, \<dots>\<close>; under engine
  failures, the payloads of the appends that were answered.
\<close>

theorem group_log_round_trip:
  assumes "json_round_trip env" "distinct (published_refs cs)" "int (length cs) + 2 \<le> 2 ^ 63"
    and "fst (sql_fetch_group_messages g None (snd (run (sql_ops env) cs (fresh_connection os)))) = Inr log"
  shows "map (\<lambda>m. (cursor m, opaque_message m)) log =
    numbered (payloads g (answered (sql_ops env) cs (fresh_connection os)))"
proof -
  let ?a = "snd (run spec_ops (answered (sql_ops env) cs (fresh_connection os)) spec_empty)"
  have rel: "sql_rel env (snd (run (sql_ops env) cs (fresh_connection os))) ?a"
    using coordinator_storage.run_with_failures [OF sql_storage [OF assms(1)] sql_rel_fresh call_room_empty [OF assms(2,3)]]
    by simp
  then have "spec_inv ?a" by (simp add: sql_rel_def db_rel_def)
  moreover have "log = log_after g None (sp_messages ?a)"
    using sql_fetch_group_messages_refines [OF rel, of g None] assms(4)
    by (auto simp: refines_def spec_fetch_group_messages_def)
  ultimately show ?thesis using spec_log_numbered by blast
qed

theorem group_log_round_trip_witness:
  "\<exists>log. fst (sql_fetch_group_messages ''g'' None (snd (run (sql_ops text_env) sample_calls (fresh_connection [])))) = Inr log \<and>
     map (\<lambda>m. (cursor m, opaque_message m)) log =
       numbered (payloads ''g'' (answered (sql_ops text_env) sample_calls (fresh_connection [])))"
proof -
  let ?s = "snd (run (sql_ops text_env) sample_calls (fresh_connection []))"
  have "sql_reliable ?s" using sql_run(3) [OF text_env_round_trip sample_calls_room] by (simp add: sql_reliable_def)
  with sql_fetch_group_messages_refines [OF sql_run(2) [OF text_env_round_trip sample_calls_room], of "''g''" None]
  obtain log where "fst (sql_fetch_group_messages ''g'' None ?s) = Inr log"
    by (auto simp: refines_def spec_fetch_group_messages_def rel_sum.simps)
  with group_log_round_trip [OF text_env_round_trip sample_calls_room this] show ?thesis by blast
qed

text \<open>
  C23. A key package is handed out as documented (in-memory backend). What \<open>consume_key_package\<close>
  returns matches the identifier by reference or by identity; a regular package is gone
  afterwards, a last-resort package stays; and a last-resort package is chosen by identity only
  when the identity has no regular package left.
\<close>

theorem consume_key_package_once:
  assumes "distinct (published_refs cs)" "int (length cs) + 2 \<le> 2 ^ 63"
    and "mem_consume_key_package x (snd (run mem_ops cs InMemoryInner_default)) = (Inr (Some r), s')"
  shows "(key_package_ref r = x \<or> stable_pubkey r = x) \<and>
    fst (mem_get_key_package (key_package_ref r) s') = Inr (if is_last_resort r then Some r else None) \<and>
    (key_package_ref r \<noteq> x \<longrightarrow> is_last_resort r \<longrightarrow>
      (\<forall>ks. fst (mem_list_key_packages_for_identity x (snd (run mem_ops cs InMemoryInner_default))) = Inr ks \<longrightarrow>
         (\<forall>k \<in> set ks. is_last_resort k)))"
proof -
  let ?s = "snd (run mem_ops cs InMemoryInner_default)" and ?a = "snd (run spec_ops cs spec_empty)"
  have rel: "mem_rel ?s ?a" by (rule mem_run(2) [OF assms(1,2)])
  have con: "fst (spec_consume_key_package x ?a) = Inr (Some r)" "mem_rel s' (snd (spec_consume_key_package x ?a))"
    using mem_consume_refines [OF rel, of x] assms(3) by (auto simp: refines_def rel_sum.simps)
  then have "spec_consume_choice x (sp_key_packages ?a) = Some r"
    by (auto simp: spec_consume_key_package_def split: option.splits)
  note facts = spec_consume_facts [OF mem.rel_inv [OF rel] this]
  have "fst (mem_get_key_package (key_package_ref r) s') =
      fst (spec_get_key_package (key_package_ref r) (snd (spec_consume_key_package x ?a)))"
    using mem_get_refines [OF con(2), of "key_package_ref r"] by (auto simp: refines_def sum.rel_eq)
  moreover have "fst (mem_list_key_packages_for_identity x ?s) =
      Inr (filter (\<lambda>k. stable_pubkey k = x) (sp_key_packages ?a))"
    using mem_list_identity_refines [OF rel, of x]
    by (auto simp: refines_def sum.rel_eq spec_list_key_packages_for_identity_def)
  ultimately show ?thesis using facts by auto
qed

theorem consume_key_package_once_witness:
  "fst (mem_get_key_package ''r1'' (snd (mem_consume_key_package ''alice''
     (snd (run mem_ops sample_calls InMemoryInner_default))))) = Inr (Some (sample_key_package ''alice'' ''r1'' True))"
proof -
  let ?s = "snd (run mem_ops sample_calls InMemoryInner_default)"
  have "fst (mem_consume_key_package ''alice'' ?s) = Inr (Some (sample_key_package ''alice'' ''r1'' True))"
    by code_simp
  then have "mem_consume_key_package ''alice'' ?s =
      (Inr (Some (sample_key_package ''alice'' ''r1'' True)), snd (mem_consume_key_package ''alice'' ?s))"
    by (metis prod.collapse)
  from consume_key_package_once [OF sample_calls_room this] show ?thesis
    by (simp add: sample_key_package_def)
qed

text \<open>
  C27. Pending join requests are bounded and per requester unique: after any run, on either backend,
  a group has at most \<open>MAX_PENDING_JOIN_REQUESTS_PER_GROUP\<close> of them and no requester twice.
\<close>

theorem join_requests_bounded:
  assumes "json_round_trip env" "distinct (published_refs cs)" "int (length cs) + 2 \<le> 2 ^ 63"
    and "fst (mem_fetch_pending_join_requests g [] (snd (run mem_ops cs InMemoryInner_default))) = Inr rs \<or>
      fst (sql_fetch_pending_join_requests g [] (snd (run (sql_ops env) cs (fresh_connection [])))) = Inr rs"
  shows "length rs \<le> MAX_PENDING_JOIN_REQUESTS_PER_GROUP \<and> distinct (map requester_stable_pubkey rs)"
proof -
  let ?a = "snd (run spec_ops cs spec_empty)"
  have mem: "mem_rel (snd (run mem_ops cs InMemoryInner_default)) ?a" by (rule mem_run(2) [OF assms(2,3)])
  have sql: "sql_rel env (snd (run (sql_ops env) cs (fresh_connection []))) ?a" by (rule sql_run(2) [OF assms(1-3)])
  have "rs = group_requests g (sp_join_requests ?a)"
    using mem_fetch_join_requests_refines [OF mem, of g "[]"] sql_fetch_join_requests_refines [OF sql, of g "[]"] assms(4)
    by (auto simp: refines_def spec_fetch_pending_join_requests_def Let_def)
  moreover have "spec_inv ?a" by (rule mem.rel_inv [OF mem])
  moreover have "distinct (map requester_stable_pubkey (group_requests g (sp_join_requests ?a)))"
  proof -
    have "distinct (map request_key (sp_join_requests ?a))" using \<open>spec_inv ?a\<close> by (simp add: spec_inv_def)
    then have "inj_on request_key (set (sp_join_requests ?a))" "distinct (sp_join_requests ?a)"
      by (simp_all add: distinct_map)
    then show ?thesis by (auto simp: distinct_map inj_on_def request_key_def)
  qed
  ultimately show ?thesis by (simp add: spec_inv_def)
qed

theorem join_requests_bounded_witness:
  "\<exists>rs. fst (mem_fetch_pending_join_requests ''g'' [] (snd (run mem_ops sample_calls InMemoryInner_default))) = Inr rs \<and>
     rs \<noteq> [] \<and> length rs \<le> MAX_PENDING_JOIN_REQUESTS_PER_GROUP \<and> distinct (map requester_stable_pubkey rs)"
proof -
  let ?r = "\<lparr>jr_group_id = ''g'', requester_stable_pubkey = ''bob'', jr_key_package_ref = ''r3'', jr_created_at = 9\<rparr>"
  have f: "fst (mem_fetch_pending_join_requests ''g'' [] (snd (run mem_ops sample_calls InMemoryInner_default))) = Inr [?r]"
    by code_simp
  from join_requests_bounded [OF text_env_round_trip sample_calls_room disjI1 [OF this]] f show ?thesis by blast
qed

section \<open>Where the backends differ\<close>

definition interleaved_publishes :: "string call list" where
  "interleaved_publishes =
     [PublishKeyPackage (sample_key_package ''alice'' ''r1'' False),
      PublishKeyPackage (sample_key_package ''bob'' ''r2'' False),
      PublishKeyPackage (sample_key_package ''alice'' ''r3'' False)]"

text \<open>
  The backends list all key packages in different orders: the in-memory backend groups them by
  identity, the SQLite backend lists them in the order of publication.
\<close>

theorem list_all_order_differs:
  "map_sum id (map key_package_ref) (fst (mem_list_all_key_packages (snd (run mem_ops interleaved_publishes InMemoryInner_default))))
      = Inr [''r1'', ''r3'', ''r2''] \<and>
   map_sum id (map key_package_ref) (fst (sql_list_all_key_packages text_env
        (snd (run (sql_ops text_env) interleaved_publishes (fresh_connection [])))))
      = Inr [''r1'', ''r2'', ''r3'']"
  by code_simp

text \<open>
  The backends differ on a reference published twice: the in-memory backend accepts the second
  package, the SQLite backend refuses it with a backend error.
\<close>

theorem duplicate_reference_differs:
  "fst (mem_publish_key_package (sample_key_package ''mallory'' ''r1'' False)
        (snd (run mem_ops interleaved_publishes InMemoryInner_default)))
      = Inr (sample_key_package ''mallory'' ''r1'' False) \<and>
   fst (sql_publish_key_package text_env (sample_key_package ''mallory'' ''r1'' False)
        (snd (run (sql_ops text_env) interleaved_publishes (fresh_connection []))))
      = Inl (Backend ''UNIQUE constraint failed'')"
  by code_simp

end
