(* ===== verification/Coordinator_Properties.thy ===== *)
theory Coordinator_Properties
  imports Coordinator_Exactly_Once Storage_Properties
begin

text \<open>
  What the coordinator guarantees to subscribers, over every interleaving of its lock sections
  (or, where stated, every interleaving in which posts do not overlap), and two executions that
  show where the guarantee ends.
\<close>

section \<open>Executions to try the theorems on\<close>

definition post :: "bytes \<Rightarrow> string event" where
  "post payload = PostAppend 5 \<lparr>pm_group_id = ''g'', pm_opaque_message = payload\<rparr>"

definition request_from :: "i64 option \<Rightarrow> FetchGroupMessagesInput" where
  "request_from after = \<lparr>fg_group_id = ''g'', after_cursor = after\<rparr>"

text \<open>A subscription opens while a first message is on its way, and a second one follows.\<close>

definition merging_events :: "string event list" where
  "merging_events = [post [1], OpenMany [request_from None], OpenFetch 1, PostPublish 0, OpenFinish 1,
     post [2], PostPublish 0]"

text \<open>Two posts append in one order and fan out in the other.\<close>

definition overlapping_events :: "string event list" where
  "overlapping_events = [OpenMany [request_from None], OpenFetch 1, OpenFinish 1,
     post [1], post [2], PostPublish 1, PostPublish 0]"

abbreviation sqlite_system :: "string option list \<Rightarrow> connection system" where
  "sqlite_system os \<equiv> system_new (Coordinator_new (fresh_connection os) None None)"

abbreviation memory_system :: "string InMemoryInner system" where
  "memory_system \<equiv> system_new (Coordinator_new InMemoryInner_default None None)"

lemma Coordinator_new_fields [simp]:
  "inner (Coordinator_new st ci ma) = SubscriberRegistry_new" "storage (Coordinator_new st ci ma) = st"
  by (simp_all add: Coordinator_new_def Let_def)

lemma owners_ok_start: "owners_ok (system_new (Coordinator_new st ci ma))"
  by (rule owners_ok_new) simp

lemma length_event_calls: "length (concat (map event_calls evs)) \<le> length evs"
proof (induction evs)
  case (Cons ev evs)
  have "length (event_calls ev) \<le> 1" by (cases ev) auto
  with Cons show ?case by simp
qed simp

lemma event_room:
  assumes "distinct (published_refs (concat (map event_calls evs)))" "int (length evs) + 2 \<le> 2 ^ 63"
  shows "call_room (concat (map event_calls evs)) spec_empty"
  using assms length_event_calls [of evs] by (intro call_room_empty) linarith+

section \<open>Properties\<close>

text \<open>
  C8. Exactly-once, in-order delivery of a merged subscription. In every interleaving in which
  posts do not overlap (subscriptions, fetches, other calls and engine failures may interleave
  freely), once no post is under way, an open multi-group subscription has received of each
  requested group exactly what fetching the group from the requested cursor returns: no loss at
  the seam of backlog and live delivery, no duplicate, no reordering.
\<close>

theorem subscription_exactly_once:
  assumes "json_round_trip env" "distinct (published_refs (concat (map event_calls evs)))" "int (length evs) + 2 \<le> 2 ^ 63"
    and "posts_serialized (sql_ops env) evs (sqlite_system os)"
    and "run_events (sql_ops env) evs (sqlite_system os) = Some sys" "in_flight sys = []"
    and "map_of (handles sys) i = Some h" "\<not> unsubscribed (subscription h)" "request h = Some gs"
      "distinct (map fg_group_id gs)" "x \<in> set gs"
    and "fst (sql_fetch_group_messages (fg_group_id x) (after_cursor x) (storage (coord sys))) = Inr log"
  shows "filter (\<lambda>m. gm_group_id m = fg_group_id x) (channel_contents i (coord sys)) = log"
proof -
  have "fst (so_fetch_group_messages (sql_ops env) (fg_group_id x) (after_cursor x) (storage (coord sys))) = Inr log"
    using assms(12) by (simp add: sql_ops_def)
  moreover have "sql_rel env (storage (Coordinator_new (fresh_connection os) None None)) spec_empty"
    by (simp add: sql_rel_fresh)
  ultimately show ?thesis
    using coordinator_storage.merged_exactly_once [OF sql_storage [OF assms(1)] _ _ event_room [OF assms(2,3)]
        assms(4-11)] by simp
qed

definition merging_final :: "connection system" where
  "merging_final = the (run_events (sql_ops text_env) merging_events (sqlite_system []))"

theorem subscription_exactly_once_witness:
  "map opaque_message (filter (\<lambda>m. gm_group_id m = ''g'') (channel_contents 1 (coord merging_final))) = [[1], [2]]"
proof -
  let ?x = "request_from None"
  let ?fetch = "sql_fetch_group_messages (fg_group_id ?x) (after_cursor ?x) (storage (coord merging_final))"
  have run: "run_events (sql_ops text_env) merging_events (sqlite_system []) \<noteq> None" by code_simp
  then have run: "run_events (sql_ops text_env) merging_events (sqlite_system []) = Some merging_final"
    by (auto simp: merging_final_def)
  have calls: "distinct (published_refs (concat (map event_calls merging_events)))"
    by (simp add: merging_events_def post_def)
  have len: "int (length merging_events) + 2 \<le> 2 ^ 63" by (simp add: merging_events_def)
  have ser: "posts_serialized (sql_ops text_env) merging_events (sqlite_system [])" by code_simp
  have quiet: "in_flight merging_final = []" by code_simp
  let ?h = "\<lparr>subscription = \<lparr>received = 0, subscriber_id = 1, group_ids = [''g''], unsubscribed = False\<rparr>,
    request = Some [?x]\<rparr>"
  have h: "map_of (handles merging_final) 1 = Some ?h" by code_simp
  have logs: "map_sum id (map opaque_message) (fst ?fetch) = Inr [[1], [2]]" by code_simp
  then obtain log where log: "fst ?fetch = Inr log" "map opaque_message log = [[1], [2]]"
    by (cases "fst ?fetch") auto
  have "filter (\<lambda>m. gm_group_id m = fg_group_id ?x) (channel_contents 1 (coord merging_final)) = log"
    by (rule subscription_exactly_once [OF text_env_round_trip calls len ser run quiet h _ _ _ _ log(1), of "[?x]"])
      simp_all
  with log(2) show ?thesis by (simp add: request_from_def)
qed

text \<open>
  C19. In every interleaving, overlapping posts included and over any backend whatsoever, a
  deduplicating subscriber never sends a record of a group twice or out of order: per group, the
  cursors on its channel increase strictly.
\<close>

theorem delivery_strictly_increasing:
  assumes "run_events ops evs (system_new (Coordinator_new st ci ma)) = Some sys"
    and "map_of (subscribers (inner (coord sys))) i = Some sub" "dedup sub"
  shows "sorted_wrt (<) (map cursor (filter (\<lambda>m. gm_group_id m = g) (sender sub)))"
proof -
  have "delivery_ok sub"
    by (rule delivery_ok_run [OF owners_ok_start _ assms(1,2)])
      (simp add: system_new_def SubscriberRegistry_new_def)
  with assms(3) show ?thesis by (simp add: delivery_ok_def)
qed

theorem delivery_strictly_increasing_witness:
  "\<exists>sub. map_of (subscribers (inner (coord merging_final))) 1 = Some sub \<and> length (sender sub) = 2 \<and>
     sorted_wrt (<) (map cursor (filter (\<lambda>m. gm_group_id m = ''g'') (sender sub)))"
proof -
  have run: "run_events (sql_ops text_env) merging_events (sqlite_system []) \<noteq> None" by code_simp
  then have run: "run_events (sql_ops text_env) merging_events (sqlite_system []) = Some merging_final"
    by (auto simp: merging_final_def)
  have sub: "map_option (\<lambda>s. (dedup s, length (sender s))) (map_of (subscribers (inner (coord merging_final))) 1) = Some (True, 2)"
    by code_simp
  then obtain sub where s: "map_of (subscribers (inner (coord merging_final))) 1 = Some sub" "dedup sub" "length (sender sub) = 2"
    by auto
  from delivery_strictly_increasing [OF run s(1,2)] s show ?thesis by blast
qed

text \<open>
  C18. No registration leaks. In every interleaving, once every subscription being opened has
  finished or failed and every handle has been unsubscribed (or dropped), the registry is empty:
  no subscriber, no group entry and no reference count is left behind.
\<close>

theorem registry_does_not_leak:
  assumes "run_events ops evs (system_new (Coordinator_new st ci ma)) = Some sys"
    and "setups sys = []" "\<forall>i h. map_of (handles sys) i = Some h \<longrightarrow> unsubscribed (subscription h)"
  shows "subscribers (inner (coord sys)) = [] \<and> group_subscribers (inner (coord sys)) = [] \<and>
    get_active_subscription_count (inner (coord sys)) = 0"
proof -
  have own: "owners_ok sys" by (rule owners_ok_run [OF owners_ok_start assms(1)])
  have "owned sys i = None" for i using assms(2,3) by (auto simp: owned_def split: option.split)
  from owners_ok_empty [OF own this] show ?thesis by (simp add: get_active_subscription_count_def)
qed

definition closing_final :: "connection system" where
  "closing_final = the (run_events (sql_ops text_env) (merging_events @ [SubscribeOne ''g'', Unsubscribe 1, Unsubscribe 2])
     (sqlite_system []))"

theorem registry_does_not_leak_witness:
  "subscribers (inner (coord closing_final)) = [] \<and> group_subscribers (inner (coord closing_final)) = [] \<and>
    get_active_subscription_count (inner (coord closing_final)) = 0"
proof -
  have run: "run_events (sql_ops text_env) (merging_events @ [SubscribeOne ''g'', Unsubscribe 1, Unsubscribe 2])
     (sqlite_system []) \<noteq> None" by code_simp
  then have run: "run_events (sql_ops text_env) (merging_events @ [SubscribeOne ''g'', Unsubscribe 1, Unsubscribe 2])
     (sqlite_system []) = Some closing_final" by (auto simp: closing_final_def)
  have "map (\<lambda>(i, h). unsubscribed (subscription h)) (handles closing_final) = [True, True]" by code_simp
  then have "\<forall>(i, h) \<in> set (handles closing_final). unsubscribed (subscription h)"
    by (auto simp: map_eq_Cons_conv)
  then have h: "\<forall>i h. map_of (handles closing_final) i = Some h \<longrightarrow> unsubscribed (subscription h)"
    by (auto dest: map_of_SomeD)
  have "setups closing_final = []" by code_simp
  from registry_does_not_leak [OF run this h] show ?thesis .
qed

text \<open>
  C28. A live-tail subscription receives, in every interleaving and over any backend, exactly the
  records of its group that are fanned out while it is open, each once and in fan-out order.
\<close>

theorem live_tail_receives_published:
  assumes "run_events ops evs (system_new (Coordinator_new st ci ma)) = Some sys"
    and "subscribe_group_messages g (coord sys) = (h, co)" "step ops (SubscribeOne g) sys = Some sys1"
    and "run_events ops evs' sys1 = Some sys2" "Unsubscribe (subscriber_id h) \<notin> set evs'"
  shows "channel_contents (subscriber_id h) (coord sys2) =
    filter (\<lambda>m. gm_group_id m = g) (published_in ops evs' sys1)"
proof -
  have own: "owners_ok sys" by (rule owners_ok_run [OF owners_ok_start assms(1)])
  then have reg: "reg_ok (inner (coord sys))" by (simp add: owners_ok_def)
  note so = subscribe_one_ok [OF reg assms(2)]
  have sys1: "sys1 = sys\<lparr>coord := co, handles :=
      AList.update (subscriber_id h) \<lparr>subscription = h, request = None\<rparr> (handles sys)\<rparr>"
    using assms(2,3) by auto
  have "tail_at sys1 (subscriber_id h) g []"
    by (simp add: tail_at_def sys1 so(1,5) map_of_update live_tail_def)
  from tail_at_run [OF owners_ok_step [OF own assms(3)] this assms(4,5)] show ?thesis
    by (auto simp: tail_at_def channel_contents_def)
qed

theorem live_tail_receives_published_witness:
  "\<exists>sys1 sys2. step (sql_ops text_env) (SubscribeOne ''g'') (sqlite_system []) = Some sys1 \<and>
     run_events (sql_ops text_env) [post [1], PostPublish 0] sys1 = Some sys2 \<and>
     published_in (sql_ops text_env) [post [1], PostPublish 0] sys1 \<noteq> [] \<and>
     channel_contents 1 (coord sys2) =
       filter (\<lambda>m. gm_group_id m = ''g'') (published_in (sql_ops text_env) [post [1], PostPublish 0] sys1)"
proof -
  let ?ops = "sql_ops text_env" and ?evs = "[post [1], PostPublish 0]"
  let ?sys1 = "the (step ?ops (SubscribeOne ''g'') (sqlite_system []))"
  have s1: "step ?ops (SubscribeOne ''g'') (sqlite_system []) = Some ?sys1" by code_simp
  have "run_events ?ops ?evs ?sys1 \<noteq> None" by code_simp
  then obtain sys2 where s2: "run_events ?ops ?evs ?sys1 = Some sys2" by auto
  have p: "published_in ?ops ?evs ?sys1 \<noteq> []" by code_simp
  obtain h co where so: "subscribe_group_messages ''g'' (coord (sqlite_system [])) = (h, co)" by force
  have "subscriber_id (fst (subscribe_group_messages ''g'' (coord (sqlite_system [])))) = 1" by code_simp
  with so have h: "subscriber_id h = 1" by simp
  have "channel_contents (subscriber_id h) (coord sys2) =
      filter (\<lambda>m. gm_group_id m = ''g'') (published_in ?ops ?evs ?sys1)"
    by (rule live_tail_receives_published [of ?ops "[]", OF _ so s1 s2]) (simp_all add: post_def)
  with s1 s2 p h show ?thesis by auto
qed

text \<open>
  Two posts that append in one order and fan out in the other: the subscriber takes the later cursor
  first and drops the earlier one as already seen. The message stays in the log and is never
  delivered.
\<close>

theorem overlapping_posts_lose_message:
  "(case run_events mem_ops overlapping_events memory_system of
      None \<Rightarrow> False
    | Some sys \<Rightarrow> in_flight sys = [] \<and>
        map cursor (channel_contents 1 (coord sys)) = [2] \<and>
        map_sum id (map cursor) (fst (mem_fetch_group_messages ''g'' None (storage (coord sys)))) = Inr [1, 2])"
  by code_simp

text \<open>The records of a group a subscriber has sent, and those an interleaving fans out.\<close>

abbreviation sent_of :: "string \<Rightarrow> nat \<Rightarrow> 's system \<Rightarrow> GroupMessageRecord list" where
  "sent_of g i sys \<equiv> filter (\<lambda>m. gm_group_id m = g) (channel_contents i (coord sys))"

abbreviation fanned_out :: "('s, 'j) CoordinatorStorage \<Rightarrow> string \<Rightarrow> 'j event list \<Rightarrow> 's system \<Rightarrow> GroupMessageRecord list" where
  "fanned_out ops g evs sys \<equiv> filter (\<lambda>m. gm_group_id m = g) (published_in ops evs sys)"

text \<open>
  C34. What a merged subscription receives once it is set up, in every interleaving and over any
  backend, overlapping posts included: of each of its groups, what it had received before, then
  of the records fanned out since, in fan-out order, those whose cursor exceeds every cursor of the group
  it has seen. So a record that is fanned out after one with a higher cursor is lost for it: the
  channel is the one it would have without that record.
\<close>

theorem merged_tail_receives_published:
  assumes "run_events ops evs (system_new (Coordinator_new st ci ma)) = Some sys"
    and "map_of (handles sys) i = Some h" "\<not> unsubscribed (subscription h)" "g \<in> set (group_ids (subscription h))"
    and "map_of (subscribers (inner (coord sys))) i = Some sub" "dedup sub" "\<not> buffering sub"
    and "run_events ops evs' sys = Some sys'" "Unsubscribe i \<notin> set evs'"
  shows "sent_of g i sys' = sent_of g i sys @ accept (last_cursor g sub) (fanned_out ops g evs' sys) \<and>
    (\<forall>xs m ys. fanned_out ops g evs' sys = xs @ m # ys \<and> (\<exists>x \<in> set xs. cursor m \<le> cursor x) \<longrightarrow>
       sent_of g i sys' = sent_of g i sys @ accept (last_cursor g sub) (xs @ ys))"
proof -
  have own: "owners_ok sys" by (rule owners_ok_run [OF owners_ok_start assms(1)])
  have "merged_at sys i g (sent_of g i sys) (last_cursor g sub)"
    using assms(2-7) by (simp add: merged_at_def channel_contents_def)
  from merged_at_run [OF own this assms(8,9)]
  have "sent_of g i sys' = sent_of g i sys @ accept (last_cursor g sub) (fanned_out ops g evs' sys)"
    by (auto simp: merged_at_def channel_contents_def)
  then show ?thesis by (auto simp: accept_overtaken)
qed

theorem merged_tail_receives_published_witness:
  "\<exists>sys sys' m n. run_events mem_ops (take 3 overlapping_events) memory_system = Some sys \<and>
     run_events mem_ops (drop 3 overlapping_events) sys = Some sys' \<and>
     fanned_out mem_ops ''g'' (drop 3 overlapping_events) sys = [m, n] \<and> cursor m = 2 \<and> cursor n = 1 \<and>
     sent_of ''g'' 1 sys' = [m]"
proof -
  let ?evs = "drop 3 overlapping_events"
  let ?sys = "the (run_events mem_ops (take 3 overlapping_events) memory_system)"
  have "run_events mem_ops (take 3 overlapping_events) memory_system \<noteq> None" by code_simp
  then have s: "run_events mem_ops (take 3 overlapping_events) memory_system = Some ?sys" by simp
  have "run_events mem_ops ?evs ?sys \<noteq> None" by code_simp
  then obtain sys' where s': "run_events mem_ops ?evs ?sys = Some sys'" by auto
  let ?h = "\<lparr>subscription = \<lparr>received = 0, subscriber_id = 1, group_ids = [''g''], unsubscribed = False\<rparr>,
    request = Some [request_from None]\<rparr>"
  let ?sub = "the (map_of (subscribers (inner (coord ?sys))) 1)"
  have h: "map_of (handles ?sys) 1 = Some ?h" by code_simp
  have "map_option (\<lambda>x. (dedup x, buffering x, last_cursor ''g'' x)) (map_of (subscribers (inner (coord ?sys))) 1) =
    Some (True, False, 0)" by code_simp
  then have sub: "map_of (subscribers (inner (coord ?sys))) 1 = Some ?sub" "dedup ?sub" "\<not> buffering ?sub"
    "last_cursor ''g'' ?sub = 0" by auto
  have out: "map cursor (fanned_out mem_ops ''g'' ?evs ?sys) = [2, 1]" by code_simp
  then obtain m n where mn: "fanned_out mem_ops ''g'' ?evs ?sys = [m, n]" "cursor m = 2" "cursor n = 1"
    by (auto simp: map_eq_Cons_conv)
  have quiet: "sent_of ''g'' 1 ?sys = []" by code_simp
  have "sent_of ''g'' 1 sys' = sent_of ''g'' 1 ?sys @ accept (last_cursor ''g'' ?sub) (fanned_out mem_ops ''g'' ?evs ?sys)"
    by (rule merged_tail_receives_published [THEN conjunct1, OF s h _ _ sub(1,2,3) s'])
      (simp_all add: overlapping_events_def post_def)
  then have "sent_of ''g'' 1 sys' = [m]" unfolding mn(1) quiet sub(4) by (simp add: mn)
  with s s' mn show ?thesis by blast
qed

text \<open>
  A request that names a group twice with different cursors loses backlog: the last cursor wins
  in the deduplication map, so the backlog asked for by the earlier entry is dropped.
\<close>

theorem repeated_group_loses_backlog:
  "(case run_events mem_ops [post [1], PostPublish 0, post [2], PostPublish 0,
          OpenMany [request_from None, request_from (Some 1)], OpenFetch 1, OpenFinish 1] memory_system of
      None \<Rightarrow> False
    | Some sys \<Rightarrow> map cursor (channel_contents 1 (coord sys)) = [2] \<and>
        map_sum id (map cursor) (fst (mem_fetch_many_group_messages [request_from None, request_from (Some 1)]
          (storage (coord sys)))) = Inr [1, 2, 2])"
  by code_simp

text \<open>
  C39. A failing multi-group subscription leaves no trace: when the backlog fetch fails, the error is
  passed on and every registry lookup is as before (only the id counter has moved).
\<close>

theorem failed_subscription_unregisters:
  assumes "reg_ok (inner co)" "subscribe_many_group_messages ops gs co = (Inl e, co')"
  shows "(\<forall>i. map_of (subscribers (inner co')) i = map_of (subscribers (inner co)) i) \<and>
    (\<forall>i. groups_of (inner co') i = groups_of (inner co) i) \<and>
    (\<forall>i. map_of (refcounts (inner co')) i = map_of (refcounts (inner co)) i)"
proof -
  obtain i gids reg where b: "begin_merge gs (inner co) = ((i, gids), reg)" by (metis prod.collapse)
  note bm = begin_merge_ok [OF assms(1) b]
  obtain r co1 where f: "on_storage (so_fetch_many_group_messages ops gs) (co\<lparr>inner := reg\<rparr>) = (r, co1)" by force
  then have inn: "inner co1 = reg" by (auto dest: on_storageD)
  from assms(2) b f have co': "co' = drop_subscriber i gids co1"
    by (cases r) (auto simp: subscribe_many_group_messages_def)
  have r: "reg_ok (inner co1)" "set gids = groups_of (inner co1) i" using bm inn by simp_all
  note dr = drop_subscriber_ok [OF r(1) bm(4) r(2)]
  have un: "groups_of (inner co) i = {}" "map_of (subscribers (inner co)) i = None"
    using next_id_unused [OF assms(1)] assms(1) bm(1)
    by (auto simp: reg_ok_def map_of_eq_None_iff)
  have grp: "groups_of (inner co') j = groups_of (inner co) j" for j
    using dr(2) bm(5) un inn co' by simp
  moreover have "map_of (refcounts (inner co')) j = map_of (refcounts (inner co)) j" for j
    using dr(1) assms(1) grp co' by (simp add: reg_ok_def refs_ok_def)
  moreover have "map_of (subscribers (inner co')) j = map_of (subscribers (inner co)) j" for j
    using dr(3) bm(6) un inn co' by (simp add: map_of_update)
  ultimately show ?thesis by blast
qed

theorem failed_subscription_unregisters_witness:
  "\<exists>co'. subscribe_many_group_messages (sql_ops text_env) [request_from None]
       (Coordinator_new (fresh_connection [Some ''disk I/O error'']) None None) = (Inl (Backend ''disk I/O error''), co') \<and>
     map_of (subscribers (inner co')) 1 = None"
proof -
  let ?co = "Coordinator_new (fresh_connection [Some ''disk I/O error'']) None None"
  let ?r = "subscribe_many_group_messages (sql_ops text_env) [request_from None] ?co"
  have "fst ?r = Inl (Backend ''disk I/O error'')" by code_simp
  then obtain co' where r: "?r = (Inl (Backend ''disk I/O error''), co')" by (metis prod.collapse)
  have "reg_ok (inner ?co)" by (simp add: reg_ok_new)
  from failed_subscription_unregisters [OF this r] r show ?thesis by (simp add: SubscriberRegistry_new_def)
qed

end
