(* ===== verification/F64.thy ===== *)
theory F64
  imports Prelude Complex_Main
begin

text \<open>
  The part of Rust's \<^verbatim>\<open>f64\<close> that the rate limiter uses: IEEE 754 binary64 values and their
  arithmetic with rounding to nearest, ties to even, gradual underflow and overflow to infinity. A
  finite value is the rational number it stands for (the sign of zero, which no operation here
  reveals, is dropped); every result goes through \<open>round_f64\<close>. The lemmas are those a reader of
  floating-point code needs: rounding is monotone, keeps what is already a double, and
  subtracting one from a double in \<open>[1, 2^53)\<close> is exact.
\<close>

section \<open>Definitions\<close>

datatype f64 = Fin rat | Infinity bool | NaN

definition pow2 :: "int \<Rightarrow> rat" where
  "pow2 e = (if 0 \<le> e then 2 ^ nat e else 1 / 2 ^ nat (- e))"

fun ilog2 :: "nat \<Rightarrow> nat" where
  "ilog2 n = (if n < 2 then 0 else Suc (ilog2 (n div 2)))"

declare ilog2.simps [simp del]

text \<open>The binary exponent of a positive number.\<close>

definition floor_log2 :: "rat \<Rightarrow> int" where
  "floor_log2 x =
     (let (a, b) = quotient_of x; k = int (ilog2 (nat a)) - int (ilog2 (nat b))
      in if pow2 k \<le> x then k else k - 1)"

definition round_even :: "rat \<Rightarrow> int" where
  "round_even q =
     (let n = \<lfloor>q\<rfloor>; d = q - of_int n in
      if d < 1 / 2 then n else if 1 / 2 < d then n + 1 else if even n then n else n + 1)"

text \<open>The exponent of the last place of a positive number: 53 bits, down to \<open>2^-1074\<close>.\<close>

definition last_place :: "rat \<Rightarrow> int" where
  "last_place x = max (floor_log2 x) (- 1022) - 52"

definition round_pos :: "rat \<Rightarrow> rat" where
  "round_pos x = of_int (round_even (x / pow2 (last_place x))) * pow2 (last_place x)"

text \<open>One past the largest finite double.\<close>

definition f64_overflow :: rat where
  "f64_overflow = 2 ^ 1024"

definition round_f64 :: "rat \<Rightarrow> f64" where
  "round_f64 x =
     (if x = 0 then Fin 0
      else let r = round_pos \<bar>x\<bar> in
        if f64_overflow \<le> r then Infinity (x < 0) else Fin (if x < 0 then - r else r))"

fun is_f64 :: "f64 \<Rightarrow> bool" where
  "is_f64 (Fin x) = (round_f64 x = Fin x)"
| "is_f64 _ = True"

fun is_finite :: "f64 \<Rightarrow> bool" where
  "is_finite (Fin x) = True"
| "is_finite _ = False"

fun f64_lt :: "f64 \<Rightarrow> f64 \<Rightarrow> bool" where
  "f64_lt (Fin x) (Fin y) = (x < y)"
| "f64_lt (Fin x) (Infinity neg) = (\<not> neg)"
| "f64_lt (Infinity neg) (Fin y) = neg"
| "f64_lt (Infinity a) (Infinity b) = (a \<and> \<not> b)"
| "f64_lt _ _ = False"

fun f64_le :: "f64 \<Rightarrow> f64 \<Rightarrow> bool" where
  "f64_le NaN y = False"
| "f64_le x NaN = False"
| "f64_le x y = (\<not> f64_lt y x)"

fun f64_add :: "f64 \<Rightarrow> f64 \<Rightarrow> f64" where
  "f64_add (Fin x) (Fin y) = round_f64 (x + y)"
| "f64_add (Infinity a) (Infinity b) = (if a = b then Infinity a else NaN)"
| "f64_add (Infinity a) (Fin y) = Infinity a"
| "f64_add (Fin x) (Infinity b) = Infinity b"
| "f64_add _ _ = NaN"

fun f64_neg :: "f64 \<Rightarrow> f64" where
  "f64_neg (Fin x) = Fin (- x)"
| "f64_neg (Infinity a) = Infinity (\<not> a)"
| "f64_neg NaN = NaN"

definition f64_sub :: "f64 \<Rightarrow> f64 \<Rightarrow> f64" where
  "f64_sub x y = f64_add x (f64_neg y)"

fun f64_mul :: "f64 \<Rightarrow> f64 \<Rightarrow> f64" where
  "f64_mul (Fin x) (Fin y) = round_f64 (x * y)"
| "f64_mul (Infinity a) (Infinity b) = Infinity (a \<noteq> b)"
| "f64_mul (Infinity a) (Fin y) = (if y = 0 then NaN else Infinity (a \<noteq> (y < 0)))"
| "f64_mul (Fin x) (Infinity b) = (if x = 0 then NaN else Infinity (b \<noteq> (x < 0)))"
| "f64_mul _ _ = NaN"

text \<open>Division by a positive constant.\<close>

fun f64_div_const :: "f64 \<Rightarrow> rat \<Rightarrow> f64" where
  "f64_div_const (Fin x) c = round_f64 (x / c)"
| "f64_div_const x c = x"

text \<open>\<^verbatim>\<open>f64::min\<close>: the smaller one, or the one that is a number.\<close>

fun f64_min :: "f64 \<Rightarrow> f64 \<Rightarrow> f64" where
  "f64_min NaN y = y"
| "f64_min x NaN = x"
| "f64_min x y = (if f64_lt y x then y else x)"

text \<open>\<^verbatim>\<open>x as f64\<close> for an integer.\<close>

definition f64_of_int :: "int \<Rightarrow> f64" where
  "f64_of_int i = round_f64 (of_int i)"

section \<open>Powers and exponents\<close>

lemma pow2_powi: "pow2 e = 2 powi e"
  by (simp add: pow2_def power_int_def field_simps)

lemma pow2_pos [simp]: "0 < pow2 e"
  by (simp add: pow2_powi)

lemma pow2_add: "pow2 (a + b) = pow2 a * pow2 b"
  by (simp add: pow2_powi power_int_add)

lemma pow2_diff: "pow2 (a - b) = pow2 a / pow2 b"
  by (simp add: pow2_powi power_int_diff)

lemma pow2_mono: "a \<le> b \<Longrightarrow> pow2 a \<le> pow2 b"
  by (simp add: pow2_powi power_int_increasing)

lemma pow2_less_iff: "pow2 a < pow2 b \<longleftrightarrow> a < b"
proof
  show "pow2 a < pow2 b \<Longrightarrow> a < b" using pow2_mono [of b a] by fastforce
  show "a < b \<Longrightarrow> pow2 a < pow2 b" by (simp add: pow2_powi power_int_strict_increasing)
qed

lemma pow2_nat: "pow2 (int n) = 2 ^ n"
  by (simp add: pow2_def)

lemma ilog2_bounds: "0 < n \<Longrightarrow> 2 ^ ilog2 n \<le> n \<and> n < 2 * 2 ^ ilog2 n"
proof (induction n rule: ilog2.induct)
  case (1 n)
  show ?case
  proof (cases "n < 2")
    case True
    with 1(2) show ?thesis by (simp add: ilog2.simps)
  next
    case False
    with 1(1) have "2 ^ ilog2 (n div 2) \<le> n div 2 \<and> n div 2 < 2 * 2 ^ ilog2 (n div 2)" by simp
    moreover have "ilog2 n = Suc (ilog2 (n div 2))" using False by (simp add: ilog2.simps [of n])
    ultimately show ?thesis by (simp only: power_Suc) linarith
  qed
qed

lemma floor_log2_bounds:
  assumes "0 < x"
  shows "pow2 (floor_log2 x) \<le> x" "x < pow2 (floor_log2 x + 1)"
proof -
  obtain a b where ab: "quotient_of x = (a, b)" by force
  have b: "0 < b" using quotient_of_denom_pos [OF ab] .
  have x: "x = of_int a / of_int b" by (rule quotient_of_div [OF ab])
  have a: "0 < a" using assms b unfolding x by (simp add: zero_less_divide_iff)
  define l where "l = int (ilog2 (nat a))"
  define m where "m = int (ilog2 (nat b))"
  have bound: "pow2 (int (ilog2 (nat c))) \<le> of_int c \<and> of_int c < pow2 (int (ilog2 (nat c)) + 1)" if "0 < c" for c
  proof -
    have n: "2 ^ ilog2 (nat c) \<le> nat c" "nat c < 2 * 2 ^ ilog2 (nat c)"
      using ilog2_bounds [of "nat c"] that by simp_all
    have c: "(of_int c :: rat) = of_nat (nat c)" using that by simp
    have "of_nat (2 ^ ilog2 (nat c)) \<le> (of_nat (nat c) :: rat)" using n(1) by (simp only: of_nat_le_iff)
    moreover have "(of_nat (nat c) :: rat) < of_nat (2 * 2 ^ ilog2 (nat c))" using n(2) by (simp only: of_nat_less_iff)
    ultimately show ?thesis unfolding c pow2_add pow2_nat by (simp add: pow2_def mult.commute)
  qed
  have A: "pow2 l \<le> of_int a" "of_int a < pow2 (l + 1)" using bound [OF a] by (simp_all add: l_def)
  have B: "pow2 m \<le> of_int b" "of_int b < pow2 (m + 1)" using bound [OF b] by (simp_all add: m_def)
  have b0: "(0 :: rat) < of_int b" using b by simp
  have "x < pow2 (l + 1) / pow2 m"
    unfolding x using A(2) B(1) a by (intro frac_less [of _ _ "pow2 m"]) (simp_all add: less_imp_le)
  then have hi: "x < pow2 (l - m + 1)" by (simp add: pow2_diff [symmetric] algebra_simps)
  have "pow2 l / pow2 (m + 1) < x"
    unfolding x using A(1) B(2) b0 by (intro frac_less2) simp_all
  then have lo: "pow2 (l - m - 1) < x" by (simp add: pow2_diff [symmetric] algebra_simps)
  have fl: "floor_log2 x = (if pow2 (l - m) \<le> x then l - m else l - m - 1)"
    by (simp add: floor_log2_def ab Let_def l_def m_def)
  show "pow2 (floor_log2 x) \<le> x" "x < pow2 (floor_log2 x + 1)"
    using fl hi lo by (auto split: if_splits)
qed

lemma floor_log2_unique:
  assumes "pow2 k \<le> x" "x < pow2 (k + 1)"
  shows "floor_log2 x = k"
proof -
  have "0 < x" using assms(1) pow2_pos [of k] by linarith
  note b = floor_log2_bounds [OF this]
  have "pow2 k < pow2 (floor_log2 x + 1)" "pow2 (floor_log2 x) < pow2 (k + 1)" using b assms by linarith+
  then show ?thesis by (simp add: pow2_less_iff)
qed

lemma floor_log2_mono: "0 < x \<Longrightarrow> x \<le> y \<Longrightarrow> floor_log2 x \<le> floor_log2 y"
proof -
  assume xy: "0 < x" "x \<le> y"
  have "pow2 (floor_log2 x) < pow2 (floor_log2 y + 1)"
    using floor_log2_bounds [OF xy(1)] floor_log2_bounds [of y] xy by linarith
  then show ?thesis by (simp add: pow2_less_iff)
qed

section \<open>Rounding\<close>

lemma round_even_floor: "\<lfloor>q\<rfloor> \<le> round_even q" "round_even q \<le> \<lfloor>q\<rfloor> + 1"
  by (simp_all add: round_even_def Let_def)

lemma round_even_mono: "p \<le> q \<Longrightarrow> round_even p \<le> round_even q"
proof -
  assume pq: "p \<le> q"
  show ?thesis
  proof (cases "\<lfloor>p\<rfloor> = \<lfloor>q\<rfloor>")
    case True
    with pq show ?thesis by (auto simp: round_even_def Let_def)
  next
    case False
    then have "\<lfloor>p\<rfloor> + 1 \<le> \<lfloor>q\<rfloor>" using floor_mono [OF pq] by simp
    with round_even_floor [of p] round_even_floor [of q] show ?thesis by linarith
  qed
qed

lemma round_even_of_int [simp]: "round_even (of_int n) = n"
  by (simp add: round_even_def)

lemma round_even_le: "q \<le> of_int n \<Longrightarrow> round_even q \<le> n"
  using round_even_mono [of q "of_int n"] by simp

lemma round_even_ge: "of_int n \<le> q \<Longrightarrow> n \<le> round_even q"
  using round_even_mono [of "of_int n" q] by simp

lemma round_pos_nonneg: "0 < x \<Longrightarrow> 0 \<le> round_pos x"
  using round_even_ge [of 0 "x / pow2 (last_place x)"] by (simp add: round_pos_def less_imp_le)

lemma round_pos_scaled:
  "x = of_int n * pow2 (last_place x) \<Longrightarrow> round_pos x = x"
  by (metis less_irrefl nonzero_mult_div_cancel_right pow2_pos round_even_of_int round_pos_def)

text \<open>A power of two with a smaller last place is a multiple of that place.\<close>

lemma pow2_multiple: "e \<le> k \<Longrightarrow> \<exists>n. pow2 k = of_int n * pow2 e"
proof -
  assume "e \<le> k"
  then have "pow2 k = of_int (2 ^ nat (k - e)) * pow2 e"
    using pow2_add [of "k - e" e] by (simp add: pow2_def [of "k - e"])
  then show ?thesis by blast
qed

lemma round_pos_le_pow2:
  assumes "0 < x" "x \<le> pow2 k" "last_place x \<le> k"
  shows "round_pos x \<le> pow2 k"
proof -
  obtain n where n: "pow2 k = of_int n * pow2 (last_place x)" using pow2_multiple [OF assms(3)] by blast
  then have "x / pow2 (last_place x) \<le> of_int n" using assms(2) by (simp add: pos_divide_le_eq)
  from round_even_le [OF this] show ?thesis by (simp add: round_pos_def n)
qed

lemma round_pos_ge_pow2:
  assumes "0 < x" "pow2 k \<le> x" "last_place x \<le> k"
  shows "pow2 k \<le> round_pos x"
proof -
  obtain n where n: "pow2 k = of_int n * pow2 (last_place x)" using pow2_multiple [OF assms(3)] by blast
  then have "of_int n \<le> x / pow2 (last_place x)" using assms(2) by (simp add: pos_le_divide_eq)
  from round_even_ge [OF this] show ?thesis by (simp add: round_pos_def n)
qed

lemma round_pos_mono:
  assumes "0 < x" "x \<le> y"
  shows "round_pos x \<le> round_pos y"
proof (cases "last_place x = last_place y")
  case True
  have "x / pow2 (last_place y) \<le> y / pow2 (last_place y)" using assms by (intro divide_right_mono) (simp_all add: less_imp_le)
  from round_even_mono [OF this] True show ?thesis by (simp add: round_pos_def)
next
  case False
  have y: "0 < y" using assms by simp
  define k where "k = floor_log2 y"
  have m: "floor_log2 x \<le> k" unfolding k_def by (rule floor_log2_mono [OF assms])
  with False have lt: "floor_log2 x < k" "- 1022 < k" by (auto simp: last_place_def k_def max_def split: if_splits)
  have "x < pow2 (floor_log2 x + 1)" by (rule floor_log2_bounds [OF assms(1)])
  also have "\<dots> \<le> pow2 k" using lt by (intro pow2_mono) simp
  finally have "round_pos x \<le> pow2 k" using lt by (intro round_pos_le_pow2 [OF assms(1)]) (auto simp: last_place_def)
  also have "\<dots> \<le> round_pos y"
    by (rule round_pos_ge_pow2 [OF y]) (use floor_log2_bounds [OF y] lt in \<open>simp_all add: k_def last_place_def\<close>)
  finally show ?thesis .
qed

lemma round_pos_multiple:
  assumes "y = of_int n * pow2 e" "last_place y \<le> e"
  shows "round_pos y = y"
proof -
  obtain m where "pow2 e = of_int m * pow2 (last_place y)" using pow2_multiple [OF assms(2)] by blast
  then have "y = of_int (n * m) * pow2 (last_place y)" using assms(1) by simp
  then show ?thesis by (rule round_pos_scaled)
qed

lemma round_f64_zero [simp]: "round_f64 0 = Fin 0"
  by (simp add: round_f64_def)

lemma round_f64_nonneg:
  assumes "0 \<le> x"
  obtains (finite) r where "round_f64 x = Fin r" "0 \<le> r" "x \<noteq> 0 \<longrightarrow> r = round_pos x"
  | (overflow) "round_f64 x = Infinity False" "f64_overflow \<le> round_pos x"
proof (cases "x = 0")
  case True
  then show ?thesis using finite [of 0] by simp
next
  case False
  with assms have "0 < x" by simp
  then show ?thesis
    using finite [of "round_pos x"] overflow round_pos_nonneg
    by (cases "f64_overflow \<le> round_pos x") (auto simp: round_f64_def Let_def)
qed

lemma is_f64_pos: "is_f64 (Fin x) \<Longrightarrow> 0 < x \<Longrightarrow> round_pos x = x \<and> x < f64_overflow"
  by (auto simp: round_f64_def Let_def split: if_splits)

text \<open>Rounding is monotone; in particular it does not leave \<open>[0, y]\<close> for a double \<open>y\<close>.\<close>

lemma round_f64_mono:
  assumes "0 \<le> x" "x \<le> y"
  shows "f64_le (round_f64 x) (round_f64 y)"
proof (cases "x = 0")
  case True
  with assms have "0 \<le> y" by simp
  then show ?thesis using True by (cases rule: round_f64_nonneg) simp_all
next
  case False
  then have "round_pos x \<le> round_pos y" "0 < x" "0 < y" using round_pos_mono assms by auto
  then show ?thesis by (simp add: round_f64_def Let_def)
qed

lemma round_f64_below:
  assumes "0 \<le> x" "x \<le> y" "is_f64 (Fin y)"
  obtains r where "round_f64 x = Fin r" "0 \<le> r" "r \<le> y"
proof (cases "x = 0")
  case True
  then show ?thesis using that [of 0] assms by simp
next
  case False
  then have pos: "0 < x" "0 < y" using assms by auto
  have "round_pos x \<le> y" "y < f64_overflow"
    using round_pos_mono [OF pos(1) assms(2)] is_f64_pos [OF assms(3) pos(2)] by simp_all
  then show ?thesis using that [of "round_pos x"] pos round_pos_nonneg [OF pos(1)] by (simp add: round_f64_def Let_def)
qed

text \<open>Below \<open>2^53\<close>, subtracting one is exact.\<close>

lemma pred_exact:
  assumes "is_f64 (Fin x)" "1 \<le> x" "x < 2 ^ 53"
  shows "round_f64 (x - 1) = Fin (x - 1)"
proof (cases "x = 1")
  case False
  define e where "e = last_place x"
  define k where "k = floor_log2 x"
  have pos: "0 < x" "0 < x - 1" using assms False by simp_all
  have "x < pow2 53" using assms(3) by (simp add: pow2_def)
  with floor_log2_bounds(1) [OF pos(1)] have "pow2 k < pow2 53" by (simp add: k_def)
  moreover have "pow2 0 < pow2 (k + 1)"
    using floor_log2_bounds(2) [OF pos(1)] assms(2) by (simp add: k_def pow2_def [of 0])
  ultimately have k: "0 \<le> k" "k \<le> 52" by (simp_all add: pow2_less_iff)
  then have e: "e = k - 52" "e \<le> 0" by (simp_all add: e_def last_place_def k_def)
  have "round_pos x = x" using is_f64_pos [OF assms(1) pos(1)] by simp
  then have x: "x = of_int (round_even (x / pow2 e)) * pow2 e" by (simp add: round_pos_def e_def)
  obtain m where m: "pow2 0 = of_int m * pow2 e" using pow2_multiple [OF e(2)] by blast
  have "x - 1 = of_int (round_even (x / pow2 e) - m) * pow2 e"
    using x m by (simp add: pow2_def [of 0] left_diff_distrib)
  moreover have "last_place (x - 1) \<le> e"
    using floor_log2_mono [OF pos(2), of x] e k by (simp add: last_place_def k_def)
  ultimately have "round_pos (x - 1) = x - 1" by (rule round_pos_multiple)
  moreover have "x - 1 < f64_overflow"
  proof -
    have "(2 :: rat) ^ 53 \<le> f64_overflow" unfolding f64_overflow_def by (rule power_increasing) simp_all
    with assms(3) show ?thesis by linarith
  qed
  ultimately show ?thesis using pos by (simp add: round_f64_def Let_def)
qed simp

text \<open>Integers below \<open>2^53\<close> are doubles.\<close>

lemma round_f64_of_int:
  assumes "0 \<le> n" "n < 2 ^ 53"
  shows "round_f64 (of_int n) = Fin (of_int n)"
proof (cases "n = 0")
  case False
  let ?x = "of_int n :: rat"
  have pos: "0 < ?x" using assms False by simp
  have "?x < of_int (2 ^ 53)" using assms(2) by (simp only: of_int_less_iff)
  then have x: "?x < 2 ^ 53" by simp
  have "pow2 (floor_log2 ?x) < pow2 53"
    using floor_log2_bounds(1) [OF pos] x pow2_nat [of 53] by simp
  then have "last_place ?x \<le> 0" by (simp add: last_place_def pow2_less_iff)
  then have "round_pos ?x = ?x" by (intro round_pos_multiple [of _ n 0]) (simp_all add: pow2_def)
  moreover have "?x < f64_overflow"
  proof -
    have "(2 :: rat) ^ 53 \<le> f64_overflow" unfolding f64_overflow_def by (rule power_increasing) simp_all
    with x show ?thesis by linarith
  qed
  ultimately show ?thesis using pos by (simp add: round_f64_def Let_def)
qed simp

lemma round_f64_numeral [simp]:
  "numeral k < (2 :: int) ^ 53 \<Longrightarrow> round_f64 (numeral k) = Fin (numeral k)" "round_f64 1 = Fin 1"
  using round_f64_of_int [of "numeral k"] round_f64_of_int [of 1] by simp_all

lemma is_f64_pred: "is_f64 (Fin x) \<Longrightarrow> 1 \<le> x \<Longrightarrow> x < 2 ^ 53 \<Longrightarrow> is_f64 (Fin (x - 1))"
  by (simp add: pred_exact)

lemma f64_le_refl: "x \<noteq> NaN \<Longrightarrow> f64_le x x"
  by (cases x) auto

lemma f64_le_trans: "f64_le x y \<Longrightarrow> f64_le y z \<Longrightarrow> f64_le x z"
  by (cases x; cases y; cases z) auto

lemma f64_le_lt_trans: "f64_le x y \<Longrightarrow> f64_lt y z \<Longrightarrow> f64_lt x z"
  by (cases x; cases y; cases z) auto

lemma f64_of_int_zero [simp]: "f64_of_int 0 = Fin 0"
  by (simp add: f64_of_int_def)

lemma f64_of_int_mono: "0 \<le> i \<Longrightarrow> i \<le> j \<Longrightarrow> f64_le (f64_of_int i) (f64_of_int j)"
  by (simp add: f64_of_int_def round_f64_mono)

text \<open>Rounding twice is rounding once: every result is a double.\<close>

lemma round_pos_idem:
  assumes "0 < x" "round_pos x \<noteq> 0"
  shows "round_pos (round_pos x) = round_pos x"
proof -
  define e where "e = last_place x"
  let ?r = "round_pos x"
  have r: "?r = of_int (round_even (x / pow2 e)) * pow2 e" by (simp add: round_pos_def e_def)
  have rpos: "0 < ?r" using assms round_pos_nonneg [OF assms(1)] by simp
  have "x < pow2 (floor_log2 x + 1)" by (rule floor_log2_bounds [OF assms(1)])
  also have "\<dots> \<le> pow2 (e + 53)" by (rule pow2_mono) (simp add: e_def last_place_def)
  finally have le: "?r \<le> pow2 (e + 53)"
    by (intro round_pos_le_pow2 [OF assms(1)]) (simp_all add: e_def less_imp_le)
  show ?thesis
  proof (cases "?r = pow2 (e + 53)")
    case True
    have "floor_log2 ?r = e + 53" unfolding True by (rule floor_log2_unique) (simp_all add: pow2_less_iff)
    moreover have "- 1074 \<le> e" by (simp add: e_def last_place_def)
    ultimately have "last_place ?r \<le> e + 53" by (simp add: last_place_def)
    then show ?thesis using True by (intro round_pos_multiple [of _ 1]) simp_all
  next
    case False
    with le have "?r < pow2 (e + 53)" by simp
    with floor_log2_bounds(1) [OF rpos] have "pow2 (floor_log2 ?r) < pow2 (e + 53)" by linarith
    then have "last_place ?r \<le> e" by (simp add: pow2_less_iff) (simp add: last_place_def e_def)
    then show ?thesis by (rule round_pos_multiple [OF r])
  qed
qed

lemma is_f64_round: "0 \<le> x \<Longrightarrow> is_f64 (round_f64 x)"
proof (cases "x = 0")
  case False
  assume "0 \<le> x"
  with False have pos: "0 < x" by simp
  from round_pos_nonneg [OF pos] round_pos_idem [OF pos] pos show ?thesis
    by (cases "round_pos x = 0") (auto simp: round_f64_def Let_def)
qed simp

end
