(* ===== verification/Rate_Limit.thy ===== *)
theory Rate_Limit
  imports F64
begin

text \<open>
  The token-bucket rate limiter, \<^verbatim>\<open>crates/cordn-core/src/ratelimit.rs\<close>, over the doubles of
  \<open>F64\<close>. The limiter's \<^verbatim>\<open>HashMap\<close> of buckets is an association list with distinct keys, and the
  \<^verbatim>\<open>Mutex\<close> around it is the atomicity of \<open>check\<close>.
\<close>

section \<open>The limiter\<close>

record TokenBucketRateLimitConfig =
  rc_enabled :: bool
  rc_refill_per_minute :: f64
  rc_burst :: f64
  rc_idle_ttl_ms :: f64

record TokenBucketState =
  tokens :: f64
  last_refill_at :: i64
  last_seen_at :: i64

record TokenBucketRateLimiter =
  buckets :: "(string \<times> TokenBucketState) list"
  rl_enabled :: bool
  burst :: f64
  idle_ttl_ms :: f64
  refill_tokens_per_ms :: f64

definition clamp_non_negative :: "f64 \<Rightarrow> f64" where
  "clamp_non_negative v = (if is_finite v \<and> f64_lt (Fin 0) v then v else Fin 0)"

definition TokenBucketRateLimiter_new :: "TokenBucketRateLimitConfig \<Rightarrow> TokenBucketRateLimiter" where
  "TokenBucketRateLimiter_new config =
     \<lparr>buckets = [], rl_enabled = rc_enabled config, burst = clamp_non_negative (rc_burst config),
      idle_ttl_ms = clamp_non_negative (rc_idle_ttl_ms config),
      refill_tokens_per_ms = f64_div_const (clamp_non_negative (rc_refill_per_minute config)) 60000\<rparr>"

definition idle :: "TokenBucketRateLimiter \<Rightarrow> i64 \<Rightarrow> TokenBucketState \<Rightarrow> bool" where
  "idle rl now b \<longleftrightarrow> \<not> f64_lt (f64_of_int (wrap64 (now - last_seen_at b))) (idle_ttl_ms rl)"

definition evict_idle_buckets :: "TokenBucketRateLimiter \<Rightarrow> (string \<times> TokenBucketState) list \<Rightarrow> i64 \<Rightarrow>
    (string \<times> TokenBucketState) list" where
  "evict_idle_buckets rl bs now =
     (if f64_le (idle_ttl_ms rl) (Fin 0) \<or> bs = [] then bs
      else filter (\<lambda>(_, b). \<not> idle rl now b) bs)"

definition check :: "string \<Rightarrow> i64 \<Rightarrow> TokenBucketRateLimiter \<Rightarrow> bool \<times> TokenBucketRateLimiter" where
  "check key now rl =
     (if \<not> rl_enabled rl then (True, rl)
      else
        let bs = evict_idle_buckets rl (buckets rl) now in
        case map_of bs key of
          None \<Rightarrow>
            if f64_lt (burst rl) (Fin 1) then (False, rl\<lparr>buckets := bs\<rparr>)
            else (True, rl\<lparr>buckets := AList.update key
                   \<lparr>tokens = f64_sub (burst rl) (Fin 1), last_refill_at = now, last_seen_at = now\<rparr> bs\<rparr>)
        | Some bucket \<Rightarrow>
            let elapsed_ms = f64_of_int (max (wrap64 (now - last_refill_at bucket)) 0);
                refilled = f64_mul elapsed_ms (refill_tokens_per_ms rl);
                available = f64_min (f64_add (tokens bucket) refilled) (burst rl)
            in if f64_lt available (Fin 1)
               then (False, rl\<lparr>buckets := AList.update key
                      \<lparr>tokens = available, last_refill_at = now, last_seen_at = now\<rparr> bs\<rparr>)
               else (True, rl\<lparr>buckets := AList.update key
                      \<lparr>tokens = f64_sub available (Fin 1), last_refill_at = now, last_seen_at = now\<rparr> bs\<rparr>))"

text \<open>A sequence of checks, with their decisions.\<close>

fun run_checks :: "(string \<times> i64) list \<Rightarrow> TokenBucketRateLimiter \<Rightarrow> bool list \<times> TokenBucketRateLimiter" where
  "run_checks [] rl = ([], rl)"
| "run_checks ((key, now) # cs) rl =
     (let (d, rl) = check key now rl; (ds, rl) = run_checks cs rl in (d # ds, rl))"

section \<open>The invariant\<close>

definition tokens_ok :: "f64 \<Rightarrow> f64 \<Rightarrow> bool" where
  "tokens_ok B t \<longleftrightarrow> (\<exists>x y. t = Fin x \<and> B = Fin y \<and> 0 \<le> x \<and> x \<le> y \<and> is_f64 (Fin x))"

definition config_ok :: "TokenBucketRateLimiter \<Rightarrow> bool" where
  "config_ok rl \<longleftrightarrow> tokens_ok (burst rl) (burst rl) \<and> tokens_ok (idle_ttl_ms rl) (idle_ttl_ms rl) \<and>
     tokens_ok (refill_tokens_per_ms rl) (refill_tokens_per_ms rl)"

definition limiter_ok :: "TokenBucketRateLimiter \<Rightarrow> bool" where
  "limiter_ok rl \<longleftrightarrow> config_ok rl \<and> distinct (map fst (buckets rl)) \<and>
     (\<forall>key b. map_of (buckets rl) key = Some b \<longrightarrow> tokens_ok (burst rl) (tokens b))"

definition is_config :: "TokenBucketRateLimitConfig \<Rightarrow> bool" where
  "is_config c \<longleftrightarrow> is_f64 (rc_burst c) \<and> is_f64 (rc_idle_ttl_ms c) \<and> is_f64 (rc_refill_per_minute c)"

lemma clamp_ok: "is_f64 v \<Longrightarrow> tokens_ok (clamp_non_negative v) (clamp_non_negative v)"
  by (cases v) (auto simp: clamp_non_negative_def tokens_ok_def)

lemma limiter_ok_new:
  assumes "is_config c"
  shows "limiter_ok (TokenBucketRateLimiter_new c)"
proof -
  obtain x where x: "clamp_non_negative (rc_refill_per_minute c) = Fin x" "0 \<le> x" "is_f64 (Fin x)"
    using clamp_ok [of "rc_refill_per_minute c"] assms by (auto simp: is_config_def tokens_ok_def)
  have "x / 60000 \<le> x" "0 \<le> x / 60000" using x(2) by simp_all
  then obtain r where "round_f64 (x / 60000) = Fin r" "0 \<le> r" "r \<le> x" using round_f64_below x(3) by metis
  moreover have "is_f64 (round_f64 (x / 60000))" using x(2) by (intro is_f64_round) simp
  ultimately have "tokens_ok (round_f64 (x / 60000)) (round_f64 (x / 60000))" by (simp add: tokens_ok_def)
  with x assms clamp_ok show ?thesis
    by (simp add: limiter_ok_def config_ok_def TokenBucketRateLimiter_new_def is_config_def)
qed

lemma available_ok:
  assumes "tokens_ok B t" "tokens_ok R R" "tokens_ok B B"
  shows "tokens_ok B (f64_min (f64_add t (f64_mul (f64_of_int (max i 0)) R)) B)"
proof -
  obtain x b r where v: "t = Fin x" "B = Fin b" "R = Fin r" "0 \<le> x" "x \<le> b" "0 \<le> r" "is_f64 (Fin b)"
    using assms by (auto simp: tokens_ok_def)
  have e0: "0 \<le> (of_int (max i 0) :: rat)" by simp
  have nonneg: "(\<exists>y. round_f64 q = Fin y \<and> 0 \<le> y) \<or> round_f64 q = Infinity False" if "0 \<le> q" for q
    using round_f64_nonneg [OF that] by metis
  have mul: "(\<exists>y. f64_mul (f64_of_int (max i 0)) R = Fin y \<and> 0 \<le> y) \<or>
      f64_mul (f64_of_int (max i 0)) R = Infinity False \<or> f64_mul (f64_of_int (max i 0)) R = NaN"
    using nonneg [OF e0]
  proof (elim disjE exE conjE)
    fix y assume y: "round_f64 (of_int (max i 0)) = Fin y" "0 \<le> y"
    from nonneg [OF mult_nonneg_nonneg [OF y(2) v(6)]] y v(3) show ?thesis by (auto simp: f64_of_int_def)
  next
    assume "round_f64 (of_int (max i 0)) = Infinity False"
    with v(3,6) show ?thesis by (simp add: f64_of_int_def)
  qed
  have fin: "tokens_ok B (f64_min (round_f64 q) B)" if "0 \<le> q" for q
    using nonneg [OF that] is_f64_round [OF that] v by (auto simp: tokens_ok_def)
  from mul show ?thesis
  proof (elim disjE exE conjE)
    fix y assume "f64_mul (f64_of_int (max i 0)) R = Fin y" "0 \<le> y"
    with fin [of "x + y"] v show ?thesis by simp
  next
    assume "f64_mul (f64_of_int (max i 0)) R = Infinity False"
    with v show ?thesis by (simp add: tokens_ok_def)
  next
    assume "f64_mul (f64_of_int (max i 0)) R = NaN"
    with v show ?thesis by (simp add: tokens_ok_def)
  qed
qed

lemma take_token_ok:
  assumes "tokens_ok B a" "\<not> f64_lt a (Fin 1)"
  shows "tokens_ok B (f64_sub a (Fin 1))"
proof -
  obtain x b where v: "a = Fin x" "B = Fin b" "x \<le> b" "is_f64 (Fin x)" "1 \<le> x"
    using assms by (auto simp: tokens_ok_def)
  then have "0 \<le> x - 1" "x - 1 \<le> x" by simp_all
  then obtain r where "round_f64 (x - 1) = Fin r" "0 \<le> r" "r \<le> x" using round_f64_below v(4) by metis
  moreover have "is_f64 (round_f64 (x - 1))" using v by (intro is_f64_round) simp
  ultimately show ?thesis using v by (simp add: tokens_ok_def f64_sub_def)
qed

lemma map_of_filter_values:
  "distinct (map fst bs) \<Longrightarrow> map_of (filter (\<lambda>(_, b). P b) bs) key =
     (case map_of bs key of None \<Rightarrow> None | Some b \<Rightarrow> if P b then Some b else None)"
proof (induction bs)
  case (Cons kb bs)
  obtain k b where kb: "kb = (k, b)" by force
  have "map_of bs k = None" using Cons.prems kb by (simp add: map_of_eq_None_iff)
  with Cons kb show ?case by auto
qed simp

lemma map_of_evict:
  assumes "distinct (map fst bs)"
  shows "map_of (evict_idle_buckets rl bs now) key =
    (case map_of bs key of None \<Rightarrow> None
     | Some b \<Rightarrow> if \<not> f64_le (idle_ttl_ms rl) (Fin 0) \<and> idle rl now b then None else Some b)"
  using map_of_filter_values [OF assms, of "\<lambda>b. \<not> idle rl now b" key]
  by (auto simp: evict_idle_buckets_def split: option.splits)

lemma distinct_evict: "distinct (map fst bs) \<Longrightarrow> distinct (map fst (evict_idle_buckets rl bs now))"
  by (simp add: evict_idle_buckets_def distinct_map_filter)

lemma evict_buckets_ok:
  "limiter_ok rl \<Longrightarrow> limiter_ok (rl\<lparr>buckets := evict_idle_buckets rl (buckets rl) now\<rparr>)"
  by (auto simp: limiter_ok_def config_ok_def distinct_evict map_of_evict split: option.splits if_splits)

lemma update_bucket_ok:
  "limiter_ok (rl\<lparr>buckets := bs\<rparr>) \<Longrightarrow> tokens_ok (burst rl) (tokens b) \<Longrightarrow>
     limiter_ok (rl\<lparr>buckets := AList.update key b bs\<rparr>)"
  by (auto simp: limiter_ok_def config_ok_def distinct_update map_of_update)

lemma check_ok:
  assumes "limiter_ok rl"
  shows "limiter_ok (snd (check key now rl))"
proof (cases "rl_enabled rl")
  case True
  let ?bs = "evict_idle_buckets rl (buckets rl) now"
  have ok: "limiter_ok (rl\<lparr>buckets := ?bs\<rparr>)" by (rule evict_buckets_ok [OF assms])
  have B: "tokens_ok (burst rl) (burst rl)" and R: "tokens_ok (refill_tokens_per_ms rl) (refill_tokens_per_ms rl)"
    using assms by (simp_all add: limiter_ok_def config_ok_def)
  show ?thesis
  proof (cases "map_of ?bs key")
    case None
    with True ok take_token_ok [OF B] show ?thesis
      by (auto simp: check_def Let_def intro!: update_bucket_ok)
  next
    case (Some b)
    then have "tokens_ok (burst rl) (tokens b)" using ok by (simp add: limiter_ok_def)
    note av = available_ok [OF this R B]
    show ?thesis
      using True Some ok av take_token_ok [OF av] by (auto simp: check_def Let_def intro!: update_bucket_ok)
  qed
qed (use assms in \<open>simp add: check_def\<close>)

lemma run_checks_Cons:
  "run_checks (c # cs) rl =
     (fst (check (fst c) (snd c) rl) # fst (run_checks cs (snd (check (fst c) (snd c) rl))),
      snd (run_checks cs (snd (check (fst c) (snd c) rl))))"
  by (cases c) (simp add: split_def Let_def)

lemma run_checks_ok: "limiter_ok rl \<Longrightarrow> limiter_ok (snd (run_checks cs rl))"
  by (induction cs arbitrary: rl) (simp_all add: run_checks_Cons check_ok del: run_checks.simps(2))

lemma limiter_okD: "limiter_ok rl \<Longrightarrow> map_of (buckets rl) key = Some b \<Longrightarrow> tokens_ok (burst rl) (tokens b)"
  unfolding limiter_ok_def by blast

lemma check_config [simp]:
  "rl_enabled (snd (check key now rl)) = rl_enabled rl" "burst (snd (check key now rl)) = burst rl"
  "idle_ttl_ms (snd (check key now rl)) = idle_ttl_ms rl"
  "refill_tokens_per_ms (snd (check key now rl)) = refill_tokens_per_ms rl"
  by (simp_all add: check_def Let_def split: option.split)

section \<open>A burst at one instant\<close>

lemma idle_at_once:
  assumes "last_seen_at b = now" "tokens_ok (idle_ttl_ms rl) (idle_ttl_ms rl)" "\<not> f64_le (idle_ttl_ms rl) (Fin 0)"
  shows "\<not> idle rl now b"
  using assms by (auto simp: idle_def tokens_ok_def wrap64_def)

lemma check_again:
  assumes ok: "limiter_ok rl" and en: "rl_enabled rl"
    and b: "map_of (buckets rl) key = Some b" "last_seen_at b = now" "last_refill_at b = now" "tokens b = Fin t"
  shows "fst (check key now rl) = (1 \<le> t) \<and>
    (\<exists>b'. map_of (buckets (snd (check key now rl))) key = Some b' \<and> last_seen_at b' = now \<and> last_refill_at b' = now \<and>
       tokens b' = (if 1 \<le> t then round_f64 (t - 1) else Fin t))"
proof -
  have cfg: "config_ok rl" "distinct (map fst (buckets rl))" "tokens_ok (burst rl) (Fin t)"
    using ok limiter_okD [OF ok b(1)] b(4) by (simp_all add: limiter_ok_def)
  then have "map_of (evict_idle_buckets rl (buckets rl) now) key = Some b"
    using b idle_at_once [OF b(2), of rl] by (auto simp: map_of_evict config_ok_def)
  moreover obtain r where r: "refill_tokens_per_ms rl = Fin r" using cfg(1) by (auto simp: config_ok_def tokens_ok_def)
  moreover have "f64_min (f64_add (Fin t) (Fin 0)) (burst rl) = Fin t"
    using cfg(3) by (auto simp: tokens_ok_def)
  ultimately show ?thesis
    using en b by (auto simp: check_def wrap64_def map_of_update f64_sub_def Let_def)
qed

lemma burst_from:
  assumes "limiter_ok rl" "rl_enabled rl"
    "map_of (buckets rl) key = Some b" "last_seen_at b = now" "last_refill_at b = now" "tokens b = Fin t" "t < 2 ^ 53"
  shows "fst (run_checks (replicate n (key, now)) rl) = map (\<lambda>i. of_nat (i + 1) \<le> t) [0..<n]"
  using assms
proof (induction n arbitrary: rl b t)
  case (Suc n)
  let ?rl = "snd (check key now rl)"
  obtain b' where b': "map_of (buckets ?rl) key = Some b'" "last_seen_at b' = now" "last_refill_at b' = now"
    "tokens b' = (if 1 \<le> t then round_f64 (t - 1) else Fin t)" "fst (check key now rl) = (1 \<le> t)"
    using check_again [OF Suc.prems(1-6)] by blast
  have f: "is_f64 (Fin t)" "0 \<le> t" 
    using limiter_okD [OF Suc.prems(1,3)] Suc.prems(6) by (auto simp: tokens_ok_def)
  let ?t = "if 1 \<le> t then t - 1 else t"
  have "tokens b' = Fin ?t" using b'(4) pred_exact [OF f(1) _ Suc.prems(7)] by simp
  moreover have "rl_enabled ?rl" "limiter_ok ?rl" using Suc.prems check_ok by simp_all
  ultimately have IH: "fst (run_checks (replicate n (key, now)) ?rl) = map (\<lambda>i. of_nat (i + 1) \<le> ?t) [0..<n]"
    using Suc.prems(7) b' by (intro Suc.IH [of _ b']) (auto split: if_splits)
  have "map (\<lambda>i. of_nat (i + 1) \<le> t) [0..<Suc n] = (1 \<le> t) # map (\<lambda>i. of_nat (i + 1) \<le> ?t) [0..<n]"
    using f(2) by (auto simp: upt_conv_Cons map_Suc_upt [symmetric] simp del: upt_Suc)
  with IH b'(5) show ?case by (simp add: run_checks_Cons del: upt_Suc run_checks.simps(2))
qed simp

section \<open>Keys do not disturb each other\<close>

text \<open>Timestamps as the clock gives them: not negative, and not running backwards.\<close>

definition clock_ok :: "i64 list \<Rightarrow> bool" where
  "clock_ok ts \<longleftrightarrow> sorted ts \<and> (\<forall>t \<in> set ts. 0 \<le> t \<and> t < 2 ^ 63)"

definition seen_before :: "TokenBucketRateLimiter \<Rightarrow> i64 \<Rightarrow> bool" where
  "seen_before rl t \<longleftrightarrow> (\<forall>key b. map_of (buckets rl) key = Some b \<longrightarrow> 0 \<le> last_seen_at b \<and> last_seen_at b \<le> t)"

definition same_config :: "TokenBucketRateLimiter \<Rightarrow> TokenBucketRateLimiter \<Rightarrow> bool" where
  "same_config rl rl' \<longleftrightarrow> rl_enabled rl' = rl_enabled rl \<and> burst rl' = burst rl \<and> idle_ttl_ms rl' = idle_ttl_ms rl \<and>
     refill_tokens_per_ms rl' = refill_tokens_per_ms rl"

lemma idle_later:
  assumes "idle rl t b" "0 \<le> last_seen_at b" "last_seen_at b \<le> t" "t \<le> t'" "t' < 2 ^ 63"
  shows "idle rl t' b"
proof -
  have "wrap64 (t - last_seen_at b) = t - last_seen_at b" "wrap64 (t' - last_seen_at b) = t' - last_seen_at b"
    using assms by (auto intro!: wrap64_id simp: is_i64_def)
  moreover have "f64_le (f64_of_int (t - last_seen_at b)) (f64_of_int (t' - last_seen_at b))"
    using assms by (intro f64_of_int_mono) simp_all
  ultimately show ?thesis using assms(1) by (auto simp: idle_def dest: f64_le_lt_trans)
qed

text \<open>
  The limiter seen by one key against a limiter only that key uses, at time \<open>t\<close>: the same bucket,
  or a bucket that was evicted on behalf of another key and has expired in the other one too.
\<close>

definition key_view :: "string \<Rightarrow> i64 \<Rightarrow> TokenBucketRateLimiter \<Rightarrow> TokenBucketRateLimiter \<Rightarrow> bool" where
  "key_view key t rl rl' \<longleftrightarrow> same_config rl rl' \<and>
     (map_of (buckets rl') key = map_of (buckets rl) key \<or>
      map_of (buckets rl) key = None \<and> \<not> f64_le (idle_ttl_ms rl) (Fin 0) \<and>
      (\<exists>b. map_of (buckets rl') key = Some b \<and> idle rl' t b))"

abbreviation evicted :: "TokenBucketRateLimiter \<Rightarrow> i64 \<Rightarrow> string \<Rightarrow> TokenBucketState option" where
  "evicted rl now key \<equiv> map_of (evict_idle_buckets rl (buckets rl) now) key"

lemma check_cong:
  assumes "same_config rl rl'" "evicted rl' now key = evicted rl now key"
  shows "fst (check key now rl') = fst (check key now rl)"
    "rl_enabled rl \<Longrightarrow> map_of (buckets (snd (check key now rl'))) key = map_of (buckets (snd (check key now rl))) key"
  using assms by (auto simp: check_def same_config_def Let_def map_of_update split: option.splits)

lemma check_other:
  assumes "key' \<noteq> key" "rl_enabled rl"
  shows "map_of (buckets (snd (check key now rl))) key' = evicted rl now key'"
  using assms by (auto simp: check_def Let_def map_of_update split: option.splits)

lemma check_seen_before:
  assumes "seen_before rl t" "t \<le> now" "0 \<le> now" "distinct (map fst (buckets rl))"
  shows "seen_before (snd (check key now rl)) now"
proof (cases "rl_enabled rl")
  case True
  have e: "0 \<le> last_seen_at b \<and> last_seen_at b \<le> now" if "evicted rl now k = Some b" for k b
    using that assms(1,2) by (fastforce simp: map_of_evict [OF assms(4)] seen_before_def split: option.splits if_splits)
  show ?thesis
    unfolding seen_before_def
  proof (intro allI impI)
    fix k b assume k: "map_of (buckets (snd (check key now rl))) k = Some b"
    show "0 \<le> last_seen_at b \<and> last_seen_at b \<le> now"
    proof (cases "k = key")
      case True
      with k e \<open>rl_enabled rl\<close> assms(3) show ?thesis
        by (auto simp: check_def Let_def map_of_update split: option.splits if_splits)
    next
      case False
      with k check_other [OF False \<open>rl_enabled rl\<close>] e show ?thesis by simp
    qed
  qed
next
  case False
  with assms show ?thesis by (fastforce simp: check_def seen_before_def)
qed

lemma seen_idle_later:
  assumes "seen_before rl t" "map_of (buckets rl) key = Some b" "idle rl t b" "t \<le> now" "now < 2 ^ 63"
  shows "idle rl now b"
  using assms(1,2) by (intro idle_later [OF assms(3) _ _ assms(4,5)]) (auto simp: seen_before_def)

lemma key_view_evicted:
  assumes "key_view key t rl rl'" "seen_before rl' t" "t \<le> now" "now < 2 ^ 63"
    "distinct (map fst (buckets rl))" "distinct (map fst (buckets rl'))"
  shows "evicted rl' now key = evicted rl now key"
proof -
  have idle: "idle rl' now b = idle rl now b" for b using assms(1) by (simp add: idle_def key_view_def same_config_def)
  show ?thesis
    using assms(1) unfolding key_view_def
  proof (elim conjE disjE exE)
    assume "same_config rl rl'" "map_of (buckets rl') key = map_of (buckets rl) key"
    then show ?thesis by (simp add: map_of_evict assms idle same_config_def split: option.split)
  next
    fix b assume v: "map_of (buckets rl) key = None" "\<not> f64_le (idle_ttl_ms rl) (Fin 0)" "same_config rl rl'"
      "map_of (buckets rl') key = Some b" "idle rl' t b"
    then have "idle rl' now b" using seen_idle_later [OF assms(2) v(4,5) assms(3,4)] by simp
    with v show ?thesis by (simp add: map_of_evict assms same_config_def)
  qed
qed

lemma key_view_same:
  assumes "key_view key t rl rl'" "seen_before rl' t" "t \<le> now" "now < 2 ^ 63"
    "distinct (map fst (buckets rl))" "distinct (map fst (buckets rl'))"
  shows "fst (check key now rl') = fst (check key now rl)"
    "key_view key now (snd (check key now rl)) (snd (check key now rl'))"
proof -
  have cfg: "same_config rl rl'" using assms(1) by (simp add: key_view_def)
  note cong = check_cong [OF cfg key_view_evicted [OF assms]]
  from cong show "fst (check key now rl') = fst (check key now rl)" by simp
  have later: "idle rl' now b" if "idle rl' t b" "map_of (buckets rl') key = Some b" for b
    by (rule seen_idle_later [OF assms(2) that(2,1) assms(3,4)])
  show "key_view key now (snd (check key now rl)) (snd (check key now rl'))"
  proof (cases "rl_enabled rl")
    case True
    with cong(2) cfg show ?thesis by (simp add: key_view_def same_config_def)
  next
    case False
    then have "snd (check key now rl) = rl" "snd (check key now rl') = rl'"
      using cfg by (simp_all add: check_def same_config_def)
    with later assms(1) show ?thesis by (auto simp: key_view_def)
  qed
qed

lemma key_view_other:
  assumes "key_view key t rl rl'" "seen_before rl' t" "t \<le> now" "now < 2 ^ 63"
    "distinct (map fst (buckets rl))" "key' \<noteq> key"
  shows "key_view key now (snd (check key' now rl)) rl'"
proof -
  have idle: "idle rl' now b = idle rl now b" for b using assms(1) by (simp add: idle_def key_view_def same_config_def)
  have later: "idle rl' now b" if "idle rl' t b" "map_of (buckets rl') key = Some b" for b
    by (rule seen_idle_later [OF assms(2) that(2,1) assms(3,4)])
  show ?thesis
  proof (cases "rl_enabled rl")
    case True
    have "map_of (buckets (snd (check key' now rl))) key = evicted rl now key"
      using check_other [of key key' rl now] assms(6) True by simp
    then show ?thesis
      using assms(1) later by (auto simp: key_view_def same_config_def map_of_evict [OF assms(5)] idle split: option.splits)
  next
    case False
    then have "snd (check key' now rl) = rl" by (simp add: check_def)
    with assms(1) later show ?thesis by (auto simp: key_view_def)
  qed
qed

text \<open>The decisions for one key in a sequence of checks.\<close>

fun decisions_for :: "string \<Rightarrow> (string \<times> i64) list \<Rightarrow> bool list \<Rightarrow> bool list" where
  "decisions_for key ((k, t) # cs) (d # ds) =
     (if k = key then d # decisions_for key cs ds else decisions_for key cs ds)"
| "decisions_for key _ _ = []"

lemma decisions_isolated:
  assumes "key_view key t rl rl'" "seen_before rl t" "seen_before rl' t" "0 \<le> t" "clock_ok (t # map snd cs)"
    "limiter_ok rl" "limiter_ok rl'"
  shows "decisions_for key cs (fst (run_checks cs rl)) = fst (run_checks (filter (\<lambda>c. fst c = key) cs) rl')"
  using assms
proof (induction cs arbitrary: t rl rl')
  case (Cons c cs)
  obtain k now where c: "c = (k, now)" by force
  have t: "t \<le> now" "0 \<le> now" "now < 2 ^ 63" "clock_ok (now # map snd cs)"
    using Cons.prems(5) c by (auto simp: clock_ok_def)
  have d: "distinct (map fst (buckets rl))" "distinct (map fst (buckets rl'))"
    using Cons.prems by (simp_all add: limiter_ok_def)
  let ?rl = "snd (check k now rl)"
  have ok: "limiter_ok ?rl" "seen_before ?rl now"
    using Cons.prems check_ok check_seen_before [OF Cons.prems(2) t(1,2) d(1)] by simp_all
  show ?case
  proof (cases "k = key")
    case True
    note same = key_view_same [OF Cons.prems(1,3) t(1,3) d]
    let ?rl' = "snd (check key now rl')"
    have "limiter_ok ?rl'" "seen_before ?rl' now"
      using Cons.prems check_ok check_seen_before [OF Cons.prems(3) t(1,2) d(2)] by simp_all
    with Cons.IH [OF same(2) _ _ t(2,4)] ok same(1) True c show ?thesis
      by (simp add: run_checks_Cons del: run_checks.simps(2))
  next
    case False
    have "seen_before rl' now" using Cons.prems(3) t(1) by (fastforce simp: seen_before_def)
    with Cons.IH [OF key_view_other [OF Cons.prems(1,3) t(1,3) d(1) False] ok(2) _ t(2,4) ok(1)] Cons.prems(7) False c
    show ?thesis by (simp add: run_checks_Cons del: run_checks.simps(2))
  qed
qed simp

end
