(* ===== verification/Rate_Limit_Properties.thy ===== *)
theory Rate_Limit_Properties
  imports Rate_Limit
begin

text \<open>
  What the rate limiter promises, for every limiter that \<open>TokenBucketRateLimiter_new\<close> builds and
  every sequence of checks on it: buckets stay between empty and full, a key gets its whole burst
  and no more at one instant, keys do not disturb each other, and an empty bucket refills.
\<close>

section \<open>Bounds\<close>

lemma run_checks_config [simp]:
  "rl_enabled (snd (run_checks cs rl)) = rl_enabled rl" "burst (snd (run_checks cs rl)) = burst rl"
  "idle_ttl_ms (snd (run_checks cs rl)) = idle_ttl_ms rl"
  "refill_tokens_per_ms (snd (run_checks cs rl)) = refill_tokens_per_ms rl"
  by (induction cs arbitrary: rl) (simp_all add: run_checks_Cons del: run_checks.simps(2))

lemma new_config [simp]:
  "rl_enabled (TokenBucketRateLimiter_new c) = rc_enabled c"
  "burst (TokenBucketRateLimiter_new c) = clamp_non_negative (rc_burst c)"
  "buckets (TokenBucketRateLimiter_new c) = []"
  by (simp_all add: TokenBucketRateLimiter_new_def)

text \<open>
  C21. Over any sequence of checks, whatever the timestamps do, every bucket of the limiter holds a
  finite number of tokens between zero and the burst.
\<close>

theorem tokens_within_burst:
  assumes "is_config c"
    and "map_of (buckets (snd (run_checks cs (TokenBucketRateLimiter_new c)))) key = Some b"
  shows "\<exists>t B. tokens b = Fin t \<and> clamp_non_negative (rc_burst c) = Fin B \<and> 0 \<le> t \<and> t \<le> B"
  using limiter_okD [OF run_checks_ok [OF limiter_ok_new [OF assms(1)]] assms(2)]
  by (auto simp: tokens_ok_def)

definition five_token_burst :: TokenBucketRateLimitConfig where
  "five_token_burst = \<lparr>rc_enabled = True, rc_refill_per_minute = Fin 60000, rc_burst = Fin 5, rc_idle_ttl_ms = Fin 4096\<rparr>"

lemma five_token_burst_config: "is_config five_token_burst"
  by (simp add: is_config_def five_token_burst_def)

lemma five_token_burst_new:
  "TokenBucketRateLimiter_new five_token_burst = \<lparr>buckets = [], rl_enabled = True, burst = Fin 5,
     idle_ttl_ms = Fin 4096, refill_tokens_per_ms = Fin 1\<rparr>"
  by (simp add: TokenBucketRateLimiter_new_def five_token_burst_def clamp_non_negative_def)

lemmas evaluate_checks = five_token_burst_new check_def evict_idle_buckets_def idle_def f64_of_int_def f64_sub_def
  wrap64_def

theorem tokens_within_burst_witness:
  "\<exists>b t B. map_of (buckets (snd (run_checks [(''a'', 0), (''b'', 7), (''a'', 500), (''a'', 9)]
       (TokenBucketRateLimiter_new five_token_burst)))) ''a'' = Some b \<and>
     tokens b = Fin t \<and> clamp_non_negative (rc_burst five_token_burst) = Fin B \<and> 0 \<le> t \<and> t \<le> B"
proof -
  let ?m = "map_of (buckets (snd (run_checks [(''a'', 0), (''b'', 7), (''a'', 500), (''a'', 9)]
       (TokenBucketRateLimiter_new five_token_burst)))) ''a''"
  have "?m \<noteq> None" by (simp add: evaluate_checks)
  then obtain b where b: "?m = Some b" by blast
  from tokens_within_burst [OF five_token_burst_config b] b show ?thesis by blast
qed

section \<open>A burst at one instant\<close>

lemma clamp_pos: "0 < B \<Longrightarrow> clamp_non_negative (Fin B) = Fin B"
  by (simp add: clamp_non_negative_def)

lemma first_check:
  assumes "rc_enabled c" "rc_burst c = Fin B" "1 \<le> B"
  shows "check key now (TokenBucketRateLimiter_new c) = (True, (TokenBucketRateLimiter_new c)
     \<lparr>buckets := [(key, \<lparr>tokens = round_f64 (B - 1), last_refill_at = now, last_seen_at = now\<rparr>)]\<rparr>)"
  using assms by (simp add: check_def evict_idle_buckets_def clamp_pos f64_sub_def)

text \<open>
  C29. From a fresh limiter, \<open>n\<close> checks of one key at one instant are allowed exactly as long as the
  burst lasts: the check at position \<open>i\<close> (from 0) is allowed exactly when \<open>i + 1\<close> does not exceed
  the burst.
\<close>

theorem burst_at_one_instant:
  assumes "is_config c" "rc_enabled c" "rc_burst c = Fin B" "1 \<le> B" "B < 2 ^ 53"
  shows "fst (run_checks (replicate n (key, now)) (TokenBucketRateLimiter_new c)) =
    map (\<lambda>i. of_nat (i + 1) \<le> B) [0..<n]"
proof (cases n)
  case (Suc m)
  let ?rl = "snd (check key now (TokenBucketRateLimiter_new c))"
  have ok: "limiter_ok ?rl" using assms(1) by (intro check_ok limiter_ok_new)
  have "is_f64 (Fin B)" using assms by (simp add: is_config_def)
  then have exact: "round_f64 (B - 1) = Fin (B - 1)" using pred_exact assms by simp
  have "fst (run_checks (replicate m (key, now)) ?rl) = map (\<lambda>i. of_nat (i + 1) \<le> B - 1) [0..<m]"
    by (rule burst_from [OF ok, where b = "\<lparr>tokens = Fin (B - 1), last_refill_at = now, last_seen_at = now\<rparr>"])
      (use assms in \<open>simp_all add: first_check exact\<close>)
  moreover have "map (\<lambda>i. of_nat (i + 1) \<le> B) [0..<Suc m] = True # map (\<lambda>i. of_nat (i + 1) \<le> B - 1) [0..<m]"
    using assms(4) by (auto simp: upt_conv_Cons map_Suc_upt [symmetric] simp del: upt_Suc)
  ultimately show ?thesis
    using Suc first_check [OF assms(2-4), of key now] by (simp add: run_checks_Cons del: upt_Suc run_checks.simps(2))
qed simp

theorem burst_at_one_instant_witness:
  "fst (run_checks (replicate 7 (''a'', 100)) (TokenBucketRateLimiter_new five_token_burst)) =
     [True, True, True, True, True, False, False]"
proof -
  have "map (\<lambda>i. of_nat (i + 1) \<le> (5 :: rat)) [0..<7] = [True, True, True, True, True, False, False]"
    by code_simp
  with burst_at_one_instant [OF five_token_burst_config, where B = 5 and n = 7 and key = "''a''" and now = 100]
  show ?thesis by (simp add: five_token_burst_def)
qed

section \<open>Isolation\<close>

text \<open>
  C36. The decisions one key gets in any sequence of checks under a clock that does not run backwards
  are the decisions it would get from a limiter of its own: no traffic of another key, and no eviction
  such traffic triggers, is visible to it.
\<close>

theorem keys_are_isolated:
  assumes "is_config c" "clock_ok (map snd cs)"
  shows "decisions_for key cs (fst (run_checks cs (TokenBucketRateLimiter_new c))) =
    fst (run_checks (filter (\<lambda>e. fst e = key) cs) (TokenBucketRateLimiter_new c))"
proof (rule decisions_isolated [of key 0])
  show "clock_ok (0 # map snd cs)" using assms(2) by (auto simp: clock_ok_def)
qed (use assms(1) limiter_ok_new in \<open>auto simp: key_view_def same_config_def seen_before_def\<close>)

theorem keys_are_isolated_witness:
  "decisions_for ''a'' ((''a'', 0) # replicate 6 (''b'', 0) @ [(''a'', 0)])
     (fst (run_checks ((''a'', 0) # replicate 6 (''b'', 0) @ [(''a'', 0)]) (TokenBucketRateLimiter_new five_token_burst))) =
   [True, True]"
proof -
  let ?cs = "(''a'', 0) # replicate 6 (''b'', 0) @ [(''a'', 0)]"
  have "clock_ok (map snd ?cs)" by (simp add: clock_ok_def numeral_nat)
  from keys_are_isolated [OF five_token_burst_config this, of "''a''"] show ?thesis
    by (simp add: evaluate_checks numeral_nat)
qed

section \<open>Refill\<close>

lemma one_token_enough:
  assumes "tokens_ok B t" "f64_le (Fin 1) B" "f64_le (Fin 1) r"
  shows "\<not> f64_lt (f64_min (f64_add t r) B) (Fin 1)"
proof -
  obtain x b where v: "t = Fin x" "B = Fin b" "0 \<le> x" "1 \<le> b" using assms by (auto simp: tokens_ok_def)
  show ?thesis
  proof (cases r)
    case (Fin y)
    then have "1 \<le> x + y" using assms(3) v by simp
    then have "f64_le (round_f64 1) (round_f64 (x + y))" by (intro round_f64_mono) simp_all
    then have "f64_le (Fin 1) (f64_min (round_f64 (x + y)) B)"
      using v by (cases "round_f64 (x + y)") simp_all
    then show ?thesis using v Fin by (cases "f64_min (round_f64 (x + y)) B") (auto simp: not_less)
  qed (use v assms(3) in auto)
qed

text \<open>
  C38. With a burst of at least one token, a key is never locked out for good: after any sequence of
  checks, a check of a key is allowed if the limiter keeps no bucket for it, and also once the refill
  the code computes for the time since the key's last check amounts to one token.
\<close>

theorem refilled_key_is_allowed:
  assumes "is_config c" "f64_le (Fin 1) (rc_burst c)" "rc_burst c \<noteq> Infinity False"
    and "rl = snd (run_checks cs (TokenBucketRateLimiter_new c))"
    and "\<And>b. map_of (buckets rl) key = Some b \<Longrightarrow>
      f64_le (Fin 1) (f64_mul (f64_of_int (max (wrap64 (now - last_refill_at b)) 0)) (refill_tokens_per_ms rl))"
  shows "fst (check key now rl)"
proof -
  obtain B where "rc_burst c = Fin B" "1 \<le> B" using assms(2,3) by (cases "rc_burst c") auto
  then have B: "burst rl = Fin B" "1 \<le> B" using assms(4) by (simp_all add: clamp_pos)
  have ok: "limiter_ok rl" using assms(1,4) run_checks_ok limiter_ok_new by simp
  show ?thesis
  proof (cases "evicted rl now key")
    case (Some b)
    then have b: "map_of (buckets rl) key = Some b"
      using ok by (auto simp: map_of_evict limiter_ok_def split: option.splits if_splits)
    from one_token_enough [OF limiter_okD [OF ok b] _ assms(5) [OF b]] B Some show ?thesis
      by (simp add: check_def Let_def)
  qed (use B in \<open>simp add: check_def Let_def\<close>)
qed

theorem refilled_key_is_allowed_witness:
  "fst (check ''a'' 2000 (snd (run_checks (replicate 6 (''a'', 0)) (TokenBucketRateLimiter_new five_token_burst))))"
proof -
  let ?rl = "snd (run_checks (replicate 6 (''a'', 0)) (TokenBucketRateLimiter_new five_token_burst))"
  have "pred_option (\<lambda>b. f64_le (Fin 1) (f64_mul (f64_of_int (max (wrap64 (2000 - last_refill_at b)) 0))
      (refill_tokens_per_ms ?rl))) (map_of (buckets ?rl) ''a'')"
    by (simp add: evaluate_checks numeral_nat)
  then show ?thesis
    by (intro refilled_key_is_allowed [OF five_token_burst_config _ _ refl]) (simp_all add: five_token_burst_def)
qed

text \<open>
  The two switches of the configuration: a disabled limiter allows every check, and an enabled one
  whose burst is below one token, zero, negative or not a number allows none.
\<close>

theorem switched_limiter:
  "(\<not> rc_enabled c \<longrightarrow> fst (run_checks cs (TokenBucketRateLimiter_new c)) = replicate (length cs) True) \<and>
   (rc_enabled c \<and> f64_lt (clamp_non_negative (rc_burst c)) (Fin 1) \<longrightarrow>
     fst (run_checks cs (TokenBucketRateLimiter_new c)) = replicate (length cs) False)"
proof -
  have off: "fst (run_checks cs rl) = replicate (length cs) True" if "\<not> rl_enabled rl" for rl
    using that by (induction cs) (simp_all add: run_checks_Cons check_def del: run_checks.simps(2))
  have low: "fst (run_checks cs rl) = replicate (length cs) False"
    if "rl_enabled rl" "f64_lt (burst rl) (Fin 1)" "buckets rl = []" for rl
    using that
  proof (induction cs)
    case (Cons e cs)
    have "check (fst e) (snd e) rl = (False, rl)"
      using Cons.prems by (simp add: check_def evict_idle_buckets_def)
    with Cons show ?case by (simp add: run_checks_Cons del: run_checks.simps(2))
  qed simp
  show ?thesis using off low by simp
qed

end
