(* ===== verification/Mls_Parse.thy ===== *)
theory Mls_Parse
  imports Prelude
begin

text \<open>
  The key-package parser, \<^verbatim>\<open>crates/cordn-core/src/mls_parse.rs\<close>: a cursor over the bytes, the
  variable-length fields of the wire format, the walk over the extensions that looks for the
  last-resort marker, and \<open>parse_key_package\<close>. A parser returns the error or its result with the
  cursor it leaves (the \<^verbatim>\<open>?\<close> operator is \<open>and_then\<close>); \<^verbatim>\<open>std::str::from_utf8\<close> checks the byte
  sequences that the Unicode standard calls well-formed.
\<close>

unbundle bit_operations_syntax

section \<open>The parser\<close>

definition APP_DATA_DICTIONARY_EXTENSION_TYPE :: u16 where
  "APP_DATA_DICTIONARY_EXTENSION_TYPE = 0x0006"

definition LAST_RESORT_KEY_PACKAGE_COMPONENT_ID :: u16 where
  "LAST_RESORT_KEY_PACKAGE_COMPONENT_ID = 0x0004"

datatype MlsParseError =
    UnexpectedEof
  | UnsupportedVersion u16
  | UnsupportedCredential u16
  | UnexpectedLeafNodeSource u8
  | UnsupportedLengthPrefix
  | InvalidAppDataDictionary
  | InvalidIdentity
  | TrailingData

record ParsedKeyPackage =
  credential_identity :: string
  cipher_suite :: u16
  parsed_last_resort :: bool

record Cursor =
  cur_b :: bytes
  cur_i :: usize

type_synonym 'a parser = "Cursor \<Rightarrow> MlsParseError + 'a \<times> Cursor"

definition and_then :: "'a parser \<Rightarrow> ('a \<Rightarrow> 'b parser) \<Rightarrow> 'b parser" where
  "and_then p q c = (case p c of Inl e \<Rightarrow> Inl e | Inr (x, c') \<Rightarrow> q x c')"

definition parse_ok :: "'a \<Rightarrow> 'a parser" where
  "parse_ok x c = Inr (x, c)"

definition parse_result :: "MlsParseError + 'a \<Rightarrow> 'a parser" where
  "parse_result r c = (case r of Inl e \<Rightarrow> Inl e | Inr x \<Rightarrow> Inr (x, c))"

definition u16_from_be_bytes :: "u8 \<Rightarrow> u8 \<Rightarrow> u16" where
  "u16_from_be_bytes a b = push_bit 8 (ucast a) OR ucast b"

definition Cursor_new :: "bytes \<Rightarrow> Cursor" where
  "Cursor_new b = \<lparr>cur_b = b, cur_i = 0\<rparr>"

text \<open>\<^verbatim>\<open>slice.get(i)\<close>, with the error of every use in the parser.\<close>

definition get_byte :: "bytes \<Rightarrow> usize \<Rightarrow> MlsParseError + u8" where
  "get_byte b i = (if i < length b then Inr (b ! i) else Inl UnexpectedEof)"

definition Cursor_u8 :: "u8 parser" where
  "Cursor_u8 c = (case get_byte (cur_b c) (cur_i c) of
     Inl e \<Rightarrow> Inl e
   | Inr v \<Rightarrow> Inr (v, c\<lparr>cur_i := cur_i c + 1\<rparr>))"

definition Cursor_u16 :: "u16 parser" where
  "Cursor_u16 c =
     (if cur_i c + 2 \<le> length (cur_b c) then
        let v = take 2 (drop (cur_i c) (cur_b c))
        in Inr (u16_from_be_bytes (v ! 0) (v ! 1), c\<lparr>cur_i := cur_i c + 2\<rparr>)
      else Inl UnexpectedEof)"

definition read_var_bytes :: "bytes \<Rightarrow> usize \<Rightarrow> MlsParseError + bytes \<times> usize" where
  "read_var_bytes buf offset = (case get_byte buf offset of
     Inl e \<Rightarrow> Inl e
   | Inr first \<Rightarrow>
       let prefix = drop_bit 6 first in
       if prefix = 0b11 then Inl UnsupportedLengthPrefix
       else
         let length_field_size = push_bit (unat prefix) 1 in
         if offset + length_field_size > length buf then Inl UnexpectedEof
         else
           let len = foldl (\<lambda>len k. push_bit 8 len OR unat (buf ! (offset + k)))
                 (unat (first AND 0x3f)) [1..<length_field_size];
               start = offset + length_field_size;
               e = start + len
           in if e > length buf then Inl UnexpectedEof
              else Inr (take (e - start) (drop start buf), e))"

definition Cursor_var_bytes :: "bytes parser" where
  "Cursor_var_bytes c = (case read_var_bytes (cur_b c) (cur_i c) of
     Inl e \<Rightarrow> Inl e
   | Inr (data, next) \<Rightarrow> Inr (data, c\<lparr>cur_i := next\<rparr>))"

definition Cursor_skip :: "usize \<Rightarrow> unit parser" where
  "Cursor_skip n c =
     (if cur_i c + n > length (cur_b c) then Inl UnexpectedEof
      else Inr ((), c\<lparr>cur_i := cur_i c + n\<rparr>))"

definition Cursor_remaining :: "Cursor \<Rightarrow> bytes" where
  "Cursor_remaining c = drop (cur_i c) (cur_b c)"

text \<open>\<^verbatim>\<open>std::str::from_utf8\<close>.\<close>

abbreviation continuation :: "u8 \<Rightarrow> bool" where
  "continuation x \<equiv> 0x80 \<le> x \<and> x \<le> 0xBF"

fun is_utf8 :: "bytes \<Rightarrow> bool" where
  "is_utf8 [] = True"
| "is_utf8 (a # xs) =
     (if a < 0x80 then is_utf8 xs
      else case xs of
        [] \<Rightarrow> False
      | x # ys \<Rightarrow>
          if 0xC2 \<le> a \<and> a \<le> 0xDF then continuation x \<and> is_utf8 ys
          else case ys of
            [] \<Rightarrow> False
          | y # zs \<Rightarrow>
              if 0xE0 \<le> a \<and> a \<le> 0xEF
              then (if a = 0xE0 then 0xA0 \<le> x \<and> x \<le> 0xBF
                    else if a = 0xED then 0x80 \<le> x \<and> x \<le> 0x9F else continuation x) \<and>
                continuation y \<and> is_utf8 zs
              else case zs of
                [] \<Rightarrow> False
              | z # us \<Rightarrow>
                  0xF0 \<le> a \<and> a \<le> 0xF4 \<and>
                  (if a = 0xF0 then 0x90 \<le> x \<and> x \<le> 0xBF
                   else if a = 0xF4 then 0x80 \<le> x \<and> x \<le> 0x8F else continuation x) \<and>
                  continuation y \<and> continuation z \<and> is_utf8 us)"

definition string_of_bytes :: "bytes \<Rightarrow> string" where
  "string_of_bytes xs = map (\<lambda>x. char_of (unat x)) xs"

definition from_utf8 :: "bytes \<Rightarrow> MlsParseError + string" where
  "from_utf8 xs = (if is_utf8 xs then Inr (string_of_bytes xs) else Inl InvalidIdentity)"

text \<open>Both loops move on: a field has at least its length byte.\<close>

lemma read_var_bytes_progress:
  assumes "read_var_bytes buf offset = Inr (data, next)"
  shows "offset < next"
proof -
  have "0 < push_bit n (1 :: nat)" for n by (simp add: push_bit_eq_mult)
  with assms show ?thesis
    by (auto simp: read_var_bytes_def Let_def split: sum.splits if_splits intro: trans_less_add1)
qed

definition get_u16 :: "bytes \<Rightarrow> usize \<Rightarrow> MlsParseError + u16" where
  "get_u16 b i = (case get_byte b i of
     Inl e \<Rightarrow> Inl e
   | Inr x \<Rightarrow> (case get_byte b (i + 1) of Inl e \<Rightarrow> Inl e | Inr y \<Rightarrow> Inr (u16_from_be_bytes x y)))"

function dictionary_loop :: "bytes \<Rightarrow> usize \<Rightarrow> MlsParseError + bool" where
  "dictionary_loop dictionary offset =
     (if offset < length dictionary then
        case get_u16 dictionary offset of
          Inl e \<Rightarrow> Inl e
        | Inr component_id \<Rightarrow> (case read_var_bytes dictionary (offset + 2) of
            Inl e \<Rightarrow> Inl e
          | Inr (component_data, next) \<Rightarrow>
              if component_id = LAST_RESORT_KEY_PACKAGE_COMPONENT_ID \<and> component_data = [] then Inr True
              else dictionary_loop dictionary next)
      else Inr False)"
  by pat_completeness auto
termination
  by (relation "measure (\<lambda>(b, i). length b - i)") (auto dest!: read_var_bytes_progress)

definition is_last_resort_extension :: "bytes \<Rightarrow> MlsParseError + bool" where
  "is_last_resort_extension extension_data = (case read_var_bytes extension_data 0 of
     Inl e \<Rightarrow> Inl e
   | Inr (dictionary, e) \<Rightarrow>
       if e \<noteq> length extension_data then Inl InvalidAppDataDictionary else dictionary_loop dictionary 0)"

function extensions_loop :: "bytes \<Rightarrow> usize \<Rightarrow> MlsParseError + bool" where
  "extensions_loop extensions i =
     (if i < length extensions then
        case get_u16 extensions i of
          Inl e \<Rightarrow> Inl e
        | Inr ext_type \<Rightarrow> (case read_var_bytes extensions (i + 2) of
            Inl e \<Rightarrow> Inl e
          | Inr (ext_data, next) \<Rightarrow>
              if ext_type = APP_DATA_DICTIONARY_EXTENSION_TYPE then
                case is_last_resort_extension ext_data of
                  Inl e \<Rightarrow> Inl e
                | Inr found \<Rightarrow> if found then Inr True else extensions_loop extensions next
              else extensions_loop extensions next)
      else Inr False)"
  by pat_completeness auto
termination
  by (relation "measure (\<lambda>(b, i). length b - i)") (auto dest!: read_var_bytes_progress)

declare dictionary_loop.simps [simp del] extensions_loop.simps [simp del]

definition detect_last_resort :: "bytes \<Rightarrow> MlsParseError + bool" where
  "detect_last_resort extensions = extensions_loop extensions 0"

text \<open>The capabilities: a number of variable-length lists, each skipped whole.\<close>

fun skip_lists :: "nat \<Rightarrow> unit parser" where
  "skip_lists 0 = parse_ok ()"
| "skip_lists (Suc n) = and_then Cursor_var_bytes (\<lambda>_. skip_lists n)"

definition require :: "bool \<Rightarrow> MlsParseError \<Rightarrow> unit parser" where
  "require ok e = parse_result (if ok then Inr () else Inl e)"

definition leaf_node :: "string parser" where
  "leaf_node =
     and_then Cursor_var_bytes (\<lambda>hpke_pub.
     and_then Cursor_var_bytes (\<lambda>sig_pub.
     and_then Cursor_u16 (\<lambda>cred_type.
     and_then (require (cred_type = 1) (UnsupportedCredential cred_type)) (\<lambda>_.
     and_then Cursor_var_bytes (\<lambda>identity_bytes.
     and_then (parse_result (from_utf8 identity_bytes)) (\<lambda>credential_identity.
     and_then (skip_lists 5) (\<lambda>_.
     and_then Cursor_u8 (\<lambda>source.
     and_then (require (source = 1) (UnexpectedLeafNodeSource source)) (\<lambda>_.
     and_then (Cursor_skip 16) (\<lambda>_.
     and_then Cursor_var_bytes (\<lambda>ln_extensions.
     and_then Cursor_var_bytes (\<lambda>ln_signature.
     parse_ok credential_identity))))))))))))"

definition key_package_fields :: "ParsedKeyPackage parser" where
  "key_package_fields =
     and_then Cursor_u16 (\<lambda>version.
     and_then (require (version = 1) (UnsupportedVersion version)) (\<lambda>_.
     and_then Cursor_u16 (\<lambda>suite.
     and_then Cursor_var_bytes (\<lambda>init_key.
     and_then leaf_node (\<lambda>identity.
     and_then Cursor_var_bytes (\<lambda>kp_extensions.
     and_then (parse_result (detect_last_resort kp_extensions)) (\<lambda>last_resort.
     and_then Cursor_var_bytes (\<lambda>signature.
     parse_ok \<lparr>credential_identity = identity, cipher_suite = suite, parsed_last_resort = last_resort\<rparr>))))))))"

definition parse_key_package :: "bytes \<Rightarrow> MlsParseError + ParsedKeyPackage" where
  "parse_key_package b = (case key_package_fields (Cursor_new b) of
     Inl e \<Rightarrow> Inl e
   | Inr (p, c) \<Rightarrow> if Cursor_remaining c \<noteq> [] then Inl TrailingData else Inr p)"

section \<open>Evaluation of a field\<close>

lemma unat_drop_bit_6: "unat (drop_bit 6 (a :: u8)) = unat a div 64"
  by (simp add: drop_bit_eq_div unat_div_distrib)

lemma unat_and_3f: "unat ((a :: u8) AND 0x3f) = unat a mod 64"
proof -
  have "a AND 0x3f = take_bit 6 a" by (simp add: take_bit_eq_mask mask_numeral)
  then show ?thesis by (simp add: take_bit_eq_mod unat_mod_distrib)
qed

lemma u8_less: "unat (x :: u8) < 256"
  by (rule order_less_le_trans [OF unsigned_less]) simp

lemma push_or: "push_bit 8 n OR unat (x :: u8) = n * 256 + unat x"
proof -
  have "unat x = take_bit 8 (unat x)" using u8_less [of x] by (simp add: take_bit_nat_eq_self)
  then have "\<not> bit (push_bit 8 n AND unat x) i" for i
    by (cases "i < 8") (simp add: bit_and_iff bit_push_bit_iff, metis bit_and_iff bit_take_bit_iff)
  then have "push_bit 8 n AND unat x = 0" by (simp add: bit_eq_iff)
  then show ?thesis by (simp add: disjunctive_add_eq_or [symmetric] push_bit_eq_mult)
qed

section \<open>The wire format\<close>

text \<open>
  The format as a grammar, after the layout the source documents: a variable-length field is its data
  behind a length of one, two or four bytes whose top two bits give its size. The format allows a
  longer prefix than needed.
\<close>

definition u16_wire :: "u16 \<Rightarrow> bytes" where
  "u16_wire x = [of_nat (unat x div 256), of_nat (unat x mod 256)]"

fun var_prefix :: "nat \<Rightarrow> nat \<Rightarrow> bytes" where
  "var_prefix 0 n = [of_nat n]"
| "var_prefix (Suc 0) n = [of_nat (64 + n div 256), of_nat (n mod 256)]"
| "var_prefix k n = [of_nat (128 + n div 16777216), of_nat (n div 65536 mod 256), of_nat (n div 256 mod 256), of_nat (n mod 256)]"

fun var_capacity :: "nat \<Rightarrow> nat" where
  "var_capacity 0 = 64"
| "var_capacity (Suc 0) = 16384"
| "var_capacity k = 1073741824"

definition var_wire :: "bytes \<Rightarrow> bytes \<Rightarrow> bool" where
  "var_wire data w \<longleftrightarrow>
     (\<exists>k \<in> {0, 1, 2}. length data < var_capacity k \<and> w = var_prefix k (length data) @ data)"

lemma u16_wire_from_be: "u16_wire (u16_from_be_bytes a b) = [a, b]" and
  from_be_u16_wire: "u16_wire x = [a, b] \<Longrightarrow> u16_from_be_bytes a b = x"
proof -
  have push: "unat (push_bit 8 (ucast a :: u16)) = unat a * 256" for a :: u8
  proof -
    have "push_bit 8 (ucast a :: u16) = of_nat (unat a * 256)" by (simp add: push_bit_eq_mult)
    moreover have "unat a * 256 < 2 ^ 16" using u8_less [of a] by simp
    ultimately show ?thesis by (simp add: unat_of_nat take_bit_nat_eq_self del: of_nat_mult)
  qed
  have small: "take_bit 16 (unat b) = unat b" for b :: u8
    using u8_less [of b] by (simp add: take_bit_nat_eq_self)
  have be: "unat (u16_from_be_bytes a b) = unat a * 256 + unat b" for a b
    using push [of a] push_or [of "unat a" b]
    by (simp add: u16_from_be_bytes_def unsigned_or_eq unsigned_ucast_eq push_bit_eq_mult small)
  then show "u16_wire (u16_from_be_bytes a b) = [a, b]" using u8_less [of b] by (simp add: u16_wire_def)
  show "u16_from_be_bytes a b = x" if "u16_wire x = [a, b]"
  proof -
    have "unat x < 65536" by (rule order_less_le_trans [OF unsigned_less]) simp
    then have "unat a = unat x div 256" "unat b = unat x mod 256"
      using that by (auto simp: u16_wire_def unat_of_nat take_bit_nat_eq_self)
    then have "unat (u16_from_be_bytes a b) = unat x" by (simp add: be)
    then show ?thesis by (simp add: word_unat_eq_iff)
  qed
qed

text \<open>Reading a field, by the shape of what is left of the buffer.\<close>

definition take_data :: "nat \<Rightarrow> nat \<Rightarrow> bytes \<Rightarrow> MlsParseError + bytes \<times> nat" where
  "take_data sz n xs = (if length xs < n then Inl UnexpectedEof else Inr (take n xs, sz + n))"

fun decode_var :: "bytes \<Rightarrow> MlsParseError + bytes \<times> nat" where
  "decode_var [] = Inl UnexpectedEof"
| "decode_var (a # xs) =
     (if unat a < 64 then take_data 1 (unat a) xs
      else if unat a < 128 then
        (case xs of x # ys \<Rightarrow> take_data 2 ((unat a - 64) * 256 + unat x) ys | _ \<Rightarrow> Inl UnexpectedEof)
      else if unat a < 192 then
        (case xs of
           x # y # z # ys \<Rightarrow>
             take_data 4 ((unat a - 128) * 16777216 + unat x * 65536 + unat y * 256 + unat z) ys
         | _ \<Rightarrow> Inl UnexpectedEof)
      else Inl UnsupportedLengthPrefix)"

definition at_offset :: "nat \<Rightarrow> MlsParseError + 'a \<times> nat \<Rightarrow> MlsParseError + 'a \<times> nat" where
  "at_offset n r = (case r of Inl e \<Rightarrow> Inl e | Inr (x, m) \<Rightarrow> Inr (x, n + m))"

lemma at_offset_simps [simp]: "at_offset n (Inl e) = Inl e" "at_offset n (Inr (x, m)) = Inr (x, n + m)"
  by (simp_all add: at_offset_def)

lemma prefix_cases:
  fixes a :: u8
  obtains (one) "unat a < 64" "drop_bit 6 a = 0" "unat (a AND 0x3f) = unat a"
  | (two) "64 \<le> unat a" "unat a < 128" "drop_bit 6 a = 1" "unat (a AND 0x3f) = unat a - 64"
  | (four) "128 \<le> unat a" "unat a < 192" "drop_bit 6 a = 2" "unat (a AND 0x3f) = unat a - 128"
  | (eight) "192 \<le> unat a" "drop_bit 6 a = 3"
proof -
  have eq: "drop_bit 6 a = w \<longleftrightarrow> unat a div 64 = unat w" for w
    by (simp add: word_unat_eq_iff unat_drop_bit_6)
  consider "unat a < 64" | "64 \<le> unat a" "unat a < 128" | "128 \<le> unat a" "unat a < 192" | "192 \<le> unat a" by linarith
  then show ?thesis
  proof cases
    case 1
    then show ?thesis by (intro one) (simp_all add: eq unat_and_3f)
  next
    case 2
    then have d: "unat a div 64 = 1" by simp
    then have "unat a mod 64 = unat a - 64" by (simp add: modulo_nat_def)
    with 2 d show ?thesis by (intro two) (simp_all add: eq unat_and_3f)
  next
    case 3
    then have d: "unat a div 64 = 2" by simp
    then have "unat a mod 64 = unat a - 128" by (simp add: modulo_nat_def)
    with 3 d show ?thesis by (intro four) (simp_all add: eq unat_and_3f)
  next
    case 4
    then have "unat a div 64 = 3" using u8_less [of a] by simp
    with 4 show ?thesis by (intro eight) (simp_all add: eq)
  qed
qed

lemma read_var_bytes_decode:
  assumes "offset \<le> length buf"
  shows "read_var_bytes buf offset = at_offset offset (decode_var (drop offset buf))"
proof (cases "drop offset buf")
  case Nil
  then show ?thesis by (simp add: read_var_bytes_def get_byte_def)
next
  case (Cons a xs)
  define pre where "pre = take offset buf"
  have buf: "buf = pre @ a # xs" "offset = length pre"
    using Cons assms append_take_drop_id [of offset buf] by (auto simp: pre_def)
  have sizes: "push_bit 0 (1 :: nat) = 1" "push_bit (Suc 0) (1 :: nat) = 2" "push_bit 2 (1 :: nat) = 4"
    by (simp_all add: push_bit_eq_mult)
  have upts: "[Suc 0..<2] = [Suc 0]" "[Suc 0..<4] = [Suc 0, 2, 3]" by (simp_all add: upt_rec)
  show ?thesis
  proof (cases a rule: prefix_cases)
    case one
    then show ?thesis
      by (simp add: buf read_var_bytes_def get_byte_def Let_def sizes take_data_def)
  next
    case two
    then show ?thesis
      by (cases xs) (simp_all add: buf read_var_bytes_def get_byte_def Let_def sizes push_or take_data_def nth_append upts)
  next
    case four
    have short: "read_var_bytes buf offset = Inl UnexpectedEof" if "length xs < 3"
      using four that by (simp add: buf read_var_bytes_def get_byte_def Let_def sizes)
    consider "xs = []" | x where "xs = [x]" | x y where "xs = [x, y]" | x y z ys where "xs = x # y # z # ys"
      by (metis list.exhaust)
    then show ?thesis
    proof cases
      case (4 x y z ys)
      obtain m where "unat a = 128 + m" using four(1) le_Suc_ex by blast
      with four 4 show ?thesis
        by (simp add: buf read_var_bytes_def get_byte_def Let_def sizes push_or take_data_def nth_append upts algebra_simps)
    qed (use four short in \<open>simp_all add: buf\<close>)
  next
    case eight
    then show ?thesis by (simp add: buf read_var_bytes_def get_byte_def)
  qed
qed

text \<open>Four base-256 digits.\<close>

lemma div_65536: "n div 65536 = n div 256 div 256" and div_16777216: "n div 16777216 = n div 256 div 256 div (256 :: nat)"
  by (simp_all flip: div_mult2_eq)

lemma be_digits:
  fixes n :: nat
  shows "n div 16777216 * 16777216 + n div 65536 mod 256 * 65536 + n div 256 mod 256 * 256 + n mod 256 = n"
proof -
  let ?q = "n div 256"
  have "?q div 256 * 256 + ?q mod 256 = ?q" "?q div 256 div 256 * 256 + ?q div 256 mod 256 = ?q div 256"
    "?q * 256 + n mod 256 = n"
    by (rule div_mult_mod_eq)+
  then show ?thesis unfolding div_65536 div_16777216 by linarith
qed

lemma last_digit: "z < 256 \<Longrightarrow> (q * 256 + z) div 256 = q" "z < 256 \<Longrightarrow> (q * 256 + z) mod 256 = (z :: nat)"
  by simp_all

lemma be_horner:
  fixes x y z m :: nat
  assumes "x < 256" "y < 256" "z < 256" "n = m * 16777216 + x * 65536 + y * 256 + z"
  shows "n div 16777216 = m" "n div 65536 mod 256 = x" "n div 256 mod 256 = y" "n mod 256 = z"
proof -
  have n: "n = ((m * 256 + x) * 256 + y) * 256 + z" using assms(4) by simp
  then have q: "n div 256 = (m * 256 + x) * 256 + y" "n mod 256 = z" by (simp_all only: last_digit [OF assms(3)])
  then have q2: "n div 256 div 256 = m * 256 + x" "n div 256 mod 256 = y" by (simp_all only: last_digit [OF assms(2)])
  from q q2 show "n div 16777216 = m" "n div 65536 mod 256 = x" "n div 256 mod 256 = y" "n mod 256 = z"
    unfolding div_65536 div_16777216 by (simp_all only: last_digit [OF assms(1)])
qed

lemma decode_var_wire:
  assumes "var_wire data w"
  shows "decode_var (w @ rest) = Inr (data, length w)"
proof -
  from assms consider "length data < 64" "w = of_nat (length data) # data"
    | "length data < 16384" "w = [of_nat (64 + length data div 256), of_nat (length data mod 256)] @ data"
    | "length data < 1073741824" "w = [of_nat (128 + length data div 16777216), of_nat (length data div 65536 mod 256),
        of_nat (length data div 256 mod 256), of_nat (length data mod 256)] @ data"
    by (auto simp: var_wire_def numeral_2_eq_2)
  then show ?thesis
  proof cases
    case 1
    then show ?thesis by (simp add: unat_of_nat take_bit_nat_eq_self take_data_def)
  next
    case 2
    then have "unat (of_nat (64 + length data div 256) :: u8) = 64 + length data div 256"
      "unat (of_nat (length data mod 256) :: u8) = length data mod 256"
      by (simp_all add: unat_of_nat take_bit_nat_eq_self del: of_nat_add)
    moreover have "length data div 256 < 64" using 2 by simp
    ultimately show ?thesis using 2 by (simp add: take_data_def del: of_nat_add)
  next
    case 3
    then have "unat (of_nat (128 + length data div 16777216) :: u8) = 128 + length data div 16777216"
      "unat (of_nat (length data div 65536 mod 256) :: u8) = length data div 65536 mod 256"
      "unat (of_nat (length data div 256 mod 256) :: u8) = length data div 256 mod 256"
      "unat (of_nat (length data mod 256) :: u8) = length data mod 256"
      by (simp_all add: unat_of_nat take_bit_nat_eq_self del: of_nat_add)
    moreover note be_digits [of "length data"]
    moreover have "128 + length data div 16777216 < 192" using 3 by simp
    ultimately show ?thesis using 3 by (simp add: take_data_def del: of_nat_add)
  qed
qed

lemma take_data_Inr: "take_data sz n xs = Inr (data, m) \<Longrightarrow> length data = n \<and> m = sz + n \<and> xs = data @ drop n xs"
  by (auto simp: take_data_def split: if_splits)

lemma var_wire_decode:
  assumes "decode_var xs = Inr (data, m)"
  shows "\<exists>w. var_wire data w \<and> m = length w \<and> xs = w @ drop m xs"
proof (cases xs)
  case (Cons a ys)
  show ?thesis
  proof (cases a rule: prefix_cases)
    case one
    with Cons assms have "take_data 1 (unat a) ys = Inr (data, m)" by simp
    from take_data_Inr [OF this] Cons one show ?thesis by (intro exI [of _ "a # data"]) (auto simp: var_wire_def)
  next
    case two
    then obtain x zs where ys: "ys = x # zs" "take_data 2 ((unat a - 64) * 256 + unat x) zs = Inr (data, m)"
      using Cons assms by (auto split: list.splits)
    let ?n = "(unat a - 64) * 256 + unat x"
    have n: "?n div 256 = unat a - 64" "?n mod 256 = unat x" "?n < 16384" using u8_less [of x] two by auto
    from take_data_Inr [OF ys(2)] have d: "length data = ?n" "m = 2 + ?n" "zs = data @ drop ?n zs" by auto
    have "var_wire data (a # x # data)"
      unfolding var_wire_def by (rule bexI [of _ 1]) (use two n d(1) in simp_all)
    then show ?thesis using Cons ys d by (intro exI [of _ "a # x # data"]) auto
  next
    case four
    then obtain x y z zs where ys: "ys = x # y # z # zs"
      "take_data 4 ((unat a - 128) * 16777216 + unat x * 65536 + unat y * 256 + unat z) zs = Inr (data, m)"
      using Cons assms by (auto split: list.splits)
    define n where "n = (unat a - 128) * 16777216 + unat x * 65536 + unat y * 256 + unat z"
    note digits = be_horner [OF u8_less [of x] u8_less [of y] u8_less [of z] n_def]
    have "n < 1073741824" using u8_less [of x] u8_less [of y] u8_less [of z] four by (simp add: n_def)
    from take_data_Inr [OF ys(2)] have d: "length data = n" "m = 4 + n" "zs = data @ drop n zs"
      by (auto simp: n_def)
    have "var_prefix 2 n = [a, x, y, z]" using four(1) by (simp add: numeral_2_eq_2 digits)
    then have "var_wire data (a # x # y # z # data)"
      unfolding var_wire_def using d(1) \<open>n < 1073741824\<close> by (intro bexI [of _ 2]) (simp_all add: numeral_2_eq_2)
    moreover have "drop (4 + n) (a # x # y # z # zs) = drop n zs" by (simp add: numeral_eq_Suc)
    ultimately show ?thesis
      using Cons ys(1) d by (intro exI [of _ "a # x # y # z # data"]) simp
  next
    case eight
    with Cons assms show ?thesis by simp
  qed
qed (use assms in simp)

text \<open>A field reads \<open>data\<close> exactly when the buffer goes on with an encoding of \<open>data\<close>.\<close>

lemma read_var_bytes_iff:
  assumes "offset \<le> length buf"
  shows "read_var_bytes buf offset = Inr (data, next) \<longleftrightarrow>
    (\<exists>w. var_wire data w \<and> next = offset + length w \<and> drop offset buf = w @ drop next buf)"
proof
  assume "read_var_bytes buf offset = Inr (data, next)"
  then obtain m where m: "decode_var (drop offset buf) = Inr (data, m)" "next = offset + m"
    using assms by (auto simp: read_var_bytes_decode at_offset_def split: sum.splits)
  from var_wire_decode [OF m(1)] m(2)
  show "\<exists>w. var_wire data w \<and> next = offset + length w \<and> drop offset buf = w @ drop next buf"
    by (auto simp: add.commute)
next
  assume "\<exists>w. var_wire data w \<and> next = offset + length w \<and> drop offset buf = w @ drop next buf"
  then obtain w where w: "var_wire data w" "next = offset + length w" "drop offset buf = w @ drop next buf" by blast
  from decode_var_wire [OF w(1)] w(3) have "decode_var (drop offset buf) = Inr (data, length w)" by metis
  with assms w(2) show "read_var_bytes buf offset = Inr (data, next)" by (simp add: read_var_bytes_decode)
qed

text \<open>A field cut short is an unexpected end of the input.\<close>

lemma decode_var_truncated:
  assumes "decode_var xs = Inr (data, m)" "n < m"
  shows "decode_var (take n xs) = Inl UnexpectedEof"
proof (cases xs)
  case (Cons a ys)
  show ?thesis
  proof (cases n)
    case (Suc k)
    show ?thesis
    proof (cases a rule: prefix_cases)
      case one
      with Cons assms Suc show ?thesis by (auto simp: take_data_def split: if_splits)
    next
      case two
      with Cons assms Suc show ?thesis
        by (auto simp: take_data_def take_Cons' split: list.splits if_splits)
    next
      case four
      with Cons assms Suc show ?thesis
        by (auto simp: take_data_def take_Cons' split: list.splits if_splits)
    next
      case eight
      with Cons assms show ?thesis by simp
    qed
  qed simp
qed (use assms in simp)

section \<open>Parsers and grammars\<close>

text \<open>
  \<open>parses p R\<close>: the parser \<open>p\<close> yields \<open>x\<close> exactly on inputs that begin with a word of \<open>R x\<close>, and
  consumes that word. \<open>eof_safe p\<close>: an input that \<open>p\<close> accepts, cut off before the end of the word,
  is reported as an unexpected end of the input.
\<close>

definition in_bounds :: "Cursor \<Rightarrow> bool" where
  "in_bounds c \<longleftrightarrow> cur_i c \<le> length (cur_b c)"

definition parses :: "'a parser \<Rightarrow> ('a \<Rightarrow> bytes \<Rightarrow> bool) \<Rightarrow> bool" where
  "parses p R \<longleftrightarrow> (\<forall>c x c'. in_bounds c \<longrightarrow>
     (p c = Inr (x, c') \<longleftrightarrow>
      (\<exists>w. R x w \<and> c' = c\<lparr>cur_i := cur_i c + length w\<rparr> \<and> Cursor_remaining c = w @ Cursor_remaining c')))"

definition eof_safe :: "'a parser \<Rightarrow> bool" where
  "eof_safe p \<longleftrightarrow> (\<forall>c x c' n. in_bounds c \<longrightarrow> p c = Inr (x, c') \<longrightarrow> cur_i c \<le> n \<longrightarrow> n < cur_i c' \<longrightarrow>
     p (c\<lparr>cur_b := take n (cur_b c)\<rparr>) = Inl UnexpectedEof)"

definition seq_wire :: "('a \<Rightarrow> bytes \<Rightarrow> bool) \<Rightarrow> ('a \<Rightarrow> 'b \<Rightarrow> bytes \<Rightarrow> bool) \<Rightarrow> 'b \<Rightarrow> bytes \<Rightarrow> bool" where
  "seq_wire R S y w \<longleftrightarrow> (\<exists>x u v. R x u \<and> S x y v \<and> w = u @ v)"

lemma parses_in_bounds:
  assumes "parses p R" "in_bounds c" "p c = Inr (x, c')"
  shows "in_bounds c'" "cur_b c' = cur_b c" "cur_i c \<le> cur_i c'"
proof -
  obtain w where w: "c' = c\<lparr>cur_i := cur_i c + length w\<rparr>" "Cursor_remaining c = w @ Cursor_remaining c'"
    using assms unfolding parses_def by blast
  then have "length (drop (cur_i c) (cur_b c)) \<ge> length w" by (simp add: Cursor_remaining_def)
  with w(1) assms(2) show "in_bounds c'" "cur_b c' = cur_b c" "cur_i c \<le> cur_i c'" by (auto simp: in_bounds_def)
qed

lemma parses_and_then:
  assumes "parses p R" "\<And>x. parses (q x) (S x)"
  shows "parses (and_then p q) (seq_wire R S)"
  unfolding parses_def
proof (intro allI impI iffI)
  fix c y c' assume c: "in_bounds c" and "and_then p q c = Inr (y, c')"
  then obtain x d where d: "p c = Inr (x, d)" "q x d = Inr (y, c')"
    by (auto simp: and_then_def split: sum.splits prod.splits)
  note bd = parses_in_bounds [OF assms(1) c d(1)]
  obtain u where u: "R x u" "d = c\<lparr>cur_i := cur_i c + length u\<rparr>" "Cursor_remaining c = u @ Cursor_remaining d"
    using assms(1) c d(1) unfolding parses_def by blast
  obtain v where v: "S x y v" "c' = d\<lparr>cur_i := cur_i d + length v\<rparr>" "Cursor_remaining d = v @ Cursor_remaining c'"
    using assms(2) [of x] bd(1) d(2) unfolding parses_def by blast
  show "\<exists>w. seq_wire R S y w \<and> c' = c\<lparr>cur_i := cur_i c + length w\<rparr> \<and> Cursor_remaining c = w @ Cursor_remaining c'"
    using u v by (intro exI [of _ "u @ v"]) (auto simp: seq_wire_def)
next
  fix c y c'
  assume c: "in_bounds c"
    and "\<exists>w. seq_wire R S y w \<and> c' = c\<lparr>cur_i := cur_i c + length w\<rparr> \<and> Cursor_remaining c = w @ Cursor_remaining c'"
  then obtain x u v where w: "R x u" "S x y v" "c' = c\<lparr>cur_i := cur_i c + length (u @ v)\<rparr>"
    "Cursor_remaining c = u @ v @ Cursor_remaining c'"
    by (auto simp: seq_wire_def)
  define d where "d = c\<lparr>cur_i := cur_i c + length u\<rparr>"
  have rem: "Cursor_remaining d = v @ Cursor_remaining c'"
  proof -
    have "Cursor_remaining d = drop (length u) (Cursor_remaining c)"
      by (simp add: d_def Cursor_remaining_def add.commute)
    then show ?thesis using w(4) by simp
  qed
  have "p c = Inr (x, d)" using assms(1) c w rem unfolding parses_def d_def by fastforce
  moreover have "q x d = Inr (y, c')"
    using assms(2) [of x] parses_in_bounds(1) [OF assms(1) c \<open>p c = Inr (x, d)\<close>] w rem
    unfolding parses_def by (fastforce simp: d_def add.assoc)
  ultimately show "and_then p q c = Inr (y, c')" by (simp add: and_then_def)
qed

lemma parses_iff:
  "parses p R \<Longrightarrow> in_bounds c \<Longrightarrow> p c = Inr (x, c') \<longleftrightarrow>
     (\<exists>w. R x w \<and> c' = c\<lparr>cur_i := cur_i c + length w\<rparr> \<and> Cursor_remaining c = w @ Cursor_remaining c')"
  by (simp add: parses_def)

text \<open>A parser looks no further than the word it consumes.\<close>

lemma parses_window:
  assumes "parses p R" "in_bounds c" "p c = Inr (x, c')" "take (cur_i c') buf = take (cur_i c') (cur_b c)"
    "cur_i c' \<le> length buf"
  shows "p (c\<lparr>cur_b := buf\<rparr>) = Inr (x, c'\<lparr>cur_b := buf\<rparr>)"
proof -
  let ?d = "c\<lparr>cur_b := buf\<rparr>"
  obtain w where w: "R x w" "c' = c\<lparr>cur_i := cur_i c + length w\<rparr>" "Cursor_remaining c = w @ Cursor_remaining c'"
    using assms(1-3) by (auto simp: parses_iff)
  have "take (length w) (drop (cur_i c) buf) = take (length w) (drop (cur_i c) (cur_b c))"
    using assms(4) w(2) by (simp add: take_drop add.commute)
  also have "\<dots> = w" using w(3) by (simp add: Cursor_remaining_def)
  finally have "drop (cur_i c) buf = w @ drop (cur_i c + length w) buf"
    by (metis append_take_drop_id drop_drop add.commute)
  moreover have "in_bounds ?d" using assms(5) w(2) by (simp add: in_bounds_def)
  ultimately show ?thesis
    using w(1,2) assms(1) by (auto simp: parses_iff Cursor_remaining_def)
qed

lemma eof_safe_and_then:
  assumes p: "parses p R" "eof_safe p" and q: "\<And>x. parses (q x) (S x)" "\<And>x. eof_safe (q x)"
  shows "eof_safe (and_then p q)"
  unfolding eof_safe_def
proof (intro allI impI)
  fix c y c' n
  assume c: "in_bounds c" and run: "and_then p q c = Inr (y, c')" and n: "cur_i c \<le> n" "n < cur_i c'"
  let ?cut = "\<lambda>c. c\<lparr>cur_b := take n (cur_b c)\<rparr>"
  obtain x d where d: "p c = Inr (x, d)" "q x d = Inr (y, c')"
    using run by (auto simp: and_then_def split: sum.splits prod.splits)
  note bd = parses_in_bounds [OF p(1) c d(1)]
  note bc = parses_in_bounds [OF q(1) bd(1) d(2)]
  show "and_then p q (?cut c) = Inl UnexpectedEof"
  proof (cases "n < cur_i d")
    case True
    with p(2) c d(1) n(1) show ?thesis unfolding eof_safe_def and_then_def by (metis (no_types, lifting) sum.case(1))
  next
    case False
    have "n \<le> length (cur_b c)" using n(2) bc bd by (simp add: in_bounds_def)
    then have "p (?cut c) = Inr (x, ?cut d)"
      using parses_window [OF p(1) c d(1), of "take n (cur_b c)"] False bd by (simp add: min_def)
    moreover have "q x (?cut d) = Inl UnexpectedEof"
      using q(2) [of x] bd(1) d(2) False n(2) unfolding eof_safe_def by simp
    ultimately show ?thesis by (simp add: and_then_def)
  qed
qed

text \<open>The primitive parsers.\<close>

lemma parse_ok_parser: "parses (parse_ok x) (\<lambda>y w. y = x \<and> w = [])" "eof_safe (parse_ok x)"
  by (auto simp: parses_def eof_safe_def parse_ok_def)

lemma parse_result_parser: "parses (parse_result r) (\<lambda>y w. r = Inr y \<and> w = [])" "eof_safe (parse_result r)"
  by (auto simp: parses_def eof_safe_def parse_result_def split: sum.splits)

lemma drop_Cons_nth: "drop i xs = y # drop (Suc i) xs \<longleftrightarrow> i < length xs \<and> xs ! i = y"
  by (metis Cons_nth_drop_Suc drop_eq_Nil list.distinct(1) list.inject not_le)

lemma Cursor_u8_parser: "parses Cursor_u8 (\<lambda>x w. w = [x])" "eof_safe Cursor_u8"
  by (auto simp: parses_def eof_safe_def Cursor_u8_def get_byte_def Cursor_remaining_def in_bounds_def drop_Cons_nth
      split: if_splits)

lemma drop_two_nth:
  "drop i xs = y # z # drop (Suc (Suc i)) xs \<longleftrightarrow> Suc i < length xs \<and> xs ! i = y \<and> xs ! Suc i = z"
proof -
  have "drop i xs = y # z # drop (Suc (Suc i)) xs \<longleftrightarrow>
      drop i xs = y # drop (Suc i) xs \<and> drop (Suc i) xs = z # drop (Suc (Suc i)) xs"
    by (metis drop_Suc drop_eq_Nil list.sel(3) tl_drop)
  then show ?thesis by (auto simp: drop_Cons_nth)
qed

lemma u16_wire_eq: "u16_wire x = [a, b] \<longleftrightarrow> x = u16_from_be_bytes a b"
  using u16_wire_from_be from_be_u16_wire by metis

lemma length_u16_wire [simp]: "length (u16_wire x) = 2"
  by (simp add: u16_wire_def)

lemma Cursor_u16_parser: "parses Cursor_u16 (\<lambda>x w. w = u16_wire x)" "eof_safe Cursor_u16"
proof -
  have "Cursor_u16 c = Inr (x, c') \<longleftrightarrow>
      (\<exists>w. w = u16_wire x \<and> c' = c\<lparr>cur_i := cur_i c + length w\<rparr> \<and> Cursor_remaining c = w @ Cursor_remaining c')" for c x c'
  proof -
    obtain a b where ab: "u16_wire x = [a, b]" by (simp add: u16_wire_def)
    then have x: "x = u16_from_be_bytes p q \<longleftrightarrow> a = p \<and> b = q" for p q by (auto simp: u16_wire_eq [symmetric])
    show ?thesis
      by (auto simp: Cursor_u16_def Let_def Cursor_remaining_def drop_two_nth ab x
          eq_commute [of "u16_from_be_bytes _ _" x] dest: arg_cong [where f = length])
  qed
  then show "parses Cursor_u16 (\<lambda>x w. w = u16_wire x)" unfolding parses_def by blast
  show "eof_safe Cursor_u16"
    by (auto simp: eof_safe_def Cursor_u16_def Let_def split: if_splits)
qed

lemma Cursor_var_bytes_parser: "parses Cursor_var_bytes var_wire" "eof_safe Cursor_var_bytes"
proof -
  have run: "Cursor_var_bytes c = Inr (x, c') \<longleftrightarrow>
      (\<exists>next. read_var_bytes (cur_b c) (cur_i c) = Inr (x, next) \<and> c' = c\<lparr>cur_i := next\<rparr>)" for c x c'
    by (auto simp: Cursor_var_bytes_def split: sum.splits)
  show "parses Cursor_var_bytes var_wire"
    unfolding parses_def in_bounds_def by (auto simp: run read_var_bytes_iff Cursor_remaining_def) blast
  show "eof_safe Cursor_var_bytes"
    unfolding eof_safe_def
  proof (intro allI impI)
    fix c x c' n
    assume c: "in_bounds c" "Cursor_var_bytes c = Inr (x, c')" "cur_i c \<le> n" "n < cur_i c'"
    from c obtain m where m: "decode_var (drop (cur_i c) (cur_b c)) = Inr (x, m)" "cur_i c' = cur_i c + m"
      by (auto simp: run read_var_bytes_decode at_offset_def in_bounds_def split: sum.splits)
    have "decode_var (take (n - cur_i c) (drop (cur_i c) (cur_b c))) = Inl UnexpectedEof"
      using decode_var_truncated [OF m(1), of "n - cur_i c"] m(2) c(3,4) by simp
    then have "read_var_bytes (take n (cur_b c)) (cur_i c) = Inl UnexpectedEof"
      using c(1,3) by (simp add: read_var_bytes_decode in_bounds_def drop_take)
    then show "Cursor_var_bytes (c\<lparr>cur_b := take n (cur_b c)\<rparr>) = Inl UnexpectedEof"
      by (simp add: Cursor_var_bytes_def)
  qed
qed

lemma Cursor_skip_parser: "parses (Cursor_skip n) (\<lambda>_ w. length w = n)" "eof_safe (Cursor_skip n)"
proof -
  have "Cursor_skip n c = Inr (x, c') \<longleftrightarrow>
      (\<exists>w. length w = n \<and> c' = c\<lparr>cur_i := cur_i c + length w\<rparr> \<and> Cursor_remaining c = w @ Cursor_remaining c')"
    if "in_bounds c" for c x c'
  proof
    assume "Cursor_skip n c = Inr (x, c')"
    then have c': "cur_i c + n \<le> length (cur_b c)" "c' = c\<lparr>cur_i := cur_i c + n\<rparr>"
      by (auto simp: Cursor_skip_def split: if_splits)
    then show "\<exists>w. length w = n \<and> c' = c\<lparr>cur_i := cur_i c + length w\<rparr> \<and> Cursor_remaining c = w @ Cursor_remaining c'"
      by (intro exI [of _ "take n (Cursor_remaining c)"])
        (auto simp: Cursor_remaining_def min_def add.commute append_take_drop_id simp flip: drop_drop)
  next
    assume "\<exists>w. length w = n \<and> c' = c\<lparr>cur_i := cur_i c + length w\<rparr> \<and> Cursor_remaining c = w @ Cursor_remaining c'"
    then obtain w where w: "length w = n" "c' = c\<lparr>cur_i := cur_i c + n\<rparr>" "drop (cur_i c) (cur_b c) = w @ Cursor_remaining c'"
      by (auto simp: Cursor_remaining_def)
    then have "n \<le> length (drop (cur_i c) (cur_b c))" by simp
    with w(2) that show "Cursor_skip n c = Inr (x, c')" by (auto simp: Cursor_skip_def in_bounds_def)
  qed
  then show "parses (Cursor_skip n) (\<lambda>_ w. length w = n)" unfolding parses_def by blast
  show "eof_safe (Cursor_skip n)" by (auto simp: eof_safe_def Cursor_skip_def split: if_splits)
qed

end
