(* ===== verification/Mls_Parse_Properties.thy ===== *)
theory Mls_Parse_Properties
  imports Mls_Parse
begin

text \<open>
  The parser against the wire format. The format is a grammar over the fields of \<open>Mls_Parse\<close>, and the
  parser accepts exactly its words, with the facts the grammar gives. The two loops of the source walk
  the same kind of list, so what a walk finds is proved once, in the locale \<open>field_walk\<close>.
\<close>

section \<open>Lists of typed fields\<close>

text \<open>
  A list of fields, each behind a 16-bit type, read up to the first field that the judgement \<open>J\<close>
  calls a hit. Fields behind a hit are not read.
\<close>

inductive entries :: "(u16 \<Rightarrow> bytes \<Rightarrow> bool \<Rightarrow> bool) \<Rightarrow> bool \<Rightarrow> bytes \<Rightarrow> bool"
  for J :: "u16 \<Rightarrow> bytes \<Rightarrow> bool \<Rightarrow> bool" where
  entries_none: "entries J False []"
| entries_skip: "J ty d False \<Longrightarrow> var_wire d w \<Longrightarrow> entries J r rest \<Longrightarrow> entries J r (u16_wire ty @ w @ rest)"
| entries_hit: "J ty d True \<Longrightarrow> var_wire d w \<Longrightarrow> entries J True (u16_wire ty @ w @ rest)"

lemma get_u16_iff: "get_u16 buf i = Inr ty \<longleftrightarrow> i + 2 \<le> length buf \<and> drop i buf = u16_wire ty @ drop (i + 2) buf"
proof -
  obtain a b where ab: "u16_wire ty = [a, b]" by (simp add: u16_wire_def)
  then have "ty = u16_from_be_bytes p q \<longleftrightarrow> a = p \<and> b = q" for p q by (auto simp: u16_wire_eq [symmetric])
  with ab show ?thesis
    by (auto simp: get_u16_def get_byte_def drop_two_nth eq_commute [of "u16_from_be_bytes _ _" ty] split: if_splits)
qed

lemma field_at:
  assumes "drop i buf = u16_wire ty @ w @ rest" "i \<le> length buf" "var_wire d w"
  shows "i < length buf" "get_u16 buf i = Inr ty" "read_var_bytes buf (i + 2) = Inr (d, i + 2 + length w)"
    "i + 2 + length w \<le> length buf" "drop (i + 2 + length w) buf = rest"
proof -
  have len: "length buf - i = 2 + length w + length rest" using arg_cong [OF assms(1), of length] by simp
  then show "i < length buf" "i + 2 + length w \<le> length buf" by simp_all
  have drops: "drop (i + 2) buf = w @ rest" "drop (i + 2 + length w) buf = rest"
    using arg_cong [OF assms(1), of "drop 2"] arg_cong [OF assms(1), of "drop (2 + length w)"]
    by (simp_all add: add.commute add.left_commute)
  show "get_u16 buf i = Inr ty" using drops assms(1) len by (simp add: get_u16_iff)
  show "read_var_bytes buf (i + 2) = Inr (d, i + 2 + length w)" "drop (i + 2 + length w) buf = rest"
    using drops len assms(3) by (auto simp: read_var_bytes_iff)
qed

locale field_walk =
  fixes loop :: "bytes \<Rightarrow> usize \<Rightarrow> MlsParseError + bool"
    and judge :: "u16 \<Rightarrow> bytes \<Rightarrow> MlsParseError + bool"
  assumes loop_step: "loop buf i =
    (if i < length buf then
       case get_u16 buf i of
         Inl e \<Rightarrow> Inl e
       | Inr ty \<Rightarrow> (case read_var_bytes buf (i + 2) of
           Inl e \<Rightarrow> Inl e
         | Inr (d, next) \<Rightarrow> (case judge ty d of
             Inl e \<Rightarrow> Inl e
           | Inr hit \<Rightarrow> if hit then Inr True else loop buf next))
     else Inr False)"
begin

abbreviation verdict :: "u16 \<Rightarrow> bytes \<Rightarrow> bool \<Rightarrow> bool" where
  "verdict ty d hit \<equiv> judge ty d = Inr hit"

lemma loop_sound:
  assumes "i \<le> length buf" "loop buf i = Inr r"
  shows "entries verdict r (drop i buf)"
  using assms
proof (induction "length buf - i" arbitrary: i rule: less_induct)
  case less
  show ?case
  proof (cases "i < length buf")
    case False
    then have "loop buf i = Inr False" "drop i buf = []" by (simp_all add: loop_step [of buf i])
    with less.prems entries_none show ?thesis by simp
  next
    case True
    with less.prems(2) obtain ty d nxt hit where run: "get_u16 buf i = Inr ty" "read_var_bytes buf (i + 2) = Inr (d, nxt)"
      "judge ty d = Inr hit" "if hit then r = True else loop buf nxt = Inr r"
      by (auto simp: loop_step [of buf i] split: sum.splits prod.splits if_splits)
    from run(1) have ty: "i + 2 \<le> length buf" "drop i buf = u16_wire ty @ drop (i + 2) buf" by (auto simp: get_u16_iff)
    then obtain w where w: "var_wire d w" "nxt = i + 2 + length w" "drop (i + 2) buf = w @ drop nxt buf"
      using run(2) by (auto simp: read_var_bytes_iff)
    have shape: "drop i buf = u16_wire ty @ w @ drop nxt buf" using ty(2) w(3) by simp
    have "length (drop (i + 2) buf) \<ge> length w" using w(3) by simp
    then have ahead: "nxt \<le> length buf" "length buf - nxt < length buf - i" using w(2) ty(1) True by auto
    show ?thesis
    proof (cases hit)
      case True
      with run w(1) shape show ?thesis by (simp add: entries_hit)
    next
      case False
      with run(4) less.hyps [OF ahead(2,1)] have "entries verdict r (drop nxt buf)" by simp
      with run(3) False w(1) show ?thesis unfolding shape by (intro entries_skip) simp_all
    qed
  qed
qed

lemma loop_complete:
  assumes "entries verdict r xs" "i \<le> length buf" "drop i buf = xs"
  shows "loop buf i = Inr r"
  using assms
proof (induction arbitrary: i rule: entries.induct)
  case entries_none
  then show ?case by (simp add: loop_step [of buf i])
next
  case (entries_skip ty d w r rest)
  note at = field_at [OF entries_skip.prems(2,1) entries_skip.hyps(2)]
  with entries_skip.IH [OF at(4,5)] entries_skip.hyps(1) show ?case by (simp add: loop_step [of buf i])
next
  case (entries_hit ty d w rest)
  note at = field_at [OF entries_hit.prems(2,1) entries_hit.hyps(2)]
  with entries_hit.hyps(1) show ?case by (simp add: loop_step [of buf i])
qed

lemma loop_iff: "loop buf 0 = Inr r \<longleftrightarrow> entries verdict r buf"
  using loop_sound [of 0 buf r] loop_complete [of r buf 0 buf] by auto

end

section \<open>The last-resort marker\<close>

definition dictionary_judge :: "u16 \<Rightarrow> bytes \<Rightarrow> MlsParseError + bool" where
  "dictionary_judge component_id d = Inr (component_id = LAST_RESORT_KEY_PACKAGE_COMPONENT_ID \<and> d = [])"

definition extension_judge :: "u16 \<Rightarrow> bytes \<Rightarrow> MlsParseError + bool" where
  "extension_judge ty d =
     (if ty = APP_DATA_DICTIONARY_EXTENSION_TYPE then is_last_resort_extension d else Inr False)"

interpretation dictionary: field_walk dictionary_loop dictionary_judge
  by unfold_locales (auto simp: dictionary_loop.simps dictionary_judge_def split: sum.split)

interpretation extensions: field_walk extensions_loop extension_judge
  by unfold_locales (auto simp: extensions_loop.simps extension_judge_def split: sum.split)

text \<open>The marker in the grammar: a dictionary extension with an empty last-resort component.\<close>

definition dictionary_wire :: "bool \<Rightarrow> bytes \<Rightarrow> bool" where
  "dictionary_wire marked payload \<longleftrightarrow> (\<exists>dict. var_wire dict payload \<and>
     entries (\<lambda>component_id d hit. hit = (component_id = LAST_RESORT_KEY_PACKAGE_COMPONENT_ID \<and> d = [])) marked dict)"

definition extensions_wire :: "bool \<Rightarrow> bytes \<Rightarrow> bool" where
  "extensions_wire = entries (\<lambda>ty d hit.
     if ty = APP_DATA_DICTIONARY_EXTENSION_TYPE then dictionary_wire hit d else \<not> hit)"

lemma is_last_resort_extension_iff: "is_last_resort_extension d = Inr marked \<longleftrightarrow> dictionary_wire marked d"
proof -
  have "is_last_resort_extension d = Inr marked \<longleftrightarrow>
      (\<exists>dict. read_var_bytes d 0 = Inr (dict, length d) \<and> dictionary_loop dict 0 = Inr marked)"
    by (auto simp: is_last_resort_extension_def split: sum.splits)
  also have "\<dots> \<longleftrightarrow> dictionary_wire marked d"
    unfolding dictionary.loop_iff dictionary_wire_def dictionary_judge_def
    by (auto simp: read_var_bytes_iff eq_commute)
  finally show ?thesis .
qed

lemma detect_last_resort_iff: "detect_last_resort xs = Inr marked \<longleftrightarrow> extensions_wire marked xs"
  unfolding detect_last_resort_def extensions.loop_iff extensions_wire_def extension_judge_def
  by (simp add: is_last_resort_extension_iff if_distrib [of "\<lambda>x. x = _"] cong: if_cong)

section \<open>Key packages\<close>

text \<open>The layout in the comment of the source, rule by rule.\<close>

fun fields_wire :: "nat \<Rightarrow> bytes \<Rightarrow> bool" where
  "fields_wire 0 w = (w = [])"
| "fields_wire (Suc n) w = (\<exists>d u v. var_wire d u \<and> fields_wire n v \<and> w = u @ v)"

inductive leaf_node_wire :: "string \<Rightarrow> bytes \<Rightarrow> bool" where
  leaf_node_wireI: "var_wire hpke_pub w1 \<Longrightarrow> var_wire sig_pub w2 \<Longrightarrow> is_utf8 identity \<Longrightarrow> var_wire identity w3 \<Longrightarrow>
     fields_wire 5 capabilities \<Longrightarrow> length lifetime = 16 \<Longrightarrow>
     var_wire ln_extensions w4 \<Longrightarrow> var_wire ln_signature w5 \<Longrightarrow>
     leaf_node_wire (string_of_bytes identity)
       (w1 @ w2 @ u16_wire 1 @ w3 @ capabilities @ [1] @ lifetime @ w4 @ w5)"

inductive key_package_wire :: "ParsedKeyPackage \<Rightarrow> bytes \<Rightarrow> bool" where
  key_package_wireI: "var_wire init_key w1 \<Longrightarrow> leaf_node_wire identity leaf \<Longrightarrow>
     var_wire kp_extensions w2 \<Longrightarrow> extensions_wire last_resort kp_extensions \<Longrightarrow> var_wire signature w3 \<Longrightarrow>
     key_package_wire \<lparr>credential_identity = identity, cipher_suite = suite, parsed_last_resort = last_resort\<rparr>
       (u16_wire 1 @ u16_wire suite @ w1 @ leaf @ w2 @ w3)"

lemma parses_eq: "parses p R \<Longrightarrow> (\<And>x w. R x w \<longleftrightarrow> S x w) \<Longrightarrow> parses p S"
  unfolding parses_def by simp

lemma require_parser: "parses (require ok e) (\<lambda>_ w. ok \<and> w = [])" "eof_safe (require ok e)"
  unfolding require_def
  by (rule parses_eq [OF parse_result_parser(1)], simp) (rule parse_result_parser(2))

lemma skip_lists_parser: "parses (skip_lists n) (\<lambda>_. fields_wire n)" "eof_safe (skip_lists n)"
proof (induction n)
  case 0
  { case 1 show ?case unfolding skip_lists.simps by (rule parses_eq [OF parse_ok_parser(1)]) simp }
  { case 2 show ?case by (simp add: parse_ok_parser) }
next
  case (Suc n)
  { case 1
    show ?case
      unfolding skip_lists.simps
      by (rule parses_eq [OF parses_and_then [OF Cursor_var_bytes_parser(1) Suc(1)]]) (auto simp: seq_wire_def) }
  { case 2 show ?case
      unfolding skip_lists.simps by (rule eof_safe_and_then [OF Cursor_var_bytes_parser Suc]) }
qed

lemmas primitive_parses = parse_ok_parser(1) parse_result_parser(1) require_parser(1) Cursor_u8_parser(1)
  Cursor_u16_parser(1) Cursor_var_bytes_parser(1) Cursor_skip_parser(1) skip_lists_parser(1)

lemmas primitive_eof = parse_ok_parser(2) parse_result_parser(2) require_parser(2) Cursor_u8_parser(2)
  Cursor_u16_parser(2) Cursor_var_bytes_parser(2) Cursor_skip_parser(2) skip_lists_parser(2)

lemma from_utf8_iff: "from_utf8 xs = Inr s \<longleftrightarrow> is_utf8 xs \<and> s = string_of_bytes xs"
  by (auto simp: from_utf8_def)

lemma seq_wireI: "R x u \<Longrightarrow> S x y v \<Longrightarrow> seq_wire R S y (u @ v)"
  by (auto simp: seq_wire_def)

lemma seq_guard: "seq_wire (\<lambda>(_ :: unit) w. ok \<and> w = []) S y v \<longleftrightarrow> ok \<and> S () y v"
  by (auto simp: seq_wire_def)

lemma seq_result: "seq_wire (\<lambda>x w. r = Inr x \<and> w = []) S y v \<longleftrightarrow> (\<exists>x. r = Inr x \<and> S x y v)"
  by (auto simp: seq_wire_def)

lemma seq_ok: "seq_wire R (\<lambda>_ y w. y = z \<and> w = []) y v \<longleftrightarrow> y = z \<and> (\<exists>x. R x v)"
  by (auto simp: seq_wire_def)

text \<open>The parsers' own shape of the grammar.\<close>

abbreviation leaf_node_seq :: "string \<Rightarrow> bytes \<Rightarrow> bool" where
  "leaf_node_seq \<equiv>
     seq_wire var_wire (\<lambda>hpke_pub. seq_wire var_wire (\<lambda>sig_pub.
     seq_wire (\<lambda>x w. w = u16_wire x) (\<lambda>cred_type. seq_wire (\<lambda>(_ :: unit) w. cred_type = 1 \<and> w = []) (\<lambda>_.
     seq_wire var_wire (\<lambda>identity. seq_wire (\<lambda>y w. from_utf8 identity = Inr y \<and> w = []) (\<lambda>credential.
     seq_wire (\<lambda>(_ :: unit). fields_wire 5) (\<lambda>_.
     seq_wire (\<lambda>x w. w = [x]) (\<lambda>source. seq_wire (\<lambda>(_ :: unit) w. source = 1 \<and> w = []) (\<lambda>_.
     seq_wire (\<lambda>(_ :: unit) w. length w = 16) (\<lambda>_. seq_wire var_wire (\<lambda>_. seq_wire var_wire (\<lambda>_.
     \<lambda>y w. y = credential \<and> w = []))))))))))))"

lemma leaf_node_seq_wire: "leaf_node_seq s w \<longleftrightarrow> leaf_node_wire s w"
proof
  assume "leaf_node_seq s w"
  then show "leaf_node_wire s w"
    unfolding seq_guard seq_result seq_ok
    unfolding from_utf8_iff seq_wire_def
    by (elim exE conjE, hypsubst) (rule leaf_node_wireI; assumption)
next
  assume "leaf_node_wire s w"
  then show "leaf_node_seq s w"
    unfolding seq_guard seq_result seq_ok
    unfolding from_utf8_iff
    by (elim leaf_node_wire.cases, hypsubst) ((intro seq_wireI conjI exI; assumption?)+, (rule refl | simp)+)
qed

lemma leaf_node_parses: "parses leaf_node leaf_node_wire"
proof (rule parses_eq)
  show "parses leaf_node leaf_node_seq"
    unfolding leaf_node_def by (intro parses_and_then primitive_parses)
qed (rule leaf_node_seq_wire)

abbreviation key_package_seq :: "ParsedKeyPackage \<Rightarrow> bytes \<Rightarrow> bool" where
  "key_package_seq \<equiv>
     seq_wire (\<lambda>x w. w = u16_wire x) (\<lambda>version. seq_wire (\<lambda>(_ :: unit) w. version = 1 \<and> w = []) (\<lambda>_.
     seq_wire (\<lambda>x w. w = u16_wire x) (\<lambda>suite. seq_wire var_wire (\<lambda>init_key.
     seq_wire leaf_node_wire (\<lambda>identity. seq_wire var_wire (\<lambda>kp_extensions.
     seq_wire (\<lambda>y w. detect_last_resort kp_extensions = Inr y \<and> w = []) (\<lambda>last_resort.
     seq_wire var_wire (\<lambda>signature. \<lambda>y w.
       y = \<lparr>credential_identity = identity, cipher_suite = suite, parsed_last_resort = last_resort\<rparr> \<and> w = []))))))))"

lemma key_package_seq_wire: "key_package_seq p w \<longleftrightarrow> key_package_wire p w"
proof
  assume "key_package_seq p w"
  then show "key_package_wire p w"
    unfolding seq_guard seq_result seq_ok
    unfolding detect_last_resort_iff seq_wire_def
    by (elim exE conjE, hypsubst) (rule key_package_wireI; assumption)
next
  assume "key_package_wire p w"
  then show "key_package_seq p w"
    unfolding seq_guard seq_result seq_ok
    unfolding detect_last_resort_iff
    by (elim key_package_wire.cases, hypsubst) ((intro seq_wireI conjI exI; assumption?)+, (rule refl | simp)+)
qed

lemma key_package_fields_parses: "parses key_package_fields key_package_wire"
proof (rule parses_eq)
  show "parses key_package_fields key_package_seq"
    unfolding key_package_fields_def by (intro parses_and_then primitive_parses leaf_node_parses)
qed (rule key_package_seq_wire)

text \<open>A parser for some grammar that reports truncation as an unexpected end.\<close>

definition well_behaved :: "'a parser \<Rightarrow> bool" where
  "well_behaved p \<longleftrightarrow> (\<exists>R. parses p R) \<and> eof_safe p"

lemma well_behaved_and_then:
  assumes "well_behaved p" "\<And>x. well_behaved (q x)"
  shows "well_behaved (and_then p q)"
proof -
  obtain R where R: "parses p R" using assms(1) by (auto simp: well_behaved_def)
  obtain S where S: "\<And>x. parses (q x) (S x)" using assms(2) unfolding well_behaved_def by metis
  have e: "eof_safe p" "\<And>x. eof_safe (q x)" using assms by (simp_all add: well_behaved_def)
  show ?thesis
    unfolding well_behaved_def using parses_and_then [of p R q S, OF R S] eof_safe_and_then [of p R q S, OF R e(1) S e(2)]
    by blast
qed

lemma well_behaved_primitive:
  "well_behaved (parse_ok x)" "well_behaved (parse_result r)" "well_behaved (require ok e)"
  "well_behaved Cursor_u8" "well_behaved Cursor_u16" "well_behaved Cursor_var_bytes"
  "well_behaved (Cursor_skip n)" "well_behaved (skip_lists n)"
  unfolding well_behaved_def by (intro conjI primitive_eof exI, rule primitive_parses)+

lemma key_package_fields_well_behaved: "well_behaved key_package_fields"
  unfolding key_package_fields_def leaf_node_def by (intro well_behaved_and_then well_behaved_primitive)

lemma parse_key_package_run:
  "parse_key_package xs = Inr p \<longleftrightarrow>
     (\<exists>c. key_package_fields (Cursor_new xs) = Inr (p, c) \<and> Cursor_remaining c = [])"
  by (auto simp: parse_key_package_def split: sum.splits)

lemma in_bounds_new: "in_bounds (Cursor_new xs)"
  by (simp add: in_bounds_def Cursor_new_def)

lemma key_package_fields_at_start:
  "key_package_fields (Cursor_new xs) = Inr (p, c) \<longleftrightarrow>
     (\<exists>w rest. key_package_wire p w \<and> xs = w @ rest \<and> c = \<lparr>cur_b = xs, cur_i = length w\<rparr>)"
  unfolding parses_iff [OF key_package_fields_parses in_bounds_new]
  by (auto simp: Cursor_new_def Cursor_remaining_def)

lemma parse_iff: "parse_key_package xs = Inr p \<longleftrightarrow> key_package_wire p xs"
proof
  assume "key_package_wire p xs"
  then have "key_package_fields (Cursor_new xs) = Inr (p, \<lparr>cur_b = xs, cur_i = length xs\<rparr>)"
    by (auto simp: key_package_fields_at_start intro: exI [of _ xs])
  then show "parse_key_package xs = Inr p" by (simp add: parse_key_package_run Cursor_remaining_def)
qed (auto simp: parse_key_package_run key_package_fields_at_start Cursor_remaining_def)

text \<open>
  C13. The parser accepts exactly the words of the wire format, and reports the identity, the cipher
  suite and the last-resort flag the format gives them.
\<close>

theorem parse_key_package_exact: "parse_key_package xs = Inr p \<longleftrightarrow> key_package_wire p xs"
  by (rule parse_iff)

text \<open>
  C37. Key packages are self-delimiting: of an accepted one, every proper prefix is rejected as an
  unexpected end of the input, and every proper extension as trailing data.
\<close>

theorem key_package_self_delimiting:
  assumes "parse_key_package xs = Inr p"
  shows "(n < length xs \<longrightarrow> parse_key_package (take n xs) = Inl UnexpectedEof) \<and>
    (zs \<noteq> [] \<longrightarrow> parse_key_package (xs @ zs) = Inl TrailingData)"
proof (intro conjI impI)
  have w: "key_package_wire p xs" using assms by (simp add: parse_iff)
  show "parse_key_package (take n xs) = Inl UnexpectedEof" if "n < length xs"
  proof -
    have run: "key_package_fields (Cursor_new xs) = Inr (p, \<lparr>cur_b = xs, cur_i = length xs\<rparr>)"
      using w by (auto simp: key_package_fields_at_start intro: exI [of _ xs])
    have "eof_safe key_package_fields" using key_package_fields_well_behaved by (simp add: well_behaved_def)
    then have "key_package_fields ((Cursor_new xs)\<lparr>cur_b := take n (cur_b (Cursor_new xs))\<rparr>) = Inl UnexpectedEof"
      using run that in_bounds_new [of xs] unfolding eof_safe_def by (fastforce simp: Cursor_new_def)
    then show ?thesis by (simp add: parse_key_package_def Cursor_new_def)
  qed
  show "parse_key_package (xs @ zs) = Inl TrailingData" if "zs \<noteq> []"
  proof -
    have "key_package_fields (Cursor_new (xs @ zs)) = Inr (p, \<lparr>cur_b = xs @ zs, cur_i = length xs\<rparr>)"
      using w by (auto simp: key_package_fields_at_start)
    with that show ?thesis by (simp add: parse_key_package_def Cursor_remaining_def)
  qed
qed

section \<open>An encoder\<close>

text \<open>Key packages as structured data, and their encoding with the shortest length prefixes.\<close>

definition encode_var :: "bytes \<Rightarrow> bytes" where
  "encode_var d = var_prefix (if length d < 64 then 0 else if length d < 16384 then 1 else 2) (length d) @ d"

definition fits :: "bytes \<Rightarrow> bool" where
  "fits d \<longleftrightarrow> length d < 2 ^ 30"

datatype extension = AppData "(u16 \<times> bytes) list" | OtherExtension u16 bytes

fun encode_entry :: "u16 \<times> bytes \<Rightarrow> bytes" where
  "encode_entry (ty, d) = u16_wire ty @ encode_var d"

fun extension_entry :: "extension \<Rightarrow> u16 \<times> bytes" where
  "extension_entry (AppData cs) = (APP_DATA_DICTIONARY_EXTENSION_TYPE, encode_var (concat (map encode_entry cs)))"
| "extension_entry (OtherExtension ty d) = (ty, d)"

fun extension_fits :: "extension \<Rightarrow> bool" where
  "extension_fits (AppData cs) \<longleftrightarrow> list_all (fits \<circ> snd) cs \<and> fits (concat (map encode_entry cs)) \<and>
     fits (encode_var (concat (map encode_entry cs)))"
| "extension_fits (OtherExtension ty d) \<longleftrightarrow> ty \<noteq> APP_DATA_DICTIONARY_EXTENSION_TYPE \<and> fits d"

fun has_marker :: "extension \<Rightarrow> bool" where
  "has_marker (AppData cs) \<longleftrightarrow> (LAST_RESORT_KEY_PACKAGE_COMPONENT_ID, []) \<in> set cs"
| "has_marker (OtherExtension ty d) \<longleftrightarrow> False"

record KeyPackage =
  kp_suite :: u16
  kp_init_key :: bytes
  kp_hpke_pub :: bytes
  kp_sig_pub :: bytes
  kp_identity :: bytes
  kp_capabilities :: "bytes \<times> bytes \<times> bytes \<times> bytes \<times> bytes"
  kp_lifetime :: bytes
  kp_ln_extensions :: bytes
  kp_ln_signature :: bytes
  kp_extensions :: "extension list"
  kp_signature :: bytes

definition encode_extensions :: "extension list \<Rightarrow> bytes" where
  "encode_extensions es = concat (map (encode_entry \<circ> extension_entry) es)"

definition encode_key_package :: "KeyPackage \<Rightarrow> bytes" where
  "encode_key_package k =
     (let (c1, c2, c3, c4, c5) = kp_capabilities k in
      u16_wire 1 @ u16_wire (kp_suite k) @ encode_var (kp_init_key k) @
      encode_var (kp_hpke_pub k) @ encode_var (kp_sig_pub k) @ u16_wire 1 @ encode_var (kp_identity k) @
      encode_var c1 @ encode_var c2 @ encode_var c3 @ encode_var c4 @ encode_var c5 @ [1] @ kp_lifetime k @
      encode_var (kp_ln_extensions k) @ encode_var (kp_ln_signature k) @
      encode_var (encode_extensions (kp_extensions k)) @ encode_var (kp_signature k))"

definition well_formed :: "KeyPackage \<Rightarrow> bool" where
  "well_formed k \<longleftrightarrow>
     (let (c1, c2, c3, c4, c5) = kp_capabilities k in list_all fits [c1, c2, c3, c4, c5]) \<and>
     list_all fits [kp_init_key k, kp_hpke_pub k, kp_sig_pub k, kp_identity k, kp_ln_extensions k, kp_ln_signature k,
       encode_extensions (kp_extensions k), kp_signature k] \<and>
     is_utf8 (kp_identity k) \<and> length (kp_lifetime k) = 16 \<and> list_all extension_fits (kp_extensions k)"

lemma encode_var_wire:
  assumes "fits d"
  shows "var_wire d (encode_var d)"
proof -
  have c: "var_capacity 0 = 64" "var_capacity 1 = 16384" "var_capacity 2 = 1073741824"
    by (simp_all add: numeral_2_eq_2)
  have "length d < 1073741824" using assms by (simp add: fits_def)
  then show ?thesis
    unfolding var_wire_def encode_var_def
    by (intro bexI [of _ "if length d < 64 then 0 else if length d < 16384 then 1 else 2"]) (simp_all add: c)
qed

lemma entries_encode:
  assumes "list_all (fits \<circ> snd) es" "\<And>ty d. (ty, d) \<in> set es \<Longrightarrow> J ty d (hit ty d)"
  shows "entries J (\<exists>(ty, d) \<in> set es. hit ty d) (concat (map encode_entry es))"
  using assms
proof (induction es)
  case Nil
  show ?case by (simp add: entries_none)
next
  case (Cons e es)
  obtain ty d where e: "e = (ty, d)" by force
  with Cons have w: "var_wire d (encode_var d)" "J ty d (hit ty d)" by (simp_all add: encode_var_wire)
  have shape: "concat (map encode_entry (e # es)) = u16_wire ty @ encode_var d @ concat (map encode_entry es)"
    by (simp add: e)
  show ?case
  proof (cases "hit ty d")
    case True
    with w have "J ty d True" by simp
    from entries_hit [of J, OF this w(1)] True show ?thesis by (simp add: e)
  next
    case False
    with w have "J ty d False" by simp
    from entries_skip [of J, OF this w(1)] Cons False show ?thesis by (simp add: e)
  qed
qed

lemma extensions_encode:
  assumes "list_all extension_fits es"
  shows "extensions_wire (list_ex has_marker es) (encode_extensions es)"
proof -
  define hit where "hit ty d \<longleftrightarrow> ty = APP_DATA_DICTIONARY_EXTENSION_TYPE \<and> dictionary_wire True d" for ty :: u16 and d
  have marked: "dictionary_wire (has_marker (AppData cs)) (encode_var (concat (map encode_entry cs)))"
    if "extension_fits (AppData cs)" for cs
  proof -
    have "entries (\<lambda>component_id d hit. hit = (component_id = LAST_RESORT_KEY_PACKAGE_COMPONENT_ID \<and> d = []))
        (\<exists>(ty, d) \<in> set cs. ty = LAST_RESORT_KEY_PACKAGE_COMPONENT_ID \<and> d = []) (concat (map encode_entry cs))"
      using that by (intro entries_encode) simp_all
    moreover have "(\<exists>(ty, d) \<in> set cs. ty = LAST_RESORT_KEY_PACKAGE_COMPONENT_ID \<and> d = []) = has_marker (AppData cs)"
      by auto
    ultimately show ?thesis
      using that encode_var_wire [of "concat (map encode_entry cs)"] by (auto simp: dictionary_wire_def)
  qed
  have unique: "dictionary_wire True d = b" if "dictionary_wire b d" for b d
    using that by (auto simp: is_last_resort_extension_iff [symmetric])
  have entry: "hit (fst (extension_entry e)) (snd (extension_entry e)) = has_marker e"
    if "extension_fits e" for e
    using that unique [OF marked] by (cases e) (simp_all add: hit_def)
  have fits_entry: "fits (snd (extension_entry e))" if "extension_fits e" for e
    using that by (cases e) simp_all
  let ?J = "\<lambda>ty d hit. if ty = APP_DATA_DICTIONARY_EXTENSION_TYPE then dictionary_wire hit d else \<not> hit"
  have J: "?J (fst (extension_entry e)) (snd (extension_entry e)) (has_marker e)" if "extension_fits e" for e
    using that marked by (cases e) simp_all
  have "entries ?J (\<exists>(ty, d) \<in> set (map extension_entry es). hit ty d) (concat (map encode_entry (map extension_entry es)))"
  proof (rule entries_encode)
    show "list_all (fits \<circ> snd) (map extension_entry es)"
      using assms fits_entry by (auto simp: list_all_iff)
    show "?J ty d (hit ty d)" if "(ty, d) \<in> set (map extension_entry es)" for ty d
    proof -
      from that obtain e where "e \<in> set es" "extension_entry e = (ty, d)" by force
      with J [of e] entry [of e] assms show ?thesis by (auto simp: list_all_iff)
    qed
  qed
  moreover have "(\<exists>(ty, d) \<in> set (map extension_entry es). hit ty d) = list_ex has_marker es"
    using entry assms by (force simp: list_all_iff list_ex_iff split_beta)
  ultimately show ?thesis by (simp add: extensions_wire_def encode_extensions_def)
qed

text \<open>
  C25. Round trip: parsing the encoding of a well-formed key package gives its identity, its cipher
  suite, and whether one of its extensions carries the last-resort marker.
\<close>

theorem key_package_round_trip:
  assumes "well_formed k"
  shows "parse_key_package (encode_key_package k) = Inr
    \<lparr>credential_identity = string_of_bytes (kp_identity k), cipher_suite = kp_suite k,
     parsed_last_resort = list_ex has_marker (kp_extensions k)\<rparr>"
proof -
  obtain c1 c2 c3 c4 c5 where c: "kp_capabilities k = (c1, c2, c3, c4, c5)" by (metis prod_cases5)
  note wf = assms [unfolded well_formed_def c, simplified]
  have caps: "fields_wire 5 (encode_var c1 @ encode_var c2 @ encode_var c3 @ encode_var c4 @ encode_var c5)"
  proof -
    have step: "fields_wire (Suc n) (encode_var c @ w)" if "fits c" "fields_wire n w" for n c w
      using that encode_var_wire by auto
    have one: "fields_wire (Suc 0) (encode_var c5)" using wf step [of c5 0 "[]"] by simp
    have five: "(5 :: nat) = Suc (Suc (Suc (Suc (Suc 0))))" by simp
    show ?thesis unfolding five by (intro step one) (use wf in simp_all)
  qed
  have leaf: "leaf_node_wire (string_of_bytes (kp_identity k))
     (encode_var (kp_hpke_pub k) @ encode_var (kp_sig_pub k) @ u16_wire 1 @ encode_var (kp_identity k) @
      (encode_var c1 @ encode_var c2 @ encode_var c3 @ encode_var c4 @ encode_var c5) @ [1] @ kp_lifetime k @
      encode_var (kp_ln_extensions k) @ encode_var (kp_ln_signature k))"
    using wf caps by (intro leaf_node_wireI [OF encode_var_wire encode_var_wire _ encode_var_wire caps _ encode_var_wire encode_var_wire]) simp_all
  show ?thesis
    unfolding parse_iff encode_key_package_def c
    using key_package_wireI [OF encode_var_wire leaf encode_var_wire extensions_encode encode_var_wire,
        of "kp_init_key k" "kp_extensions k" "kp_signature k" "kp_suite k"] wf
    by simp
qed

text \<open>A small last-resort key package of the user \<open>ab\<close>.\<close>

definition example_key_package :: KeyPackage where
  "example_key_package = \<lparr>kp_suite = 1, kp_init_key = [7], kp_hpke_pub = [8, 9], kp_sig_pub = [], kp_identity = [97, 98],
     kp_capabilities = ([], [], [], [], []), kp_lifetime = replicate 16 0, kp_ln_extensions = [], kp_ln_signature = [3],
     kp_extensions = [OtherExtension 5 [1, 2], AppData [(1, [4]), (4, [])]], kp_signature = [255]\<rparr>"

lemma example_well_formed: "well_formed example_key_package"
  by (simp add: well_formed_def example_key_package_def encode_extensions_def fits_def encode_var_def u16_wire_def
      APP_DATA_DICTIONARY_EXTENSION_TYPE_def)

theorem key_package_round_trip_witness:
  "parse_key_package (encode_key_package example_key_package) =
     Inr \<lparr>credential_identity = ''ab'', cipher_suite = 1, parsed_last_resort = True\<rparr>"
proof -
  have "string_of_bytes (kp_identity example_key_package) = ''ab''" "kp_suite example_key_package = 1"
    "list_ex has_marker (kp_extensions example_key_package)"
    by code_simp+
  then show ?thesis using key_package_round_trip [OF example_well_formed] by simp
qed

lemma example_parses:
  "parse_key_package (encode_key_package example_key_package) =
     Inr \<lparr>credential_identity = ''ab'', cipher_suite = 1, parsed_last_resort = True\<rparr>"
  by code_simp

theorem key_package_self_delimiting_witness:
  "parse_key_package (take 20 (encode_key_package example_key_package)) = Inl UnexpectedEof \<and>
   parse_key_package (encode_key_package example_key_package @ [0]) = Inl TrailingData"
proof -
  have "20 < length (encode_key_package example_key_package)" by code_simp
  with key_package_self_delimiting [OF example_parses, of 20 "[0]"] show ?thesis by simp
qed

section \<open>Rejected key packages\<close>

text \<open>A cursor between what is read and what is left.\<close>

definition cursor_at :: "bytes \<Rightarrow> bytes \<Rightarrow> Cursor" where
  "cursor_at pre rest = \<lparr>cur_b = pre @ rest, cur_i = length pre\<rparr>"

lemma run_word: "parses p R \<Longrightarrow> R x w \<Longrightarrow> p (cursor_at pre (w @ rest)) = Inr (x, cursor_at (pre @ w) rest)"
  by (subst parses_iff [where R = R], assumption) (auto simp: cursor_at_def in_bounds_def Cursor_remaining_def)

lemma then_word:
  "parses p R \<Longrightarrow> R x w \<Longrightarrow> and_then p q (cursor_at pre (w @ rest)) = q x (cursor_at (pre @ w) rest)"
  by (simp add: and_then_def run_word)

lemma then_require:
  "and_then (require ok e) q c = (if ok then q () c else Inl e)"
  by (simp add: and_then_def require_def parse_result_def)

lemma then_result:
  "and_then (parse_result r) q c = (case r of Inl e \<Rightarrow> Inl e | Inr x \<Rightarrow> q x c)"
  by (simp add: and_then_def parse_result_def split: sum.split)

lemmas then_u16 = then_word [OF Cursor_u16_parser(1) refl]
lemmas then_var = then_word [OF Cursor_var_bytes_parser(1)]

lemma then_u8: "and_then Cursor_u8 q (cursor_at pre (x # rest)) = q x (cursor_at (pre @ [x]) rest)"
  using then_word [OF Cursor_u8_parser(1) refl, of q pre x rest] by simp

lemma then_lists:
  "fields_wire n w \<Longrightarrow> and_then (skip_lists n) q (cursor_at pre (w @ rest)) = q () (cursor_at (pre @ w) rest)"
  by (rule then_word [OF skip_lists_parser(1)])

lemma Cursor_new_at: "Cursor_new xs = cursor_at [] xs"
  by (simp add: Cursor_new_def cursor_at_def)

lemma leaf_node_credential:
  assumes "var_wire hpke w1" "var_wire sig w2" "ty \<noteq> 1"
  shows "leaf_node (cursor_at pre (w1 @ w2 @ u16_wire ty @ rest)) = Inl (UnsupportedCredential ty)"
  using assms by (simp add: leaf_node_def then_var then_u16 then_require)

lemma leaf_node_identity:
  assumes "var_wire hpke w1" "var_wire sig w2" "var_wire identity w3" "\<not> is_utf8 identity"
  shows "leaf_node (cursor_at pre (w1 @ w2 @ u16_wire 1 @ w3 @ rest)) = Inl InvalidIdentity"
  using assms by (simp add: leaf_node_def then_var then_u16 then_require then_result from_utf8_def)

lemma leaf_node_source:
  assumes "var_wire hpke w1" "var_wire sig w2" "var_wire identity w3" "is_utf8 identity" "fields_wire 5 caps" "src \<noteq> 1"
  shows "leaf_node (cursor_at pre (w1 @ w2 @ u16_wire 1 @ w3 @ caps @ [src] @ rest)) = Inl (UnexpectedLeafNodeSource src)"
  using assms
  by (simp add: leaf_node_def then_var then_u16 then_u8 then_require then_result from_utf8_def then_lists)

text \<open>
  What the parser refuses, and how: another protocol version, another credential type, an identity
  that is not UTF-8, and a leaf node of another source, each behind fields that are fine.
\<close>

theorem key_package_rejections:
  assumes "var_wire init_key w1" "var_wire hpke w2" "var_wire sig w3" "var_wire identity w4" "fields_wire 5 caps"
  shows "(version \<noteq> 1 \<longrightarrow> parse_key_package (u16_wire version @ rest) = Inl (UnsupportedVersion version)) \<and>
    (ty \<noteq> 1 \<longrightarrow> parse_key_package (u16_wire 1 @ u16_wire suite @ w1 @ w2 @ w3 @ u16_wire ty @ rest) =
       Inl (UnsupportedCredential ty)) \<and>
    (\<not> is_utf8 identity \<longrightarrow>
       parse_key_package (u16_wire 1 @ u16_wire suite @ w1 @ w2 @ w3 @ u16_wire 1 @ w4 @ rest) = Inl InvalidIdentity) \<and>
    (is_utf8 identity \<and> src \<noteq> 1 \<longrightarrow>
       parse_key_package (u16_wire 1 @ u16_wire suite @ w1 @ w2 @ w3 @ u16_wire 1 @ w4 @ caps @ [src] @ rest) =
       Inl (UnexpectedLeafNodeSource src))"
proof -
  have leaf: "parse_key_package (u16_wire 1 @ u16_wire suite @ w1 @ tail) = Inl e"
    if "\<And>pre. leaf_node (cursor_at pre tail) = Inl e" for tail e
    using that by (simp add: parse_key_package_def key_package_fields_def Cursor_new_at then_u16 then_require
        then_var [OF assms(1)]) (simp add: and_then_def)
  have "version \<noteq> 1 \<Longrightarrow> parse_key_package (u16_wire version @ rest) = Inl (UnsupportedVersion version)"
    by (simp add: parse_key_package_def key_package_fields_def Cursor_new_at then_u16 then_require)
  moreover note leaf [OF leaf_node_credential [OF assms(2,3), of ty _ rest]]
    leaf [OF leaf_node_identity [OF assms(2,3,4), of _ rest]]
    leaf [OF leaf_node_source [OF assms(2,3,4) _ assms(5), of src _ rest]]
  ultimately show ?thesis by blast
qed

end
