(* ===== verification/Config.thy ===== *)
theory Config
  imports Rust_Strings
begin

text \<open>
  The configuration, \<^verbatim>\<open>crates/cordn-server/src/config.rs\<close>, with \<^verbatim>\<open>Synchronous\<close> of
  \<^verbatim>\<open>storage/sqlite.rs\<close>: reading \<^verbatim>\<open>.env\<close> files into the environment, and reading the server's
  configuration from it. The environment is a map from names to values. The contents of the two
  files are arguments (\<open>None\<close> for a file that cannot be read).
\<close>

section \<open>Synchronous\<close>

datatype Synchronous = Normal | Full

definition Synchronous_pragma :: "Synchronous \<Rightarrow> string" where
  "Synchronous_pragma s = (case s of Normal \<Rightarrow> ''NORMAL'' | Full \<Rightarrow> ''FULL'')"

definition Synchronous_from_config :: "string \<Rightarrow> Synchronous option" where
  "Synchronous_from_config s =
     (let v = to_ascii_lowercase (str_trim s) in
      if v = ''normal'' then Some Normal else if v = ''full'' then Some Full else None)"

section \<open>The configuration\<close>

datatype StorageBackend = Memory | Sqlite

record StorageConfig =
  sc_backend :: StorageBackend
  sc_sqlite_path :: "string option"
  sc_sqlite_synchronous :: Synchronous

record RateLimitConfig =
  rlc_enabled :: bool
  rlc_refill_per_minute :: i64
  rlc_burst :: i64
  rlc_idle_ttl_ms :: i64

record KeyPackageQuotaConfig =
  max_per_identity :: usize
  max_last_resort_per_identity :: usize

record AbuseProtectionConfig =
  rate_limit :: RateLimitConfig
  key_package_quota :: KeyPackageQuotaConfig
  log_rejections :: bool

record ServerConfig =
  private_key_hex :: "string option"
  relay_urls :: "string list"
  server_name :: string
  server_about :: "string option"
  server_website :: "string option"
  is_announced :: bool
  storage_config :: StorageConfig
  abuse_protection :: AbuseProtectionConfig
  max_age_ms :: i64

definition default_relay_urls :: "string list" where
  "default_relay_urls = [''wss://relay.contextvm.org'']"

definition ServerConfig_default :: ServerConfig where
  "ServerConfig_default =
     \<lparr>private_key_hex = None, relay_urls = default_relay_urls, server_name = ''cordn-server'',
      server_about = None, server_website = None, is_announced = False,
      storage_config = \<lparr>sc_backend = Memory, sc_sqlite_path = None, sc_sqlite_synchronous = Normal\<rparr>,
      abuse_protection =
        \<lparr>rate_limit = \<lparr>rlc_enabled = True, rlc_refill_per_minute = 500, rlc_burst = 160, rlc_idle_ttl_ms = 3600000\<rparr>,
         key_package_quota = \<lparr>max_per_identity = 50, max_last_resort_per_identity = 1\<rparr>,
         log_rejections = True\<rparr>,
      max_age_ms = 30 * 86400000\<rparr>"

datatype ConfigError =
    InvalidBoolean string
  | InvalidInteger string
  | InvalidStorageBackend
  | InvalidSqliteSynchronous

type_synonym environment = "string \<Rightarrow> string option"

section \<open>Environment files\<close>

definition ident_start :: "char \<Rightarrow> bool" where
  "ident_start c \<longleftrightarrow> is_ascii_alphabetic c \<or> c = CHR ''_''"

definition ident_char :: "char \<Rightarrow> bool" where
  "ident_char c \<longleftrightarrow> is_ascii_alphabetic c \<or> is_ascii_digit c \<or> c = CHR ''_''"

definition quoted_by :: "char \<Rightarrow> string \<Rightarrow> bool" where
  "quoted_by q s \<longleftrightarrow> s \<noteq> [] \<and> hd s = q \<and> last s = q \<and> 2 \<le> length s"

definition unquote :: "string \<Rightarrow> string" where
  "unquote v = (if quoted_by (CHR 0x22) v \<or> quoted_by (CHR 0x27) v then take (length v - 2) (drop 1 v) else v)"

definition parse_env_assignment :: "string \<Rightarrow> (string \<times> string) option" where
  "parse_env_assignment line =
     (let trimmed = str_trim line in
      if trimmed = [] \<or> starts_with ''#'' trimmed then None
      else
        let normalized = unwrap_or trimmed (map_option str_trim (strip_prefix ''export '' trimmed)) in
        case position (\<lambda>c. c = CHR ''='') normalized of
          None \<Rightarrow> None
        | Some sep \<Rightarrow>
            if sep = 0 then None
            else
              let key = str_trim (take sep normalized) in
              if \<not> (key \<noteq> [] \<and> ident_start (hd key)) \<or> \<not> list_all ident_char key then None
              else Some (key, unquote (str_trim (drop (sep + 1) normalized))))"

text \<open>
  Setting a variable panics (\<open>None\<close>) on a value with a NUL; a key that the parser lets through is fine.
\<close>

definition set_var :: "string \<Rightarrow> string \<Rightarrow> environment \<Rightarrow> environment option" where
  "set_var k v env = (if CHR 0x00 \<in> set v then None else Some (env(k \<mapsto> v)))"

fun load_lines :: "string list \<Rightarrow> environment \<Rightarrow> environment option" where
  "load_lines [] env = Some env"
| "load_lines (line # rest) env =
     (case parse_env_assignment line of
        None \<Rightarrow> load_lines rest env
      | Some (key, v) \<Rightarrow>
          if env key = None then Option.bind (set_var key v env) (load_lines rest) else load_lines rest env)"

definition load_env_file :: "string option \<Rightarrow> environment \<Rightarrow> environment option" where
  "load_env_file content env =
     (case content of None \<Rightarrow> Some env | Some text \<Rightarrow> load_lines (str_lines text) env)"

definition load_env_files :: "string option \<Rightarrow> string option \<Rightarrow> environment \<Rightarrow> environment option" where
  "load_env_files dot_env dot_env_local env =
     Option.bind (load_env_file dot_env env) (load_env_file dot_env_local)"

section \<open>Reading the configuration\<close>

type_synonym 'a config_result = "ConfigError + 'a"

definition config_bind :: "'a config_result \<Rightarrow> ('a \<Rightarrow> 'b config_result) \<Rightarrow> 'b config_result" where
  "config_bind r f = (case r of Inl e \<Rightarrow> Inl e | Inr x \<Rightarrow> f x)"

definition opt_string :: "environment \<Rightarrow> string \<Rightarrow> string option" where
  "opt_string env name = (case map_option str_trim (env name) of
     None \<Rightarrow> None | Some s \<Rightarrow> if s = [] then None else Some s)"

definition opt_bool :: "environment \<Rightarrow> string \<Rightarrow> bool option config_result" where
  "opt_bool env name =
     (case opt_string env name of
        None \<Rightarrow> Inr None
      | Some s \<Rightarrow>
          if s = ''true'' \<or> s = ''1'' then Inr (Some True)
          else if s = ''false'' \<or> s = ''0'' then Inr (Some False)
          else Inl (InvalidBoolean name))"

definition pos_int :: "environment \<Rightarrow> string \<Rightarrow> i64 \<Rightarrow> i64 config_result" where
  "pos_int env name dflt =
     (case opt_string env name of
        None \<Rightarrow> Inr dflt
      | Some raw \<Rightarrow>
          (case parse_i64 raw of
             None \<Rightarrow> Inl (InvalidInteger name)
           | Some v \<Rightarrow> if 0 \<le> v then Inr v else Inl (InvalidInteger name)))"

definition read_relay_urls :: "environment \<Rightarrow> string list" where
  "read_relay_urls env =
     (case opt_string env ''CORDN_RELAY_URLS'' of
        Some raw \<Rightarrow>
          (let urls = filter (\<lambda>s. s \<noteq> []) (map str_trim (split_on (CHR '','') raw))
           in if urls = [] then default_relay_urls else urls)
      | None \<Rightarrow> default_relay_urls)"

definition read_storage_config :: "environment \<Rightarrow> StorageConfig config_result" where
  "read_storage_config env =
     (let backend = unwrap_or ''memory'' (opt_string env ''CORDN_STORAGE_BACKEND'') in
      if backend = ''memory''
      then Inr \<lparr>sc_backend = Memory, sc_sqlite_path = None, sc_sqlite_synchronous = Normal\<rparr>
      else if backend = ''sqlite'' then
        config_bind
          (case opt_string env ''CORDN_SQLITE_SYNCHRONOUS'' of
             None \<Rightarrow> Inr Normal
           | Some raw \<Rightarrow> (case Synchronous_from_config raw of
               None \<Rightarrow> Inl InvalidSqliteSynchronous | Some s \<Rightarrow> Inr s))
          (\<lambda>synchronous. Inr \<lparr>sc_backend = Sqlite,
             sc_sqlite_path = Some (unwrap_or ''./cordn.sqlite'' (opt_string env ''CORDN_SQLITE_PATH'')),
             sc_sqlite_synchronous = synchronous\<rparr>)
      else Inl InvalidStorageBackend)"

definition read_rate_limit :: "environment \<Rightarrow> RateLimitConfig config_result" where
  "read_rate_limit env =
     config_bind (opt_bool env ''CORDN_RATE_LIMIT_ENABLED'') (\<lambda>enabled.
     config_bind (pos_int env ''CORDN_RATE_LIMIT_REFILL_PER_MINUTE'' 500) (\<lambda>refill.
     config_bind (pos_int env ''CORDN_RATE_LIMIT_BURST'' 160) (\<lambda>bst.
     config_bind (pos_int env ''CORDN_RATE_LIMIT_IDLE_TTL_SECONDS'' 3600) (\<lambda>ttl.
     Inr \<lparr>rlc_enabled = unwrap_or True enabled, rlc_refill_per_minute = refill, rlc_burst = bst,
          rlc_idle_ttl_ms = wrap64 (ttl * 1000)\<rparr>))))"

definition read_key_package_quota :: "environment \<Rightarrow> KeyPackageQuotaConfig config_result" where
  "read_key_package_quota env =
     config_bind (pos_int env ''CORDN_MAX_KEY_PACKAGES_PER_IDENTITY'' 50) (\<lambda>per_identity.
     config_bind (pos_int env ''CORDN_MAX_LAST_RESORT_KEY_PACKAGES_PER_IDENTITY'' 1) (\<lambda>last_resort.
     Inr \<lparr>max_per_identity = nat per_identity, max_last_resort_per_identity = nat last_resort\<rparr>))"

definition read_server_config :: "environment \<Rightarrow> ServerConfig config_result" where
  "read_server_config env =
     config_bind (opt_bool env ''CORDN_ANNOUNCED'') (\<lambda>announced.
     config_bind (read_storage_config env) (\<lambda>sc.
     config_bind (read_rate_limit env) (\<lambda>rl.
     config_bind (read_key_package_quota env) (\<lambda>quota.
     config_bind (opt_bool env ''CORDN_LOG_ABUSE_REJECTIONS'') (\<lambda>log.
     config_bind (pos_int env ''CORDN_MAX_AGE_DAYS'' 30) (\<lambda>days.
     Inr \<lparr>private_key_hex = opt_string env ''CORDN_SERVER_PRIVATE_KEY'',
          relay_urls = read_relay_urls env,
          server_name = unwrap_or ''cordn-server'' (opt_string env ''CORDN_SERVER_NAME''),
          server_about = opt_string env ''CORDN_SERVER_ABOUT'',
          server_website = opt_string env ''CORDN_SERVER_WEBSITE'',
          is_announced = unwrap_or False announced,
          storage_config = sc,
          abuse_protection = \<lparr>rate_limit = rl, key_package_quota = quota, log_rejections = unwrap_or True log\<rparr>,
          max_age_ms = wrap64 (days * 86400000)\<rparr>))))))"

text \<open>\<^verbatim>\<open>load\<close>: \<open>None\<close> is the panic of a NUL in a file.\<close>

definition load :: "string option \<Rightarrow> string option \<Rightarrow> environment \<Rightarrow> ServerConfig config_result option" where
  "load dot_env dot_env_local env = map_option read_server_config (load_env_files dot_env dot_env_local env)"

end
