(* ===== verification/Config_Properties.thy ===== *)
theory Config_Properties
  imports Config
begin

text \<open>
  What the configuration reader promises: the defaults, what an accepted configuration satisfies,
  what an error means, and that environment files never change a variable that is set already.
\<close>

section \<open>Strings that trimming leaves alone\<close>

definition printable :: "char \<Rightarrow> bool" where
  "printable c \<longleftrightarrow> (let n = (of_char c :: nat) in 33 \<le> n \<and> n < 128)"

lemma white_space_unprintable: "w \<in> set white_space \<Longrightarrow> \<exists>c \<in> set w. \<not> printable c"
  unfolding white_space_def by (auto simp: printable_def)

lemma white_space_ends: "w \<in> set white_space \<Longrightarrow> \<not> printable (hd w) \<and> \<not> printable (last w)"
  unfolding white_space_def by (auto simp: printable_def)

lemma trim_start_printable: "s = [] \<or> printable (hd s) \<Longrightarrow> trim_start s = s"
  unfolding trim_start_def
proof (rule strip_words_id)
  fix w assume s: "s = [] \<or> printable (hd s)" and w: "w \<in> set white_space" "w \<noteq> []"
  show "\<not> starts_with w s"
  proof
    assume "starts_with w s"
    then have "take (length w) s = w" by (simp add: starts_with_def)
    with w(2) have "s \<noteq> []" "hd s = hd w" by (metis take_Nil, metis hd_take length_greater_0_conv)
    with s white_space_ends [OF w(1)] show False by simp
  qed
qed

lemma trim_end_printable: "s = [] \<or> printable (last s) \<Longrightarrow> trim_end s = s"
proof -
  assume s: "s = [] \<or> printable (last s)"
  have "strip_words (map rev white_space) (rev s) = rev s"
  proof (rule strip_words_id)
    fix w assume w: "w \<in> set (map rev white_space)" "w \<noteq> []"
    then obtain v where v: "v \<in> set white_space" "w = rev v" by auto
    show "\<not> starts_with w (rev s)"
    proof
      assume "starts_with w (rev s)"
      then have "take (length w) (rev s) = w" by (simp add: starts_with_def)
      with w(2) have "s \<noteq> []" "hd (rev s) = hd w" by (metis rev.simps(1) take_Nil, metis hd_take length_greater_0_conv)
      then have "last s = last v" using v w(2) by (simp add: hd_rev)
      with s \<open>s \<noteq> []\<close> white_space_ends [OF v(1)] show False by simp
    qed
  qed
  then show ?thesis by (simp add: trim_end_def)
qed

lemma str_trim_printable:
  "s = [] \<or> printable (hd s) \<and> printable (last s) \<Longrightarrow> str_trim s = s"
  using trim_start_printable [of s] trim_end_printable [of s] by (auto simp: str_trim_def)

lemma printable_digit: "is_ascii_digit c \<Longrightarrow> printable c"
  by (auto simp: is_ascii_digit_def printable_def Let_def)

lemma decimal_digits: "list_all is_ascii_digit (decimal n)"
proof (induction n rule: decimal.induct)
  case (1 n)
  then show ?case using digit_char [of n] digit_char [of "n mod 10"] by (cases "n < 10") (auto simp: decimal.simps [of n])
qed

lemma trim_decimal: "str_trim (decimal n) = decimal n"
proof (rule str_trim_printable, rule disjI2)
  obtain c cs where "decimal n = c # cs" using decimal_first by blast
  with decimal_digits [of n] printable_digit show "printable (hd (decimal n)) \<and> printable (last (decimal n))"
    by (auto simp: list_all_iff)
qed

lemma trim_end_clean: "w \<in> set white_space \<Longrightarrow> \<not> starts_with (rev w) (rev (trim_end s))"
  using strip_words_clean [of "rev w" "map rev white_space" "rev s"] white_space_nonempty [of w]
  by (auto simp: trim_end_def)

section \<open>The defaults\<close>

text \<open>
  In an empty environment the reader succeeds, with exactly the configuration that \<open>Default\<close>
  declares.
\<close>

theorem empty_environment_gives_default: "read_server_config (\<lambda>_. None) = Inr ServerConfig_default"
proof -
  have o: "opt_string (\<lambda>_. None) n = None" for n by (simp add: opt_string_def)
  have "opt_bool (\<lambda>_. None) n = Inr None" "pos_int (\<lambda>_. None) n d = Inr d" for n d
    by (simp_all add: opt_bool_def pos_int_def o)
  then show ?thesis
    by (simp add: read_server_config_def read_storage_config_def read_rate_limit_def read_key_package_quota_def
        read_relay_urls_def config_bind_def o ServerConfig_default_def wrap64_def)
qed

section \<open>Accepted configurations\<close>

lemma config_bind_Inr: "config_bind r f = Inr y \<longleftrightarrow> (\<exists>x. r = Inr x \<and> f x = Inr y)"
  by (auto simp: config_bind_def split: sum.split)

lemma config_bind_Inl: "config_bind r f = Inl e \<longleftrightarrow> r = Inl e \<or> (\<exists>x. r = Inr x \<and> f x = Inl e)"
  by (auto simp: config_bind_def split: sum.split)

lemma opt_string_nonempty: "opt_string env n = Some s \<Longrightarrow> s \<noteq> []"
  by (auto simp: opt_string_def split: option.splits if_splits)

lemma parse_i64_range: "parse_i64 s = Some v \<Longrightarrow> is_i64 v"
  by (auto simp: parse_i64_def split_def Let_def split: option.splits if_splits)

lemma pos_int_range: "pos_int env n d = Inr v \<Longrightarrow> 0 \<le> d \<Longrightarrow> is_i64 d \<Longrightarrow> 0 \<le> v \<and> is_i64 v"
  by (auto simp: pos_int_def dest: parse_i64_range split: option.splits if_splits)

lemma read_relay_urls_ok: "read_relay_urls env \<noteq> [] \<and> (\<forall>u \<in> set (read_relay_urls env). u \<noteq> [])"
  by (auto simp: read_relay_urls_def default_relay_urls_def Let_def split: option.split)

text \<open>
  C32. An accepted configuration names at least one relay and a server, none of them empty. Its refill and its burst are
  not negative and fit an \<^verbatim>\<open>i64\<close>, and so do its quotas. It has a database path exactly for the SQLite backend. The
  retention and the idle time of the limiter are the days and seconds that were asked for, in milliseconds, as
  long as these fit an \<^verbatim>\<open>i64\<close>: up to 106751991167 days and 9223372036854775 seconds.
\<close>

theorem accepted_configuration:
  assumes "read_server_config env = Inr c"
  shows "relay_urls c \<noteq> [] \<and> (\<forall>u \<in> set (relay_urls c). u \<noteq> []) \<and> server_name c \<noteq> [] \<and>
    0 \<le> rlc_refill_per_minute (rate_limit (abuse_protection c)) \<and> is_i64 (rlc_refill_per_minute (rate_limit (abuse_protection c))) \<and>
    0 \<le> rlc_burst (rate_limit (abuse_protection c)) \<and> is_i64 (rlc_burst (rate_limit (abuse_protection c))) \<and>
    is_i64 (int (max_per_identity (key_package_quota (abuse_protection c)))) \<and>
    is_i64 (int (max_last_resort_per_identity (key_package_quota (abuse_protection c)))) \<and>
    (sc_sqlite_path (storage_config c) \<noteq> None \<longleftrightarrow> sc_backend (storage_config c) = Sqlite) \<and>
    (\<exists>days. pos_int env ''CORDN_MAX_AGE_DAYS'' 30 = Inr days \<and> 0 \<le> days \<and>
       (days \<le> 106751991167 \<longrightarrow> max_age_ms c = days * 86400000)) \<and>
    (\<exists>ttl. pos_int env ''CORDN_RATE_LIMIT_IDLE_TTL_SECONDS'' 3600 = Inr ttl \<and> 0 \<le> ttl \<and>
       (ttl \<le> 9223372036854775 \<longrightarrow> rlc_idle_ttl_ms (rate_limit (abuse_protection c)) = ttl * 1000))"
proof -
  obtain sc rl quota days where parts: "read_storage_config env = Inr sc" "read_rate_limit env = Inr rl"
    "read_key_package_quota env = Inr quota" "pos_int env ''CORDN_MAX_AGE_DAYS'' 30 = Inr days"
    "relay_urls c = read_relay_urls env" "server_name c = unwrap_or ''cordn-server'' (opt_string env ''CORDN_SERVER_NAME'')"
    "storage_config c = sc" "rate_limit (abuse_protection c) = rl" "key_package_quota (abuse_protection c) = quota"
    "max_age_ms c = wrap64 (days * 86400000)"
    using assms by (auto simp: read_server_config_def config_bind_Inr)
  obtain refill bst ttl where rl: "pos_int env ''CORDN_RATE_LIMIT_REFILL_PER_MINUTE'' 500 = Inr refill"
    "pos_int env ''CORDN_RATE_LIMIT_BURST'' 160 = Inr bst" "pos_int env ''CORDN_RATE_LIMIT_IDLE_TTL_SECONDS'' 3600 = Inr ttl"
    "rlc_refill_per_minute rl = refill" "rlc_burst rl = bst" "rlc_idle_ttl_ms rl = wrap64 (ttl * 1000)"
    using parts(2) by (auto simp: read_rate_limit_def config_bind_Inr)
  obtain per lr where quota: "pos_int env ''CORDN_MAX_KEY_PACKAGES_PER_IDENTITY'' 50 = Inr per"
    "pos_int env ''CORDN_MAX_LAST_RESORT_KEY_PACKAGES_PER_IDENTITY'' 1 = Inr lr"
    "max_per_identity quota = nat per" "max_last_resort_per_identity quota = nat lr"
    using parts(3) by (auto simp: read_key_package_quota_def config_bind_Inr)
  note range = rl(1-3) [THEN pos_int_range] quota(1,2) [THEN pos_int_range] parts(4) [THEN pos_int_range]
  have "0 \<le> refill \<and> is_i64 refill" "0 \<le> bst \<and> is_i64 bst" "0 \<le> ttl \<and> is_i64 ttl" "0 \<le> per \<and> is_i64 per" "0 \<le> lr \<and> is_i64 lr"
    "0 \<le> days \<and> is_i64 days"
    by (rule range; simp add: is_i64_def)+
  moreover have "sc_sqlite_path sc \<noteq> None \<longleftrightarrow> sc_backend sc = Sqlite"
    using parts(1) by (auto simp: read_storage_config_def config_bind_Inr Let_def split: if_splits)
  moreover have "wrap64 (days * 86400000) = days * 86400000" if "0 \<le> days" "days \<le> 106751991167"
    by (rule wrap64_id) (use that in \<open>simp add: is_i64_def\<close>)
  moreover have "wrap64 (ttl * 1000) = ttl * 1000" if "0 \<le> ttl" "ttl \<le> 9223372036854775"
    by (rule wrap64_id) (use that in \<open>simp add: is_i64_def\<close>)
  moreover have "server_name c \<noteq> []"
    unfolding parts(6) by (auto simp: unwrap_or_def opt_string_nonempty split: option.split)
  ultimately show ?thesis
    unfolding parts(5,7-10) rl(3-6) quota(3,4) using read_relay_urls_ok [of env] parts(4) rl(3) by simp
qed

theorem accepted_configuration_witness:
  "\<exists>c. read_server_config [''CORDN_STORAGE_BACKEND'' \<mapsto> ''sqlite'', ''CORDN_RELAY_URLS'' \<mapsto> '' wss://a , ,''] = Inr c \<and>
     relay_urls c \<noteq> [] \<and> (\<forall>u \<in> set (relay_urls c). u \<noteq> []) \<and> sc_sqlite_path (storage_config c) \<noteq> None"
proof -
  let ?env = "[''CORDN_STORAGE_BACKEND'' \<mapsto> ''sqlite'', ''CORDN_RELAY_URLS'' \<mapsto> '' wss://a , ,'']"
  have "case read_server_config ?env of Inl _ \<Rightarrow> False | Inr c \<Rightarrow> sc_backend (storage_config c) = Sqlite" by code_simp
  then obtain c where c: "read_server_config ?env = Inr c" "sc_backend (storage_config c) = Sqlite"
    by (auto split: sum.splits)
  from accepted_configuration [OF c(1)] c show ?thesis by blast
qed

section \<open>Errors\<close>

fun error_means :: "environment \<Rightarrow> ConfigError \<Rightarrow> bool" where
  "error_means env (InvalidBoolean n) \<longleftrightarrow>
     (\<exists>raw. opt_string env n = Some raw \<and> raw \<notin> {''true'', ''1'', ''false'', ''0''})"
| "error_means env (InvalidInteger n) \<longleftrightarrow>
     (\<exists>raw. opt_string env n = Some raw \<and> (case parse_i64 raw of None \<Rightarrow> True | Some v \<Rightarrow> v < 0))"
| "error_means env InvalidStorageBackend \<longleftrightarrow>
     (\<exists>raw. opt_string env ''CORDN_STORAGE_BACKEND'' = Some raw \<and> raw \<notin> {''memory'', ''sqlite''})"
| "error_means env InvalidSqliteSynchronous \<longleftrightarrow>
     opt_string env ''CORDN_STORAGE_BACKEND'' = Some ''sqlite'' \<and>
     (\<exists>raw. opt_string env ''CORDN_SQLITE_SYNCHRONOUS'' = Some raw \<and>
        to_ascii_lowercase (str_trim raw) \<notin> {''normal'', ''full''})"

lemma opt_bool_error: "opt_bool env n = Inl e \<Longrightarrow> error_means env e"
  by (auto simp: opt_bool_def split: option.splits if_splits)

lemma pos_int_error: "pos_int env n d = Inl e \<Longrightarrow> error_means env e"
  by (auto simp: pos_int_def split: option.splits if_splits)

lemma read_storage_config_error: "read_storage_config env = Inl e \<Longrightarrow> error_means env e"
  by (auto simp: read_storage_config_def config_bind_Inl Synchronous_from_config_def Let_def unwrap_or_def
      split: option.splits if_splits)

text \<open>
  C40. An error is about the environment: it names a variable that is set to a value the variable
  cannot take.
\<close>

theorem configuration_errors_are_real:
  assumes "read_server_config env = Inl e"
  shows "error_means env e"
  using assms
  by (auto simp: read_server_config_def read_rate_limit_def read_key_package_quota_def config_bind_Inl
      dest: opt_bool_error pos_int_error read_storage_config_error)

theorem configuration_errors_are_real_witness:
  "read_server_config [''CORDN_STORAGE_BACKEND'' \<mapsto> ''redis''] = Inl InvalidStorageBackend \<and>
   error_means [''CORDN_STORAGE_BACKEND'' \<mapsto> ''redis''] InvalidStorageBackend"
proof -
  have e: "read_server_config [''CORDN_STORAGE_BACKEND'' \<mapsto> ''redis''] = Inl InvalidStorageBackend" by code_simp
  from configuration_errors_are_real [OF e] e show ?thesis by simp
qed

section \<open>Numbers\<close>

text \<open>
  A number that fits an \<^verbatim>\<open>i64\<close>, written in decimal, is read back by every integer setting.
\<close>

theorem decimal_setting_round_trip:
  assumes "int k < 2 ^ 63" "env n = Some (decimal k)"
  shows "pos_int env n d = Inr (int k)"
proof -
  have "decimal k \<noteq> []" using decimal_first [of k] by auto
  then have "opt_string env n = Some (decimal k)" using assms(2) by (simp add: opt_string_def trim_decimal)
  with parse_decimal [OF assms(1)] show ?thesis by (simp add: pos_int_def)
qed

text \<open>
  The retention in days is converted to milliseconds without an overflow check, so a large number
  of days wraps around: asking for 213503982335 days keeps welcomes and join requests for less than
  ten hours.
\<close>

theorem retention_overflows:
  "\<exists>c. read_server_config [''CORDN_MAX_AGE_DAYS'' \<mapsto> ''213503982335''] = Inr c \<and> max_age_ms c = 34448384"
proof -
  have "map_sum id max_age_ms (read_server_config [''CORDN_MAX_AGE_DAYS'' \<mapsto> ''213503982335'']) = Inr 34448384"
    by code_simp
  then show ?thesis by (cases "read_server_config [''CORDN_MAX_AGE_DAYS'' \<mapsto> ''213503982335'']") auto
qed

section \<open>Environment files\<close>

definition assignments :: "string option \<Rightarrow> (string \<times> string) list" where
  "assignments content =
     (case content of None \<Rightarrow> [] | Some text \<Rightarrow> List.map_filter parse_env_assignment (str_lines text))"

lemma load_lines_map:
  "load_lines ls env = Some env' \<Longrightarrow>
     env' k = (case env k of Some v \<Rightarrow> Some v | None \<Rightarrow> map_of (List.map_filter parse_env_assignment ls) k)"
proof (induction ls arbitrary: env)
  case (Cons l ls)
  show ?case
  proof (cases "parse_env_assignment l")
    case None
    with Cons show ?thesis by (simp split: option.split)
  next
    case (Some kv)
    obtain key v where kv: "kv = (key, v)" by force
    with Some Cons show ?thesis
      by (cases "env key") (auto simp: set_var_def split: if_splits option.splits)
  qed
qed (simp split: option.split)

lemma load_env_file_map:
  "load_env_file content env = Some env' \<Longrightarrow>
     env' k = (case env k of Some v \<Rightarrow> Some v | None \<Rightarrow> map_of (assignments content) k)"
  by (auto simp: load_env_file_def assignments_def load_lines_map split: option.splits)

text \<open>
  After both files are loaded, a variable has the value it had, else the first value
  \<^verbatim>\<open>.env\<close> assigns to it, else the first value \<^verbatim>\<open>.env.local\<close> assigns to it.
\<close>

theorem env_file_precedence:
  assumes "load_env_files dot_env dot_env_local env = Some env'"
  shows "env' k = (case env k of Some v \<Rightarrow> Some v
    | None \<Rightarrow> (case map_of (assignments dot_env) k of Some v \<Rightarrow> Some v
    | None \<Rightarrow> map_of (assignments dot_env_local) k))"
proof -
  obtain mid where mid: "load_env_file dot_env env = Some mid" "load_env_file dot_env_local mid = Some env'"
    using assms by (auto simp: load_env_files_def bind_eq_Some_conv)
  from load_env_file_map [OF mid(1), of k] load_env_file_map [OF mid(2), of k] show ?thesis
    by (auto split: option.splits)
qed

section \<open>Assignments\<close>

lemma position_append_skip: "(\<forall>x \<in> set xs. \<not> p x) \<Longrightarrow> p y \<Longrightarrow> position p (xs @ y # ys) = Some (length xs)"
  by (induction xs) auto

lemma ident_char_printable: "ident_char c \<Longrightarrow> printable c \<and> c \<noteq> CHR ''=''"
  by (auto simp: ident_char_def is_ascii_alphabetic_def is_ascii_digit_def printable_def Let_def)

definition valid_name :: "string \<Rightarrow> bool" where
  "valid_name k \<longleftrightarrow> k \<noteq> [] \<and> ident_start (hd k) \<and> list_all ident_char k"

lemma trim_name: "valid_name k \<Longrightarrow> str_trim k = k"
  by (rule str_trim_printable) (auto simp: valid_name_def list_all_iff ident_char_printable)

lemma strip_export:
  assumes "valid_name k"
  shows "strip_prefix ''export '' (k @ CHR ''='' # r) = None"
proof -
  have "take 7 (k @ CHR ''='' # r) \<noteq> ''export ''"
  proof
    assume eq: "take 7 (k @ CHR ''='' # r) = ''export ''"
    show False
    proof (cases "length k < 7")
      case True
      then have "CHR ''='' \<in> set (take 7 (k @ CHR ''='' # r))" by (simp add: take_Cons')
      then show False unfolding eq by simp
    next
      case False
      then have "set (take 7 (k @ CHR ''='' # r)) \<subseteq> set k" by (simp add: set_take_subset)
      then have "CHR '' '' \<in> set k" unfolding eq by simp
      with assms have "ident_char (CHR '' '')" by (auto simp: valid_name_def list_all_iff)
      then show False by (simp add: ident_char_def is_ascii_alphabetic_def is_ascii_digit_def)
    qed
  qed
  moreover have "length ''export '' = 7" by simp
  ultimately show ?thesis by (simp only: strip_prefix_def starts_with_def if_False)
qed

lemma split_assignment:
  assumes "valid_name k"
  shows "position (\<lambda>c. c = CHR ''='') (k @ CHR ''='' # r) = Some (length k)"
  using assms ident_char_printable by (intro position_append_skip) (auto simp: valid_name_def list_all_iff)

lemma first_char_hash: "valid_name k \<Longrightarrow> \<not> starts_with ''#'' (k @ r)"
  by (cases k) (auto simp: valid_name_def starts_with_def ident_start_def is_ascii_alphabetic_def)

lemma name_parts:
  assumes "valid_name k"
  shows "k \<noteq> []" "ident_start (hd k)" "list_all ident_char k" "printable (hd k)"
  using assms ident_char_printable by (auto simp: valid_name_def list_all_iff)

text \<open>
  C33. Round trip of a line of an environment file: a name and a value that is bare (neither blank at
  an end nor in quotes), or any value in double quotes, also behind \<^verbatim>\<open>export\<close>.
\<close>

theorem assignment_round_trip:
  assumes "valid_name k" "v = [] \<or> printable (hd v) \<and> printable (last v)"
    "\<not> quoted_by (CHR 0x22) v" "\<not> quoted_by (CHR 0x27) v"
  shows "parse_env_assignment (k @ ''='' @ v) = Some (k, v) \<and>
    parse_env_assignment (''export '' @ k @ ''='' @ [CHR 0x22] @ w @ [CHR 0x22]) = Some (k, w)"
proof
  note name = name_parts [OF assms(1)]
  have eq: "printable (CHR ''='')" "printable (CHR 0x22)" by (simp_all add: printable_def)
  have "str_trim (k @ ''='' @ v) = k @ ''='' @ v"
    using name eq assms(2) by (intro str_trim_printable) auto
  then show "parse_env_assignment (k @ ''='' @ v) = Some (k, v)"
    using name first_char_hash [OF assms(1)] strip_export [OF assms(1)] split_assignment [OF assms(1)] trim_name [OF assms(1)]
      str_trim_printable [OF assms(2)] assms(3,4)
    by (simp add: parse_env_assignment_def Let_def unquote_def)
  let ?a = "k @ ''='' @ [CHR 0x22] @ w @ [CHR 0x22]"
  have a: "str_trim ?a = ?a" using name eq by (intro str_trim_printable) auto
  have line: "str_trim (''export '' @ ?a) = ''export '' @ ?a"
    using eq by (intro str_trim_printable) (auto simp: printable_def)
  have q: "str_trim ([CHR 0x22] @ w @ [CHR 0x22]) = [CHR 0x22] @ w @ [CHR 0x22]"
    using eq by (intro str_trim_printable) auto
  have u: "unquote ([CHR 0x22] @ w @ [CHR 0x22]) = w"
    by (simp add: unquote_def quoted_by_def)
  show "parse_env_assignment (''export '' @ ?a) = Some (k, w)"
    unfolding parse_env_assignment_def line
    using name a q u split_assignment [OF assms(1)] trim_name [OF assms(1)]
    by (simp add: Let_def starts_with_def strip_prefix_def)
qed

theorem assignment_round_trip_witness:
  "parse_env_assignment ''FOO=bar'' = Some (''FOO'', ''bar'') \<and>
   parse_env_assignment (''export FOO='' @ [CHR 0x22] @ '' hi '' @ [CHR 0x22]) = Some (''FOO'', '' hi '')"
proof -
  have "valid_name ''FOO''" "printable (hd ''bar'') \<and> printable (last ''bar'')"
    "\<not> quoted_by (CHR 0x22) ''bar''" "\<not> quoted_by (CHR 0x27) ''bar''"
    by code_simp+
  from assignment_round_trip [OF this(1) disjI2 [OF this(2)] this(3,4), of "'' hi ''"] show ?thesis by simp
qed

end
