(* ===== verification/Contracts.thy ===== *)
theory Contracts
  imports Types
begin

text \<open>
  The wire contracts of the tools, \<^verbatim>\<open>crates/cordn-core/src/contracts.rs\<close>: the tool names and the
  shapes of the tools' inputs and outputs. A contract whose name an internal record has too carries
  the suffix \<open>_wire\<close>. The JSON text of a contract is \<^verbatim>\<open>serde\<close>'s and not modelled; where the code
  itself serializes, the serializer is a parameter of the model.
\<close>

section \<open>Tool names\<close>

definition PUBLISH_KEY_PACKAGE :: string where "PUBLISH_KEY_PACKAGE = ''kp_publish''"
definition LIST_AVAILABLE_KEY_PACKAGES :: string where "LIST_AVAILABLE_KEY_PACKAGES = ''kp_list''"
definition CONSUME_KEY_PACKAGE :: string where "CONSUME_KEY_PACKAGE = ''kp_take''"
definition REMOVE_KEY_PACKAGES :: string where "REMOVE_KEY_PACKAGES = ''kp_remove''"
definition FETCH_PENDING_WELCOMES :: string where "FETCH_PENDING_WELCOMES = ''welcome_take''"
definition STORE_WELCOME :: string where "STORE_WELCOME = ''welcome_store''"
definition STORE_JOIN_REQUEST :: string where "STORE_JOIN_REQUEST = ''join_request_store''"
definition FETCH_MANY_PENDING_JOIN_REQUESTS :: string where
  "FETCH_MANY_PENDING_JOIN_REQUESTS = ''join_request_take_many''"
definition POST_GROUP_MESSAGE :: string where "POST_GROUP_MESSAGE = ''msg_post''"
definition FETCH_MANY_GROUP_MESSAGES :: string where "FETCH_MANY_GROUP_MESSAGES = ''msg_fetch_many''"
definition SUBSCRIBE_MANY_GROUP_MESSAGES :: string where "SUBSCRIBE_MANY_GROUP_MESSAGES = ''msg_sub_many''"

lemmas tool_name_defs = PUBLISH_KEY_PACKAGE_def LIST_AVAILABLE_KEY_PACKAGES_def CONSUME_KEY_PACKAGE_def
  REMOVE_KEY_PACKAGES_def FETCH_PENDING_WELCOMES_def STORE_WELCOME_def STORE_JOIN_REQUEST_def
  FETCH_MANY_PENDING_JOIN_REQUESTS_def POST_GROUP_MESSAGE_def FETCH_MANY_GROUP_MESSAGES_def
  SUBSCRIBE_MANY_GROUP_MESSAGES_def

section \<open>Key packages\<close>

record NostrEvent =
  ev_id :: string
  ev_pubkey :: string
  ev_created_at :: i64
  ev_kind :: i64
  ev_tags :: "string list list"
  ev_content :: string
  ev_sig :: string

record PublishKeyPackageInput_wire =
  pki_kp_ref :: string
  pki_kp_64 :: string

record PublishKeyPackageOutput =
  pko_kp_ref :: string
  pko_last_resort :: bool
  pko_at :: i64

record ConsumeKeyPackageInput =
  cki_id :: string

record ConsumedKeyPackage =
  ckp_pk :: string
  ckp_kp_ref :: string
  ckp_last_resort :: bool
  ckp_at :: i64
  ckp_event :: NostrEvent

record ConsumeKeyPackageOutput =
  cko_key_package :: "ConsumedKeyPackage option"

record AvailableKeyPackage =
  akp_pk :: string
  akp_kp_ref :: string
  akp_last_resort :: bool
  akp_at :: i64

record ListAvailableKeyPackagesOutput =
  lko_key_packages :: "AvailableKeyPackage list"

record RemoveKeyPackagesInput =
  rki_kp_refs :: "string list"

record RemoveKeyPackagesOutput =
  rko_kp_refs :: "string list"

section \<open>Welcomes\<close>

record PendingWelcome =
  pw_kp_ref :: string
  pw_welcome_64 :: string
  pw_at :: i64
  pw_after :: "i64 option"

record ConsumedWelcomeRef_wire =
  cwr_kp_ref :: string
  cwr_at :: i64

record FetchPendingWelcomesInput =
  fwi_consumed :: "ConsumedWelcomeRef_wire list option"

record FetchPendingWelcomesOutput =
  fwo_welcomes :: "PendingWelcome list"

record StoreWelcomeInput_wire =
  swi_target_pk :: string
  swi_kp_ref :: string
  swi_welcome_64 :: string
  swi_after :: "i64 option"

record StoreWelcomeOutput =
  swo_at :: i64

section \<open>Join requests\<close>

record StoreJoinRequestInput_wire =
  sji_gid :: string
  sji_kp_ref :: string

record StoreJoinRequestOutput =
  sjo_at :: i64

text \<open>\<^verbatim>\<open>JoinRequest\<close> and \<^verbatim>\<open>ConsumedJoinRequestRef\<close> belong to the single-group tool, which has no handler.\<close>

record JoinRequest_wire =
  jrw_pk :: string
  jrw_kp_ref :: string
  jrw_at :: i64

record ConsumedJoinRequestRef_wire =
  cjr_pk :: string
  cjr_at :: i64

record FetchManyPendingJoinRequestsGroupInput =
  fji_gid :: string

record ConsumedJoinRequestWithGroupRef_wire =
  cjg_pk :: string
  cjg_at :: i64
  cjg_gid :: string

record FetchManyPendingJoinRequestsInput =
  fmj_groups :: "FetchManyPendingJoinRequestsGroupInput list"
  fmj_consumed :: "ConsumedJoinRequestWithGroupRef_wire list option"

record JoinRequestWithGroup =
  jrg_pk :: string
  jrg_kp_ref :: string
  jrg_at :: i64
  jrg_gid :: string

record FetchManyPendingJoinRequestsOutput =
  fmo_requests :: "JoinRequestWithGroup list"

section \<open>Group messages and subscriptions\<close>

record PostGroupMessageInput_wire =
  pmi_msg_64 :: string
  pmi_gid :: string

record PostGroupMessageOutput =
  pmo_cursor :: i64
  pmo_gid :: string
  pmo_at :: i64

record FetchGroupMessagesInput_wire =
  fgi_gid :: string
  fgi_after :: "i64 option"

record GroupMessage =
  gmw_cursor :: i64
  gmw_gid :: string
  gmw_msg_64 :: string
  gmw_at :: i64

record FetchGroupMessagesOutput =
  fgo_messages :: "GroupMessage list"

record FetchManyGroupMessagesInput =
  fmg_groups :: "FetchGroupMessagesInput_wire list"

record SubscribeManyGroupMessagesInput =
  smi_groups :: "FetchGroupMessagesInput_wire list"

record SubscribeManyGroupMessagesOutput =
  smo_subscribed :: bool
  smo_groups :: "string list"

end
