(* ===== verification/Adapter.thy ===== *)
theory Adapter
  imports Contracts Coordinator Rate_Limit Mls_Parse Config
begin

text \<open>
  The server's adapter, \<^verbatim>\<open>crates/cordn-server/src/adapter.rs\<close>: one handler per tool over the
  coordinator, with the checks of the boundary in the order the code makes them. A handler takes the
  clock readings it makes, the injected caller, and gives a result or a failure: an error of the tool,
  or a panic. \<open>services\<close> stands for the other packages the adapter calls: base64, and
  \<^verbatim>\<open>serde_json\<close> for events and streamed messages.
\<close>

section \<open>State and results\<close>

record 'j services =
  b64_decode :: "string \<Rightarrow> bytes option"
  b64_encode :: "bytes \<Rightarrow> string"
  event_to_value :: "NostrEvent \<Rightarrow> 'j option"
  json_null :: 'j
  event_from_value :: "'j \<Rightarrow> string + NostrEvent"
  message_to_string :: "GroupMessage \<Rightarrow> string option"

datatype AdapterError =
    RateLimitExceeded
  | QuotaExceeded
  | MissingPublicationEvent
  | SignerMismatch
  | IdentityMismatch
  | InvalidKeyPackage
  | InvalidWelcome
  | InvalidMessage
  | UnknownKeyPackageRef string
  | UnauthorizedKeyPackageRef string
  | InvalidInput string
  | Storage StorageError

datatype failure = Refused AdapterError | Panicked

record 's CoordinatorAdapter =
  coordinator :: "'s Coordinator"
  rate_limiter :: TokenBucketRateLimiter
  abuse :: AbuseProtectionConfig

type_synonym ('s, 'a) aop = "('s CoordinatorAdapter, failure, 'a) op"

definition abind :: "('s, 'a) aop \<Rightarrow> ('a \<Rightarrow> ('s, 'b) aop) \<Rightarrow> ('s, 'b) aop" where
  "abind m f ad = (case m ad of (Inl e, ad') \<Rightarrow> (Inl e, ad') | (Inr x, ad') \<Rightarrow> f x ad')"

definition areturn :: "'a \<Rightarrow> ('s, 'a) aop" where
  "areturn x ad = (Inr x, ad)"

definition afail :: "AdapterError \<Rightarrow> ('s, 'a) aop" where
  "afail e ad = (Inl (Refused e), ad)"

definition ensure :: "bool \<Rightarrow> AdapterError \<Rightarrow> ('s, unit) aop" where
  "ensure ok e = (if ok then areturn () else afail e)"

definition ok_or :: "'a option \<Rightarrow> AdapterError \<Rightarrow> ('s, 'a) aop" where
  "ok_or x e = (case x of None \<Rightarrow> afail e | Some v \<Rightarrow> areturn v)"

definition on_coordinator :: "('s, 'a) cop \<Rightarrow> ('s, 'a) aop" where
  "on_coordinator m ad =
     (case m (coordinator ad) of
        (Inl e, co) \<Rightarrow> (Inl (Refused (Storage e)), ad\<lparr>coordinator := co\<rparr>)
      | (Inr x, co) \<Rightarrow> (Inr x, ad\<lparr>coordinator := co\<rparr>))"

definition to_rate_limit_config :: "RateLimitConfig \<Rightarrow> TokenBucketRateLimitConfig" where
  "to_rate_limit_config c =
     \<lparr>rc_enabled = rlc_enabled c, rc_refill_per_minute = f64_of_int (rlc_refill_per_minute c),
      rc_burst = f64_of_int (rlc_burst c), rc_idle_ttl_ms = f64_of_int (rlc_idle_ttl_ms c)\<rparr>"

definition CoordinatorAdapter_new :: "'s Coordinator \<Rightarrow> AbuseProtectionConfig \<Rightarrow> 's CoordinatorAdapter" where
  "CoordinatorAdapter_new co ab =
     \<lparr>coordinator = co, rate_limiter = TokenBucketRateLimiter_new (to_rate_limit_config (rate_limit ab)), abuse = ab\<rparr>"

section \<open>Checks\<close>

text \<open>
  Logging a rejection slices the caller to twelve bytes, which panics inside a character. A byte that
  continues a character is of the form \<open>10xxxxxx\<close>.
\<close>

definition is_char_boundary :: "string \<Rightarrow> usize \<Rightarrow> bool" where
  "is_char_boundary s i \<longleftrightarrow> i = 0 \<or> i = length s \<or>
     (i < length s \<and> (let n = (of_char (s ! i) :: nat) in n < 128 \<or> 192 \<le> n))"

definition log_rejection :: "string \<Rightarrow> ('s, unit) aop" where
  "log_rejection client ad =
     (if \<not> log_rejections (abuse ad) then (Inr (), ad)
      else if is_char_boundary client (min (length client) 12) then (Inr (), ad)
      else (Inl Panicked, ad))"

definition assert_within_rate_limit :: "string \<Rightarrow> i64 \<Rightarrow> ('s, unit) aop" where
  "assert_within_rate_limit client now ad =
     (let (allowed, rl) = check client now (rate_limiter ad); ad = ad\<lparr>rate_limiter := rl\<rparr> in
      if allowed then (Inr (), ad)
      else abind (log_rejection client) (\<lambda>_. afail RateLimitExceeded) ad)"

definition require_non_empty :: "string \<Rightarrow> string \<Rightarrow> ('s, unit) aop" where
  "require_non_empty v field = ensure (v \<noteq> []) (InvalidInput (field @ '' must be non-empty''))"

definition require_positive_cursor :: "i64 option \<Rightarrow> string \<Rightarrow> ('s, unit) aop" where
  "require_positive_cursor after field =
     ensure (case after of None \<Rightarrow> True | Some c \<Rightarrow> 0 < c) (InvalidInput (field @ '' must be a positive integer''))"

fun require_positive_cursors :: "FetchGroupMessagesInput_wire list \<Rightarrow> ('s, unit) aop" where
  "require_positive_cursors [] = areturn ()"
| "require_positive_cursors (g # gs) =
     abind (require_positive_cursor (fgi_after g) ''after'') (\<lambda>_. require_positive_cursors gs)"

section \<open>Key packages\<close>

fun evict_loop :: "('s, 'j) CoordinatorStorage \<Rightarrow> 'j PublishedKeyPackageRecord list \<Rightarrow> ('s, unit) aop" where
  "evict_loop ops [] = areturn ()"
| "evict_loop ops (r # rs) =
     abind (on_coordinator (remove_key_package ops (key_package_ref r))) (\<lambda>_. evict_loop ops rs)"

definition reject_quota :: "string \<Rightarrow> ('s, unit) aop" where
  "reject_quota pk = abind (log_rejection pk) (\<lambda>_. afail QuotaExceeded)"

definition quota_decision :: "('s, 'j) CoordinatorStorage \<Rightarrow> KeyPackageQuotaConfig \<Rightarrow> string \<Rightarrow> bool \<Rightarrow>
    'j PublishedKeyPackageRecord list \<Rightarrow> ('s, unit) aop" where
  "quota_decision ops quota pk incoming_is_last_resort records =
     (let max_per = max_per_identity quota; max_last_resort = max_last_resort_per_identity quota in
      if incoming_is_last_resort then
        let existing_last_resort = filter is_last_resort records in
        abind
          (if 0 < max_last_resort \<and> max_last_resort \<le> length existing_last_resort
           then evict_loop ops (take (length existing_last_resort - max_last_resort + 1) existing_last_resort)
           else areturn ()) (\<lambda>_.
        let non_last_resort_count = length records - length existing_last_resort in
        if 0 < max_per \<and>
           max_per < non_last_resort_count + min (length existing_last_resort) (max_last_resort - 1) + 1
        then reject_quota pk
        else areturn ())
      else if 0 < max_per \<and> max_per \<le> length records then reject_quota pk
      else areturn ())"

definition enforce_quota :: "('s, 'j) CoordinatorStorage \<Rightarrow> KeyPackageQuotaConfig \<Rightarrow> string \<Rightarrow> bool \<Rightarrow>
    ('s, unit) aop" where
  "enforce_quota ops quota pk incoming_is_last_resort =
     abind (on_coordinator (list_key_packages_for_identity ops pk))
       (quota_decision ops quota pk incoming_is_last_resort)"

definition enforce_key_package_quota :: "('s, 'j) CoordinatorStorage \<Rightarrow> string \<Rightarrow> bool \<Rightarrow> ('s, unit) aop" where
  "enforce_key_package_quota ops pk incoming_is_last_resort ad =
     enforce_quota ops (key_package_quota (abuse ad)) pk incoming_is_last_resort ad"

definition ad_publish_key_package :: "('s, 'j) CoordinatorStorage \<Rightarrow> 'j services \<Rightarrow> i64 \<Rightarrow> i64 \<Rightarrow>
    PublishKeyPackageInput_wire \<Rightarrow> string \<Rightarrow> NostrEvent option \<Rightarrow> ('s, PublishKeyPackageOutput) aop" where
  "ad_publish_key_package ops sv now stored input client event =
     abind (assert_within_rate_limit client now) (\<lambda>_.
     abind (require_non_empty (pki_kp_ref input) ''kp_ref'') (\<lambda>_.
     abind (require_non_empty (pki_kp_64 input) ''kp_64'') (\<lambda>_.
     abind (ok_or (b64_decode sv (pki_kp_64 input)) InvalidKeyPackage) (\<lambda>kp_bytes.
     abind (case parse_key_package kp_bytes of Inl _ \<Rightarrow> afail InvalidKeyPackage | Inr p \<Rightarrow> areturn p) (\<lambda>parsed.
     abind (ok_or event MissingPublicationEvent) (\<lambda>ev.
     abind (ensure (ev_pubkey ev = client) SignerMismatch) (\<lambda>_.
     abind (ensure (credential_identity parsed = ev_pubkey ev) IdentityMismatch) (\<lambda>_.
     abind (enforce_key_package_quota ops (credential_identity parsed) (parsed_last_resort parsed)) (\<lambda>_.
     abind (on_coordinator (publish_key_package ops stored
       \<lparr>pk_stable_pubkey = credential_identity parsed, pk_key_package_bytes = kp_bytes,
        pk_key_package_ref = pki_kp_ref input, pk_is_last_resort = parsed_last_resort parsed,
        pk_publication_event = unwrap_or (json_null sv) (event_to_value sv ev)\<rparr>)) (\<lambda>record.
     areturn \<lparr>pko_kp_ref = key_package_ref record, pko_last_resort = is_last_resort record,
       pko_at = published_at record\<rparr>))))))))))"

definition consumed_key_package :: "'j services \<Rightarrow> 'j PublishedKeyPackageRecord \<Rightarrow> ('s, ConsumedKeyPackage) aop" where
  "consumed_key_package sv r =
     (case event_from_value sv (publication_event r) of
        Inl e \<Rightarrow> afail (InvalidInput (''corrupt publication event: '' @ e))
      | Inr ev \<Rightarrow> areturn \<lparr>ckp_pk = stable_pubkey r, ckp_kp_ref = key_package_ref r,
          ckp_last_resort = is_last_resort r, ckp_at = published_at r, ckp_event = ev\<rparr>)"

definition ad_consume_key_package :: "('s, 'j) CoordinatorStorage \<Rightarrow> 'j services \<Rightarrow> i64 \<Rightarrow>
    ConsumeKeyPackageInput \<Rightarrow> string \<Rightarrow> ('s, ConsumeKeyPackageOutput) aop" where
  "ad_consume_key_package ops sv now input client =
     abind (assert_within_rate_limit client now) (\<lambda>_.
     abind (require_non_empty (cki_id input) ''id'') (\<lambda>_.
     abind (on_coordinator (consume_key_package ops (cki_id input))) (\<lambda>record.
     case record of
       None \<Rightarrow> areturn \<lparr>cko_key_package = None\<rparr>
     | Some r \<Rightarrow> abind (consumed_key_package sv r) (\<lambda>kp. areturn \<lparr>cko_key_package = Some kp\<rparr>))))"

definition available_key_package :: "'j PublishedKeyPackageRecord \<Rightarrow> AvailableKeyPackage" where
  "available_key_package r = \<lparr>akp_pk = stable_pubkey r, akp_kp_ref = key_package_ref r,
     akp_last_resort = is_last_resort r, akp_at = published_at r\<rparr>"

definition ad_list_available_key_packages :: "('s, 'j) CoordinatorStorage \<Rightarrow> i64 \<Rightarrow> string \<Rightarrow>
    ('s, ListAvailableKeyPackagesOutput) aop" where
  "ad_list_available_key_packages ops now client =
     abind (assert_within_rate_limit client now) (\<lambda>_.
     abind (on_coordinator (list_all_key_packages ops)) (\<lambda>records.
     areturn \<lparr>lko_key_packages = map available_key_package records\<rparr>))"

fun remove_refs_loop :: "('s, 'j) CoordinatorStorage \<Rightarrow> string \<Rightarrow> string list \<Rightarrow> string list \<Rightarrow>
    ('s, string list) aop" where
  "remove_refs_loop ops client [] removed = areturn removed"
| "remove_refs_loop ops client (kp_ref # refs) removed =
     abind (on_coordinator (get_key_package ops kp_ref)) (\<lambda>found.
     abind (ok_or found (UnknownKeyPackageRef kp_ref)) (\<lambda>record.
     abind (ensure (stable_pubkey record = client) (UnauthorizedKeyPackageRef kp_ref)) (\<lambda>_.
     abind (on_coordinator (remove_key_package ops kp_ref)) (\<lambda>gone.
     remove_refs_loop ops client refs
       (removed @ [unwrap_or kp_ref (map_option key_package_ref gone)])))))"

definition ad_remove_key_packages :: "('s, 'j) CoordinatorStorage \<Rightarrow> i64 \<Rightarrow> RemoveKeyPackagesInput \<Rightarrow> string \<Rightarrow>
    ('s, RemoveKeyPackagesOutput) aop" where
  "ad_remove_key_packages ops now input client =
     abind (assert_within_rate_limit client now) (\<lambda>_.
     abind (ensure (rki_kp_refs input \<noteq> []) (InvalidInput ''kp_refs must be non-empty'')) (\<lambda>_.
     abind (remove_refs_loop ops client (rki_kp_refs input) []) (\<lambda>removed.
     areturn \<lparr>rko_kp_refs = removed\<rparr>)))"

section \<open>Welcomes and join requests\<close>

definition core_consumed_welcome :: "ConsumedWelcomeRef_wire \<Rightarrow> ConsumedWelcomeRef" where
  "core_consumed_welcome c = \<lparr>cw_key_package_reference = cwr_kp_ref c, cw_created_at = cwr_at c\<rparr>"

definition pending_welcome :: "'j services \<Rightarrow> WelcomeQueueRecord \<Rightarrow> PendingWelcome" where
  "pending_welcome sv r = \<lparr>pw_kp_ref = key_package_reference r, pw_welcome_64 = b64_encode sv (welcome_bytes r),
     pw_at = w_created_at r, pw_after = join_after_cursor r\<rparr>"

definition ad_fetch_pending_welcomes :: "('s, 'j) CoordinatorStorage \<Rightarrow> 'j services \<Rightarrow> i64 \<Rightarrow>
    FetchPendingWelcomesInput \<Rightarrow> string \<Rightarrow> ('s, FetchPendingWelcomesOutput) aop" where
  "ad_fetch_pending_welcomes ops sv now input client =
     abind (assert_within_rate_limit client now) (\<lambda>_.
     abind (on_coordinator (fetch_pending_welcomes ops client
       (map core_consumed_welcome (unwrap_or [] (fwi_consumed input))))) (\<lambda>records.
     areturn \<lparr>fwo_welcomes = map (pending_welcome sv) records\<rparr>))"

definition ad_store_welcome :: "('s, 'j) CoordinatorStorage \<Rightarrow> 'j services \<Rightarrow> i64 \<Rightarrow> i64 \<Rightarrow>
    StoreWelcomeInput_wire \<Rightarrow> string \<Rightarrow> ('s, StoreWelcomeOutput) aop" where
  "ad_store_welcome ops sv now stored input client =
     abind (assert_within_rate_limit client now) (\<lambda>_.
     abind (require_non_empty (swi_target_pk input) ''target_pk'') (\<lambda>_.
     abind (require_non_empty (swi_kp_ref input) ''kp_ref'') (\<lambda>_.
     abind (require_non_empty (swi_welcome_64 input) ''welcome_64'') (\<lambda>_.
     abind (ok_or (b64_decode sv (swi_welcome_64 input)) InvalidWelcome) (\<lambda>welcome.
     abind (on_coordinator (store_welcome ops stored
       \<lparr>sw_target_stable_pubkey = swi_target_pk input, sw_key_package_reference = swi_kp_ref input,
        sw_welcome_bytes = welcome, sw_join_after_cursor = swi_after input\<rparr>)) (\<lambda>record.
     areturn \<lparr>swo_at = w_created_at record\<rparr>))))))"

definition ad_store_join_request :: "('s, 'j) CoordinatorStorage \<Rightarrow> i64 \<Rightarrow> i64 \<Rightarrow> StoreJoinRequestInput_wire \<Rightarrow>
    string \<Rightarrow> ('s, StoreJoinRequestOutput) aop" where
  "ad_store_join_request ops now stored input client =
     abind (assert_within_rate_limit client now) (\<lambda>_.
     abind (require_non_empty (sji_gid input) ''gid'') (\<lambda>_.
     abind (require_non_empty (sji_kp_ref input) ''kp_ref'') (\<lambda>_.
     abind (on_coordinator (get_key_package ops (sji_kp_ref input))) (\<lambda>found.
     abind (ok_or found (UnknownKeyPackageRef (sji_kp_ref input))) (\<lambda>kp.
     abind (ensure (stable_pubkey kp = client) (UnauthorizedKeyPackageRef (sji_kp_ref input))) (\<lambda>_.
     abind (on_coordinator (store_join_request ops stored
       \<lparr>sj_group_id = sji_gid input, sj_requester_stable_pubkey = client, sj_key_package_ref = sji_kp_ref input\<rparr>)) (\<lambda>record.
     areturn \<lparr>sjo_at = jr_created_at record\<rparr>)))))))"

definition core_consumed_join_request :: "ConsumedJoinRequestWithGroupRef_wire \<Rightarrow> ConsumedJoinRequestWithGroupRef" where
  "core_consumed_join_request c =
     \<lparr>cg_group_id = cjg_gid c, cg_requester_stable_pubkey = cjg_pk c, cg_created_at = cjg_at c\<rparr>"

definition join_request_with_group :: "JoinRequestRecord \<Rightarrow> JoinRequestWithGroup" where
  "join_request_with_group r = \<lparr>jrg_pk = requester_stable_pubkey r, jrg_kp_ref = jr_key_package_ref r,
     jrg_at = jr_created_at r, jrg_gid = jr_group_id r\<rparr>"

definition ad_fetch_many_pending_join_requests :: "('s, 'j) CoordinatorStorage \<Rightarrow> i64 \<Rightarrow>
    FetchManyPendingJoinRequestsInput \<Rightarrow> string \<Rightarrow> ('s, FetchManyPendingJoinRequestsOutput) aop" where
  "ad_fetch_many_pending_join_requests ops now input client =
     abind (assert_within_rate_limit client now) (\<lambda>_.
     abind (ensure (fmj_groups input \<noteq> []) (InvalidInput ''groups must be non-empty'')) (\<lambda>_.
     abind (on_coordinator (fetch_many_pending_join_requests ops (map fji_gid (fmj_groups input))
       (map core_consumed_join_request (unwrap_or [] (fmj_consumed input))))) (\<lambda>records.
     areturn \<lparr>fmo_requests = map join_request_with_group records\<rparr>)))"

section \<open>Group messages\<close>

definition ad_post_group_message :: "('s, 'j) CoordinatorStorage \<Rightarrow> 'j services \<Rightarrow> i64 \<Rightarrow> i64 \<Rightarrow>
    PostGroupMessageInput_wire \<Rightarrow> string \<Rightarrow> ('s, PostGroupMessageOutput) aop" where
  "ad_post_group_message ops sv now stored input client =
     abind (assert_within_rate_limit client now) (\<lambda>_.
     abind (require_non_empty (pmi_gid input) ''gid'') (\<lambda>_.
     abind (require_non_empty (pmi_msg_64 input) ''msg_64'') (\<lambda>_.
     abind (ok_or (b64_decode sv (pmi_msg_64 input)) InvalidMessage) (\<lambda>opaque.
     abind (on_coordinator (post_group_message ops stored
       \<lparr>pm_group_id = pmi_gid input, pm_opaque_message = opaque\<rparr>)) (\<lambda>record.
     areturn \<lparr>pmo_cursor = cursor record, pmo_gid = gm_group_id record, pmo_at = gm_created_at record\<rparr>)))))"

definition wire_message_struct :: "'j services \<Rightarrow> GroupMessageRecord \<Rightarrow> GroupMessage" where
  "wire_message_struct sv r = \<lparr>gmw_cursor = cursor r, gmw_gid = gm_group_id r,
     gmw_msg_64 = b64_encode sv (opaque_message r), gmw_at = gm_created_at r\<rparr>"

definition map_group_messages :: "'j services \<Rightarrow> GroupMessageRecord list \<Rightarrow> FetchGroupMessagesOutput" where
  "map_group_messages sv records = \<lparr>fgo_messages = map (wire_message_struct sv) records\<rparr>"

definition core_fetch_input :: "FetchGroupMessagesInput_wire \<Rightarrow> FetchGroupMessagesInput" where
  "core_fetch_input g = \<lparr>fg_group_id = fgi_gid g, after_cursor = fgi_after g\<rparr>"

definition ad_fetch_many_group_messages :: "('s, 'j) CoordinatorStorage \<Rightarrow> 'j services \<Rightarrow> i64 \<Rightarrow>
    FetchManyGroupMessagesInput \<Rightarrow> string \<Rightarrow> ('s, FetchGroupMessagesOutput) aop" where
  "ad_fetch_many_group_messages ops sv now input client =
     abind (assert_within_rate_limit client now) (\<lambda>_.
     abind (ensure (fmg_groups input \<noteq> []) (InvalidInput ''groups must be non-empty'')) (\<lambda>_.
     abind (require_positive_cursors (fmg_groups input)) (\<lambda>_.
     abind (on_coordinator (fetch_many_group_messages ops (map core_fetch_input (fmg_groups input)))) (\<lambda>records.
     areturn (map_group_messages sv records)))))"

section \<open>Subscriptions\<close>

text \<open>The sink, a trait of the adapter; \<open>'k\<close> is the state of the stream behind it.\<close>

record 'k MessageSink =
  sink_start :: "'k \<Rightarrow> bool \<times> 'k"
  sink_write :: "string \<Rightarrow> 'k \<Rightarrow> bool \<times> 'k"
  sink_is_active :: "'k \<Rightarrow> bool"
  sink_close :: "'k \<Rightarrow> 'k"

definition wire_message :: "'j services \<Rightarrow> GroupMessageRecord \<Rightarrow> string" where
  "wire_message sv r = unwrap_or [] (message_to_string sv (wire_message_struct sv r))"

text \<open>
  One turn of the streaming loop: what the coordinator looks like when the task wakes, what has
  happened to the stream meanwhile, and whether the timer branch of the \<^verbatim>\<open>select!\<close> was taken. A
  wake-up of the receiver that finds nothing is a task that goes on waiting.
\<close>

record ('s, 'k) wakeup =
  wk_coordinator :: "'s Coordinator"
  wk_outside :: "'k \<Rightarrow> 'k"
  wk_timer :: bool

text \<open>Whether the loop has ended after these turns, the handle and the stream.\<close>

fun stream_loop :: "'j services \<Rightarrow> 'k MessageSink \<Rightarrow> ('s, 'k) wakeup list \<Rightarrow> GroupMessageSubscription \<Rightarrow> 'k \<Rightarrow>
    bool \<times> GroupMessageSubscription \<times> 'k" where
  "stream_loop sv sink [] h k = (False, h, k)"
| "stream_loop sv sink (w # ws) h k =
     (let k = wk_outside w k in
      if wk_timer w then (if sink_is_active sink k then stream_loop sv sink ws h k else (True, h, k))
      else case recv h (wk_coordinator w) of
        (Pending, h) \<Rightarrow> stream_loop sv sink ws h k
      | (Closed, h) \<Rightarrow> (True, h, k)
      | (Received r, h) \<Rightarrow>
          (let (ok, k) = sink_write sink (wire_message sv r) k
           in if ok then stream_loop sv sink ws h k else (True, h, k)))"

text \<open>Up to the loop, the loop, and from the loop on; dropping the subscription unsubscribes it.\<close>

definition ad_subscribe_begin :: "('s, 'j) CoordinatorStorage \<Rightarrow> i64 \<Rightarrow> SubscribeManyGroupMessagesInput \<Rightarrow>
    string \<Rightarrow> ('s, string list \<times> GroupMessageSubscription) aop" where
  "ad_subscribe_begin ops now input client =
     abind (assert_within_rate_limit client now) (\<lambda>_.
     abind (ensure (smi_groups input \<noteq> []) (InvalidInput ''groups must be non-empty'')) (\<lambda>_.
     abind (require_positive_cursors (smi_groups input)) (\<lambda>_.
     abind (on_coordinator (subscribe_many_group_messages ops (map core_fetch_input (smi_groups input)))) (\<lambda>h.
     areturn (map fgi_gid (smi_groups input), h)))))"

definition ad_subscribe_end :: "'k MessageSink \<Rightarrow> string list \<Rightarrow> GroupMessageSubscription \<Rightarrow> 'k \<Rightarrow>
    's CoordinatorAdapter \<Rightarrow> SubscribeManyGroupMessagesOutput \<times> 'k \<times> 's CoordinatorAdapter" where
  "ad_subscribe_end sink gids h k ad =
     (\<lparr>smo_subscribed = True, smo_groups = gids\<rparr>,
      if sink_is_active sink k then sink_close sink k else k,
      ad\<lparr>coordinator := snd (unsubscribe h (coordinator ad))\<rparr>)"

definition ad_subscribe_many_group_messages :: "('s, 'j) CoordinatorStorage \<Rightarrow> 'j services \<Rightarrow> 'k MessageSink \<Rightarrow>
    i64 \<Rightarrow> SubscribeManyGroupMessagesInput \<Rightarrow> string \<Rightarrow> ('s, 'k) wakeup list \<Rightarrow> 's Coordinator \<Rightarrow> 'k \<Rightarrow>
    's CoordinatorAdapter \<Rightarrow>
    (failure + SubscribeManyGroupMessagesOutput option) \<times> 'k \<times> 's CoordinatorAdapter" where
  "ad_subscribe_many_group_messages ops sv sink now input client ws final k ad =
     (case ad_subscribe_begin ops now input client ad of
        (Inl e, ad) \<Rightarrow> (Inl e, k, ad)
      | (Inr (gids, h), ad) \<Rightarrow>
          (let (ended, h, k) = stream_loop sv sink ws h (snd (sink_start sink k)) in
           if \<not> ended then (Inr None, k, ad)
           else let (out, k, ad) = ad_subscribe_end sink gids h k (ad\<lparr>coordinator := final\<rparr>)
                in (Inr (Some out), k, ad)))"

end
