(* ===== verification/Methods.thy ===== *)
theory Methods
  imports Adapter
begin

text \<open>
  The tools, \<^verbatim>\<open>crates/cordn-server/src/methods.rs\<close>: each takes the injected caller (and, for a
  publication, the injected event) from the request's context and calls its handler of the adapter.
  A \<open>tool_call\<close> is a call of one of the ten tools that answer at once, with its parsed input, and
  \<open>serve\<close> dispatches it by the tool's method; \<open>msg_sub_many\<close> is the eleventh, which streams. The JSON that \<^verbatim>\<open>serde\<close> makes of an output is not modelled. \<open>'e\<close> is the transport's type of
  Nostr events, and \<open>inbound_to_value\<close> its conversion to JSON.
\<close>

section \<open>Errors as text\<close>

definition StorageError_display :: "StorageError \<Rightarrow> string" where
  "StorageError_display e = (case e of
     Backend msg \<Rightarrow> ''storage backend error: '' @ msg
   | TooManyPendingJoinRequests \<Rightarrow> ''Too many pending join requests for this group'')"

fun AdapterError_display :: "AdapterError \<Rightarrow> string" where
  "AdapterError_display RateLimitExceeded = ''Rate limit exceeded''"
| "AdapterError_display QuotaExceeded = ''Key package quota exceeded''"
| "AdapterError_display MissingPublicationEvent = ''Missing publication event''"
| "AdapterError_display SignerMismatch = ''Publication event signer does not match injected client pubkey''"
| "AdapterError_display IdentityMismatch =
     ''Key package credential identity does not match publication event signer''"
| "AdapterError_display InvalidKeyPackage = ''Invalid kp_64''"
| "AdapterError_display InvalidWelcome = ''Invalid welcome_64''"
| "AdapterError_display InvalidMessage = ''Invalid msg_64''"
| "AdapterError_display (UnknownKeyPackageRef r) = ''Unknown key package ref: '' @ r"
| "AdapterError_display (UnauthorizedKeyPackageRef r) = ''Unauthorized key package ref: '' @ r"
| "AdapterError_display (InvalidInput s) = ''Invalid input: '' @ s"
| "AdapterError_display (Storage e) = StorageError_display e"

datatype tool_failure = ErrorData string | ToolPanicked

fun adapter_error :: "failure \<Rightarrow> tool_failure" where
  "adapter_error (Refused e) = ErrorData (AdapterError_display e)"
| "adapter_error Panicked = ToolPanicked"

section \<open>The context of a request\<close>

record ('e, 'w) RequestContext =
  cx_client_pubkey :: "string option"
  cx_inbound_event :: "'e option"
  cx_stream_writer :: "'w option"

definition client_pubkey :: "('e, 'w) RequestContext \<Rightarrow> tool_failure + string" where
  "client_pubkey ctx = (case cx_client_pubkey ctx of
     None \<Rightarrow> Inl (ErrorData ''Missing injected client pubkey'') | Some pk \<Rightarrow> Inr pk)"

definition inbound_publication_event :: "'j services \<Rightarrow> ('e \<Rightarrow> 'j option) \<Rightarrow> ('e, 'w) RequestContext \<Rightarrow>
    tool_failure + NostrEvent" where
  "inbound_publication_event sv inbound_to_value ctx = (case cx_inbound_event ctx of
     None \<Rightarrow> Inl (ErrorData ''Missing inbound publication event'')
   | Some ev \<Rightarrow> (case event_from_value sv (unwrap_or (json_null sv) (inbound_to_value ev)) of
       Inl msg \<Rightarrow> Inl (ErrorData msg) | Inr event \<Rightarrow> Inr event))"

definition stream_writer :: "('e, 'w) RequestContext \<Rightarrow> tool_failure + 'w" where
  "stream_writer ctx = (case cx_stream_writer ctx of
     None \<Rightarrow> Inl (ErrorData ''Expected open stream writer'') | Some w \<Rightarrow> Inr w)"

section \<open>The tools\<close>

datatype tool_call =
    KpPublish PublishKeyPackageInput_wire
  | KpList
  | KpTake ConsumeKeyPackageInput
  | KpRemove RemoveKeyPackagesInput
  | WelcomeTake FetchPendingWelcomesInput
  | WelcomeStore StoreWelcomeInput_wire
  | JoinRequestStore StoreJoinRequestInput_wire
  | JoinRequestTakeMany FetchManyPendingJoinRequestsInput
  | MsgPost PostGroupMessageInput_wire
  | MsgFetchMany FetchManyGroupMessagesInput

datatype tool_output =
    KpPublished PublishKeyPackageOutput
  | KpListed ListAvailableKeyPackagesOutput
  | KpTaken ConsumeKeyPackageOutput
  | KpRemoved RemoveKeyPackagesOutput
  | WelcomesTaken FetchPendingWelcomesOutput
  | WelcomeStored StoreWelcomeOutput
  | JoinRequestStored StoreJoinRequestOutput
  | JoinRequestsTaken FetchManyPendingJoinRequestsOutput
  | MsgPosted PostGroupMessageOutput
  | MsgFetched FetchGroupMessagesOutput

text \<open>The name a tool is registered under is the name of its method.\<close>

fun tool_name :: "tool_call \<Rightarrow> string" where
  "tool_name (KpPublish _) = ''kp_publish''"
| "tool_name KpList = ''kp_list''"
| "tool_name (KpTake _) = ''kp_take''"
| "tool_name (KpRemove _) = ''kp_remove''"
| "tool_name (WelcomeTake _) = ''welcome_take''"
| "tool_name (WelcomeStore _) = ''welcome_store''"
| "tool_name (JoinRequestStore _) = ''join_request_store''"
| "tool_name (JoinRequestTakeMany _) = ''join_request_take_many''"
| "tool_name (MsgPost _) = ''msg_post''"
| "tool_name (MsgFetchMany _) = ''msg_fetch_many''"

definition map_output :: "('a \<Rightarrow> 'b) \<Rightarrow> ('s, 'a) aop \<Rightarrow> ('s, 'b) aop" where
  "map_output f m = abind m (\<lambda>x. areturn (f x))"

text \<open>The handler behind a tool, for a caller and a publication event.\<close>

fun handle :: "('s, 'j) CoordinatorStorage \<Rightarrow> 'j services \<Rightarrow> i64 \<Rightarrow> i64 \<Rightarrow> tool_call \<Rightarrow> string \<Rightarrow> NostrEvent option \<Rightarrow>
    ('s, tool_output) aop" where
  "handle ops sv now stored (KpPublish input) client event =
     map_output KpPublished (ad_publish_key_package ops sv now stored input client event)"
| "handle ops sv now stored KpList client _ = map_output KpListed (ad_list_available_key_packages ops now client)"
| "handle ops sv now stored (KpTake input) client _ =
     map_output KpTaken (ad_consume_key_package ops sv now input client)"
| "handle ops sv now stored (KpRemove input) client _ =
     map_output KpRemoved (ad_remove_key_packages ops now input client)"
| "handle ops sv now stored (WelcomeTake input) client _ =
     map_output WelcomesTaken (ad_fetch_pending_welcomes ops sv now input client)"
| "handle ops sv now stored (WelcomeStore input) client _ =
     map_output WelcomeStored (ad_store_welcome ops sv now stored input client)"
| "handle ops sv now stored (JoinRequestStore input) client _ =
     map_output JoinRequestStored (ad_store_join_request ops now stored input client)"
| "handle ops sv now stored (JoinRequestTakeMany input) client _ =
     map_output JoinRequestsTaken (ad_fetch_many_pending_join_requests ops now input client)"
| "handle ops sv now stored (MsgPost input) client _ =
     map_output MsgPosted (ad_post_group_message ops sv now stored input client)"
| "handle ops sv now stored (MsgFetchMany input) client _ =
     map_output MsgFetched (ad_fetch_many_group_messages ops sv now input client)"

fun needs_event :: "tool_call \<Rightarrow> bool" where
  "needs_event (KpPublish _) = True"
| "needs_event _ = False"

definition serve :: "('s, 'j) CoordinatorStorage \<Rightarrow> 'j services \<Rightarrow> ('e \<Rightarrow> 'j option) \<Rightarrow> i64 \<Rightarrow> i64 \<Rightarrow> tool_call \<Rightarrow>
    ('e, 'w) RequestContext \<Rightarrow> 's CoordinatorAdapter \<Rightarrow> (tool_failure + tool_output) \<times> 's CoordinatorAdapter" where
  "serve ops sv inbound_to_value now stored call ctx ad =
     (case client_pubkey ctx of
        Inl e \<Rightarrow> (Inl e, ad)
      | Inr client \<Rightarrow>
          (case (if needs_event call then map_sum id Some (inbound_publication_event sv inbound_to_value ctx)
                 else Inr None) of
             Inl e \<Rightarrow> (Inl e, ad)
           | Inr event \<Rightarrow>
               (case handle ops sv now stored call client event ad of
                  (Inl f, ad') \<Rightarrow> (Inl (adapter_error f), ad')
                | (Inr out, ad') \<Rightarrow> (Inr out, ad'))))"

section \<open>The streaming tool\<close>

text \<open>
  \<^verbatim>\<open>OpenStreamWriter\<close> is a type of the transport: its methods, on the state \<open>'k\<close> of the stream, are a
  parameter. \<^verbatim>\<open>start\<close>, \<^verbatim>\<open>write\<close> and \<^verbatim>\<open>close\<close> return whether they succeeded.
\<close>

record 'k OpenStreamWriter =
  ow_start :: "'k \<Rightarrow> bool \<times> 'k"
  ow_write :: "string \<Rightarrow> 'k \<Rightarrow> bool \<times> 'k"
  ow_is_active :: "'k \<Rightarrow> bool"
  ow_close :: "'k \<Rightarrow> bool \<times> 'k"

definition StreamWriter :: "'k OpenStreamWriter \<Rightarrow> 'k MessageSink" where
  "StreamWriter w = \<lparr>sink_start = ow_start w,
     sink_write = (\<lambda>msg k. let (ok, k) = ow_write w msg k in (ok \<and> ow_is_active w k, k)),
     sink_is_active = ow_is_active w,
     sink_close = (\<lambda>k. snd (ow_close w k))\<rparr>"

definition msg_sub_many :: "('s, 'j) CoordinatorStorage \<Rightarrow> 'j services \<Rightarrow> i64 \<Rightarrow> SubscribeManyGroupMessagesInput \<Rightarrow>
    ('e, 'k OpenStreamWriter) RequestContext \<Rightarrow> ('s, 'k) wakeup list \<Rightarrow> 's Coordinator \<Rightarrow> 'k \<Rightarrow> 's CoordinatorAdapter \<Rightarrow>
    (tool_failure + SubscribeManyGroupMessagesOutput option) \<times> 'k \<times> 's CoordinatorAdapter" where
  "msg_sub_many ops sv now input ctx ws final k ad =
     (case client_pubkey ctx of
        Inl e \<Rightarrow> (Inl e, k, ad)
      | Inr pubkey \<Rightarrow>
          (case stream_writer ctx of
             Inl e \<Rightarrow> (Inl e, k, ad)
           | Inr w \<Rightarrow>
               (case ad_subscribe_many_group_messages ops sv (StreamWriter w) now input pubkey ws final k ad of
                  (Inl e, k, ad) \<Rightarrow> (Inl (adapter_error e), k, ad)
                | (Inr out, k, ad) \<Rightarrow> (Inr out, k, ad))))"

end
