(* ===== verification/Adapter_Lemmas.thy ===== *)
theory Adapter_Lemmas
  imports Methods
begin

text \<open>
  Lemmas on the handlers: how they compose, what the rate limiter's refusal does to every tool, and,
  over the storage contract, what a handler does to the abstract state behind the coordinator.
\<close>

section \<open>Composition\<close>

lemma abind_Inr: "abind m f ad = (Inr y, ad') \<longleftrightarrow> (\<exists>x ad1. m ad = (Inr x, ad1) \<and> f x ad1 = (Inr y, ad'))"
  by (auto simp: abind_def split: prod.splits sum.splits)

lemma abind_Inl:
  "abind m f ad = (Inl e, ad') \<longleftrightarrow> m ad = (Inl e, ad') \<or> (\<exists>x ad1. m ad = (Inr x, ad1) \<and> f x ad1 = (Inl e, ad'))"
  by (auto simp: abind_def split: prod.splits sum.splits)

lemma areturn_Inr: "areturn x ad = (Inr y, ad') \<longleftrightarrow> y = x \<and> ad' = ad"
  by (auto simp: areturn_def)

lemma ensure_Inr: "ensure ok e ad = (Inr u, ad') \<longleftrightarrow> ok \<and> ad' = ad"
  by (auto simp: ensure_def areturn_def afail_def)

lemma ok_or_Inr: "ok_or x e ad = (Inr v, ad') \<longleftrightarrow> x = Some v \<and> ad' = ad"
  by (auto simp: ok_or_def areturn_def afail_def split: option.splits)

lemma afail_Inr: "afail e ad = (Inr v, ad') \<longleftrightarrow> False"
  by (simp add: afail_def)

lemma parsed_Inr:
  "(case r of Inl x \<Rightarrow> afail e | Inr p \<Rightarrow> areturn p) ad = (Inr v, ad') \<longleftrightarrow> r = Inr v \<and> ad' = ad"
  by (auto simp: areturn_def afail_def split: sum.split)

lemma areturn_Inl: "areturn x ad = (Inl e, ad') \<longleftrightarrow> False"
  by (simp add: areturn_def)

lemma ensure_Inl: "ensure ok x ad = (Inl e, ad') \<longleftrightarrow> \<not> ok \<and> e = Refused x \<and> ad' = ad"
  by (auto simp: ensure_def areturn_def afail_def)

lemma ok_or_Inl: "ok_or v x ad = (Inl e, ad') \<longleftrightarrow> v = None \<and> e = Refused x \<and> ad' = ad"
  by (auto simp: ok_or_def areturn_def afail_def split: option.splits)

lemma parsed_Inl:
  "(case r of Inl x \<Rightarrow> afail y | Inr p \<Rightarrow> areturn p) ad = (Inl e, ad') \<longleftrightarrow> (\<exists>x. r = Inl x) \<and> e = Refused y \<and> ad' = ad"
  by (auto simp: areturn_def afail_def split: sum.split)

lemmas handler_Inl = abind_Inl areturn_Inl ensure_Inl ok_or_Inl parsed_Inl
lemmas handler_Inr = abind_Inr areturn_Inr ensure_Inr ok_or_Inr afail_Inr parsed_Inr

lemma map_output_abind: "map_output k (abind m f) = abind m (\<lambda>x. map_output k (f x))"
  by (rule ext) (auto simp: map_output_def abind_def split: prod.split sum.split)

section \<open>The gate of the rate limiter\<close>

lemma assert_within_rate_limit_Inr:
  "assert_within_rate_limit client now ad = (Inr u, ad') \<longleftrightarrow>
     fst (check client now (rate_limiter ad)) \<and> ad' = ad\<lparr>rate_limiter := snd (check client now (rate_limiter ad))\<rparr>"
  by (auto simp: assert_within_rate_limit_def abind_def afail_def split_def Let_def split: sum.splits)

lemma assert_within_rate_limit_passed:
  "fst (check client now (rate_limiter ad)) \<Longrightarrow> assert_within_rate_limit client now ad =
     (Inr (), ad\<lparr>rate_limiter := snd (check client now (rate_limiter ad))\<rparr>)"
  by (simp add: assert_within_rate_limit_Inr)

lemma log_rejection_state: "snd (log_rejection client ad) = ad"
  by (simp add: log_rejection_def)

definition log_panics :: "string \<Rightarrow> 's CoordinatorAdapter \<Rightarrow> bool" where
  "log_panics client ad \<longleftrightarrow>
     log_rejections (abuse ad) \<and> \<not> is_char_boundary client (min (length client) 12)"

lemma assert_within_rate_limit_refused:
  assumes "\<not> fst (check client now (rate_limiter ad))"
  shows "assert_within_rate_limit client now ad =
    (Inl (if log_panics client ad then Panicked else Refused RateLimitExceeded),
     ad\<lparr>rate_limiter := snd (check client now (rate_limiter ad))\<rparr>)"
  using assms by (simp add: assert_within_rate_limit_def split_def Let_def abind_def afail_def log_rejection_def log_panics_def)

lemmas handler_defs = ad_publish_key_package_def ad_consume_key_package_def ad_list_available_key_packages_def
  ad_remove_key_packages_def ad_fetch_pending_welcomes_def ad_store_welcome_def ad_store_join_request_def
  ad_fetch_many_pending_join_requests_def ad_post_group_message_def ad_fetch_many_group_messages_def

text \<open>Every handler goes through the gate first.\<close>

lemma handle_gate:
  obtains body where "handle ops sv now stored call client event = abind (assert_within_rate_limit client now) body"
  by (cases call) (simp_all add: handler_defs map_output_abind that)

lemma handle_refused:
  assumes "\<not> fst (check client now (rate_limiter ad))"
  shows "handle ops sv now stored call client event ad =
    (Inl (if log_panics client ad then Panicked else Refused RateLimitExceeded),
     ad\<lparr>rate_limiter := snd (check client now (rate_limiter ad))\<rparr>)"
proof (rule handle_gate [of ops sv now stored call client event])
  fix body
  assume "handle ops sv now stored call client event = abind (assert_within_rate_limit client now) body"
  with assms show ?thesis by (simp add: abind_def assert_within_rate_limit_refused)
qed

section \<open>No panic\<close>

definition no_panic :: "('s, 'a) aop \<Rightarrow> bool" where
  "no_panic m \<longleftrightarrow> (\<forall>ad. fst (m ad) \<noteq> Inl Panicked)"

lemma no_panic_abind:
  assumes "no_panic m" "\<And>x. no_panic (f x)"
  shows "no_panic (abind m f)"
  unfolding no_panic_def
proof
  fix ad
  show "fst (abind m f ad) \<noteq> Inl Panicked"
  proof (cases "m ad")
    case (Pair r ad')
    then show ?thesis
      using assms(1)[unfolded no_panic_def, rule_format, of ad] assms(2)[unfolded no_panic_def, rule_format]
      by (cases r) (simp_all add: abind_def)
  qed
qed

lemma no_panic_simple:
  "no_panic (areturn x)" "no_panic (afail e)" "no_panic (ensure b e)" "no_panic (ok_or v e)" "no_panic (on_coordinator m)"
  by (auto simp: no_panic_def areturn_def afail_def ensure_def ok_or_def on_coordinator_def
      split: option.split prod.split sum.split)

lemma no_panic_log: "is_char_boundary client (min (length client) 12) \<Longrightarrow> no_panic (log_rejection client)"
  by (simp add: no_panic_def log_rejection_def)

lemma no_panic_gate:
  assumes "is_char_boundary client (min (length client) 12)"
  shows "no_panic (assert_within_rate_limit client now)"
proof -
  have "fst (assert_within_rate_limit client now ad) \<noteq> Inl Panicked" for ad :: "'a CoordinatorAdapter"
  proof (cases "fst (check client now (rate_limiter ad))")
    case True
    then have "assert_within_rate_limit client now ad = (Inr (), ad\<lparr>rate_limiter := snd (check client now (rate_limiter ad))\<rparr>)"
      by (simp add: assert_within_rate_limit_Inr)
    then show ?thesis by simp
  next
    case False
    with assms assert_within_rate_limit_refused [OF False] show ?thesis by (simp add: log_panics_def)
  qed
  then show ?thesis by (simp add: no_panic_def)
qed

lemma no_panic_loops:
  "no_panic (evict_loop ops rs)" "no_panic (remove_refs_loop ops client refs removed)" "no_panic (require_positive_cursors gs)"
proof -
  show "no_panic (evict_loop ops rs)" by (induction rs) (auto intro: no_panic_abind no_panic_simple)
  show "no_panic (remove_refs_loop ops client refs removed)"
    by (induction refs arbitrary: removed) (auto intro!: no_panic_abind no_panic_simple)
  show "no_panic (require_positive_cursors gs)"
    by (induction gs) (auto simp: require_positive_cursor_def intro: no_panic_abind no_panic_simple)
qed

lemma no_panic_quota:
  assumes "is_char_boundary pk (min (length pk) 12)"
  shows "no_panic (enforce_key_package_quota ops pk lr)"
proof -
  have "no_panic (reject_quota pk)"
    unfolding reject_quota_def by (intro no_panic_abind no_panic_log assms no_panic_simple)
  then have "no_panic (enforce_quota ops quota pk lr)" for quota
    unfolding enforce_quota_def quota_decision_def Let_def
    by (intro no_panic_abind no_panic_simple) (auto intro!: no_panic_abind no_panic_simple no_panic_loops)
  then show ?thesis by (simp add: no_panic_def enforce_key_package_quota_def)
qed

lemma no_panic_handle:
  assumes "is_char_boundary client (min (length client) 12)"
  shows "no_panic (handle ops sv now stored call client event)"
proof (cases call)
  case (KpPublish input)
  have bind_identity: "no_panic (abind (ensure (pk = client) e) (\<lambda>_. abind (ensure (id = pk) e') (\<lambda>_.
      abind (enforce_key_package_quota ops id lr) k)))" if "\<And>x. no_panic (k x)" for pk e id e' lr k
  proof (cases "pk = client \<and> id = pk")
    case True
    then show ?thesis
      by (intro no_panic_abind no_panic_simple no_panic_quota that) (use assms in simp)
  next
    case False
    then show ?thesis
      by (auto simp: no_panic_def abind_def ensure_def areturn_def afail_def)
  qed
  have parsed: "no_panic (case r of Inl x \<Rightarrow> afail e | Inr p \<Rightarrow> areturn p)" for r :: "'x + 'y" and e
    by (cases r) (simp_all add: no_panic_simple)
  show ?thesis
    unfolding KpPublish handle.simps map_output_def ad_publish_key_package_def require_non_empty_def
    by (rule bind_identity no_panic_abind no_panic_gate [OF assms] parsed no_panic_simple)+
qed (simp_all only: handle.simps map_output_def handler_defs require_non_empty_def consumed_key_package_def,
   (intro no_panic_abind no_panic_gate assms no_panic_simple no_panic_loops,
    (auto split: option.split sum.split intro!: no_panic_abind no_panic_simple)?)+)

end
