(* ===== verification/Adapter_Logic.thy ===== *)
theory Adapter_Logic
  imports Adapter_Lemmas
begin

text \<open>
  A small Hoare logic for the handlers over the storage contract. Assertions speak about the abstract
  state behind the coordinator: \<open>triple rel E P m Q\<close> says that from a state related to one in \<open>P\<close>
  the handler \<open>m\<close> ends in a state related to one in \<open>Q x\<close> when it returns \<open>x\<close>, and to one in \<open>E e\<close>
  when it fails with \<open>e\<close>. A failure of the database engine leaves the abstract state alone.
\<close>

abbreviation store_of :: "'s CoordinatorAdapter \<Rightarrow> 's" where
  "store_of ad \<equiv> storage (coordinator ad)"

definition triple :: "('s \<Rightarrow> 'j spec_state \<Rightarrow> bool) \<Rightarrow> (failure \<Rightarrow> 'j spec_state \<Rightarrow> bool) \<Rightarrow> ('j spec_state \<Rightarrow> bool) \<Rightarrow>
    ('s, 'a) aop \<Rightarrow> ('a \<Rightarrow> 'j spec_state \<Rightarrow> bool) \<Rightarrow> bool" where
  "triple rel E P m Q \<longleftrightarrow> (\<forall>ad a. rel (store_of ad) a \<longrightarrow> P a \<longrightarrow>
     (\<exists>a'. rel (store_of (snd (m ad))) a' \<and> (case fst (m ad) of Inl e \<Rightarrow> E e a' | Inr x \<Rightarrow> Q x a')))"

lemma tripleD_Inr:
  "triple rel E P m Q \<Longrightarrow> rel (store_of ad) a \<Longrightarrow> P a \<Longrightarrow> m ad = (Inr x, ad') \<Longrightarrow> \<exists>a'. rel (store_of ad') a' \<and> Q x a'"
  unfolding triple_def by (metis fst_conv old.sum.simps(6) snd_conv)

lemma tripleD_Inl:
  "triple rel E P m Q \<Longrightarrow> rel (store_of ad) a \<Longrightarrow> P a \<Longrightarrow> m ad = (Inl e, ad') \<Longrightarrow> \<exists>a'. rel (store_of ad') a' \<and> E e a'"
  unfolding triple_def by (metis fst_conv old.sum.simps(5) snd_conv)

lemma tripleD:
  assumes "triple rel (\<lambda>_. J) P m (\<lambda>_. J)" "rel (store_of ad) a" "P a"
  shows "\<exists>a'. rel (store_of (snd (m ad))) a' \<and> J a'"
  using assms unfolding triple_def by (fastforce split: sum.splits)

lemma triple_bind:
  assumes m: "triple rel E P m R" and f: "\<And>x. triple rel E (R x) (f x) Q"
  shows "triple rel E P (abind m f) Q"
  unfolding triple_def
proof (intro allI impI)
  fix ad a assume a: "rel (store_of ad) a" "P a"
  obtain r ad1 where run: "m ad = (r, ad1)" by force
  obtain a1 where a1: "rel (store_of ad1) a1" "case r of Inl e \<Rightarrow> E e a1 | Inr x \<Rightarrow> R x a1"
    using m a run unfolding triple_def by fastforce
  show "\<exists>a'. rel (store_of (snd (abind m f ad))) a' \<and> (case fst (abind m f ad) of Inl e \<Rightarrow> E e a' | Inr x \<Rightarrow> Q x a')"
  proof (cases r)
    case (Inl e)
    with a1 run show ?thesis by (auto simp: abind_def)
  next
    case (Inr x)
    with f [of x] a1 run show ?thesis unfolding triple_def by (simp add: abind_def)
  qed
qed

lemma triple_conseq:
  assumes "triple rel E P m Q" "\<And>a. P' a \<Longrightarrow> P a" "\<And>x a. Q x a \<Longrightarrow> Q' x a" "\<And>e a. E e a \<Longrightarrow> E' e a"
  shows "triple rel E' P' m Q'"
  unfolding triple_def
proof (intro allI impI)
  fix ad a assume "rel (store_of ad) a" "P' a"
  with assms(1,2) obtain a' where "rel (store_of (snd (m ad))) a'" "case fst (m ad) of Inl e \<Rightarrow> E e a' | Inr x \<Rightarrow> Q x a'"
    unfolding triple_def by blast
  with assms(3,4) show "\<exists>a'. rel (store_of (snd (m ad))) a' \<and> (case fst (m ad) of Inl e \<Rightarrow> E' e a' | Inr x \<Rightarrow> Q' x a')"
    by (intro exI [of _ a']) (auto split: sum.splits)
qed

lemma triple_pre: "(\<And>a. P a \<Longrightarrow> triple rel E (\<lambda>x. x = a) m Q) \<Longrightarrow> triple rel E P m Q"
  unfolding triple_def by blast

lemma triple_return: "(\<And>a. P a \<Longrightarrow> Q x a) \<Longrightarrow> triple rel E P (areturn x) Q"
  by (auto simp: triple_def areturn_def)

lemma triple_fail: "(\<And>a. P a \<Longrightarrow> E (Refused e) a) \<Longrightarrow> triple rel E P (afail e) Q"
  by (auto simp: triple_def afail_def)

lemma triple_ensure:
  "(\<And>a. P a \<Longrightarrow> \<not> ok \<Longrightarrow> E (Refused e) a) \<Longrightarrow> (\<And>a. P a \<Longrightarrow> ok \<Longrightarrow> Q () a) \<Longrightarrow> triple rel E P (ensure ok e) Q"
  by (auto simp: triple_def ensure_def areturn_def afail_def)

lemma triple_ok_or:
  "(\<And>a. P a \<Longrightarrow> x = None \<Longrightarrow> E (Refused e) a) \<Longrightarrow> (\<And>a v. P a \<Longrightarrow> x = Some v \<Longrightarrow> Q v a) \<Longrightarrow> triple rel E P (ok_or x e) Q"
  by (auto simp: triple_def ok_or_def areturn_def afail_def split: option.splits)

lemma triple_gate:
  assumes "\<And>e a. P a \<Longrightarrow> E e a" "\<And>a. P a \<Longrightarrow> Q () a"
  shows "triple rel E P (assert_within_rate_limit client now) Q"
  unfolding triple_def
proof (intro allI impI)
  fix ad a assume a: "rel (store_of ad) a" "P a"
  show "\<exists>a'. rel (store_of (snd (assert_within_rate_limit client now ad))) a' \<and>
      (case fst (assert_within_rate_limit client now ad) of Inl e \<Rightarrow> E e a' | Inr x \<Rightarrow> Q x a')"
  proof (cases "fst (check client now (rate_limiter ad))")
    case True
    then have "assert_within_rate_limit client now ad = (Inr (), ad\<lparr>rate_limiter := snd (check client now (rate_limiter ad))\<rparr>)"
      by (simp add: assert_within_rate_limit_Inr)
    with a assms show ?thesis by auto
  next
    case False
    from assert_within_rate_limit_refused [OF False] a assms show ?thesis by auto
  qed
qed

text \<open>A handler's checks, with what the rest of the handler may assume after them.\<close>

lemma gate_bind:
  "triple rel E P (f ()) Q \<Longrightarrow> (\<And>e a. P a \<Longrightarrow> E e a) \<Longrightarrow> triple rel E P (abind (assert_within_rate_limit client now) f) Q"
  by (rule triple_bind [OF triple_gate [where Q = "\<lambda>_. P"]]) auto

lemma ensure_bind:
  assumes "ok \<Longrightarrow> triple rel E P (f ()) Q" "\<And>e a. P a \<Longrightarrow> E e a"
  shows "triple rel E P (abind (ensure ok e) f) Q"
proof (cases ok)
  case True
  with assms(1) show ?thesis by (simp add: triple_def abind_def ensure_def areturn_def)
next
  case False
  with assms(2) show ?thesis by (auto simp: triple_def abind_def ensure_def afail_def)
qed

lemma ok_or_bind:
  assumes "\<And>v. x = Some v \<Longrightarrow> triple rel E P (f v) Q" "\<And>e a. P a \<Longrightarrow> E e a"
  shows "triple rel E P (abind (ok_or x e) f) Q"
  using assms by (cases x) (auto simp: triple_def abind_def ok_or_def afail_def areturn_def)

lemma parse_bind:
  assumes "\<And>p. r = Inr p \<Longrightarrow> triple rel E P (f p) Q" "\<And>e a. P a \<Longrightarrow> E e a"
  shows "triple rel E P (abind (case r of Inl x \<Rightarrow> afail e | Inr p \<Rightarrow> areturn p) f) Q"
  using assms by (cases r) (auto simp: triple_def abind_def afail_def areturn_def)

lemma triple_reject: "(\<And>e a. P a \<Longrightarrow> E e a) \<Longrightarrow> triple rel E P (reject_quota pk) Q"
  by (auto simp: triple_def reject_quota_def abind_def log_rejection_def afail_def)

lemma triple_require_positive:
  assumes "\<And>e a. P a \<Longrightarrow> E e a"
  shows "triple rel E P (require_positive_cursors gs) (\<lambda>_. P)"
proof (induction gs)
  case Nil
  show ?case by (auto intro: triple_return)
next
  case (Cons g gs)
  show ?case
    unfolding require_positive_cursors.simps require_positive_cursor_def
    by (rule triple_bind [OF triple_ensure [of P _ _ _ "\<lambda>_. P"]]) (auto simp: assms Cons)
qed

lemma triple_storage:
  assumes ref: "\<And>s a. rel s a \<Longrightarrow> P a \<Longrightarrow> refines eq rel reliable m f s a"
    and backend: "\<And>a msg. P a \<Longrightarrow> E (Refused (Storage (Backend msg))) a"
    and err: "\<And>a e. P a \<Longrightarrow> fst (f a) = Inl e \<Longrightarrow> E (Refused (Storage e)) (snd (f a))"
    and ok: "\<And>a v v'. P a \<Longrightarrow> fst (f a) = Inr v' \<Longrightarrow> eq v v' \<Longrightarrow> Q v (snd (f a))"
    and same: "\<And>co. fst (op co) = fst (m (storage co)) \<and> storage (snd (op co)) = snd (m (storage co))"
  shows "triple rel E P (on_coordinator op) Q"
  unfolding triple_def
proof (intro allI impI)
  fix ad a assume a: "rel (store_of ad) a" "P a"
  obtain r s where run: "m (store_of ad) = (r, s)" by force
  obtain co where op: "op (coordinator ad) = (r, co)" "storage co = s"
    using same [of "coordinator ad"] run by (cases "op (coordinator ad)") auto
  from ref [OF a] consider "rel_sum (=) eq r (fst (f a))" "rel s (snd (f a))" | msg where "r = Inl (Backend msg)" "rel s a"
    using run by (auto simp: refines_def)
  then show "\<exists>a'. rel (store_of (snd (on_coordinator op ad))) a' \<and>
      (case fst (on_coordinator op ad) of Inl e \<Rightarrow> E e a' | Inr x \<Rightarrow> Q x a')"
  proof cases
    case 1
    with op err [OF a(2)] ok [OF a(2)] show ?thesis
      by (intro exI [of _ "snd (f a)"]) (auto simp: on_coordinator_def rel_sum.simps)
  next
    case 2
    with op backend [OF a(2)] a show ?thesis by (intro exI [of _ a]) (auto simp: on_coordinator_def)
  qed
qed

lemma on_storage_same: "fst (on_storage m co) = fst (m (storage co)) \<and> storage (snd (on_storage m co)) = snd (m (storage co))"
  by (simp add: on_storage_def split_def)

lemma triple_on_storage:
  assumes "\<And>s a. rel s a \<Longrightarrow> P a \<Longrightarrow> refines eq rel reliable m f s a"
    and "\<And>a msg. P a \<Longrightarrow> E (Refused (Storage (Backend msg))) a"
    and "\<And>a e. P a \<Longrightarrow> fst (f a) = Inl e \<Longrightarrow> E (Refused (Storage e)) (snd (f a))"
    and "\<And>a v v'. P a \<Longrightarrow> fst (f a) = Inr v' \<Longrightarrow> eq v v' \<Longrightarrow> Q v (snd (f a))"
  shows "triple rel E P (on_coordinator (on_storage m)) Q"
  by (rule triple_storage [of rel P eq reliable m f]) (use assms in \<open>auto simp: on_storage_same\<close>)

section \<open>The coordinator's operations\<close>

context coordinator_storage
begin

lemma triple_list:
  assumes "\<And>e a. P a \<Longrightarrow> E e a" "\<And>a. P a \<Longrightarrow> Q (filter (\<lambda>r. stable_pubkey r = pk) (sp_key_packages a)) a"
  shows "triple rel E P (on_coordinator (Coordinator.list_key_packages_for_identity ops pk)) Q"
  by (rule triple_storage [OF list_key_packages_for_identity])
    (auto simp: assms Coordinator.list_key_packages_for_identity_def on_storage_same spec_list_key_packages_for_identity_def)

lemma triple_get:
  assumes "\<And>e a. P a \<Longrightarrow> E e a" "\<And>a. P a \<Longrightarrow> Q (find (\<lambda>r. key_package_ref r = x) (sp_key_packages a)) a"
  shows "triple rel E P (on_coordinator (Coordinator.get_key_package ops x)) Q"
  by (rule triple_storage [OF get_key_package])
    (auto simp: assms Coordinator.get_key_package_def on_storage_same spec_get_key_package_def)

lemma triple_remove:
  assumes "\<And>e a. P a \<Longrightarrow> E e a" "\<And>a. P a \<Longrightarrow> Q (find (\<lambda>r. key_package_ref r = x) (sp_key_packages a)) (spec_drop_ref x a)"
  shows "triple rel E P (on_coordinator (Coordinator.remove_key_package ops x)) Q"
  by (rule triple_storage [OF remove_key_package])
    (auto simp: assms Coordinator.remove_key_package_def on_storage_same spec_remove_key_package_def)

lemma triple_publish:
  assumes "\<And>e a. P a \<Longrightarrow> E e a" "\<And>a. P a \<Longrightarrow> pk_key_package_ref input \<notin> key_package_ref ` set (sp_key_packages a)"
    "\<And>a. P a \<Longrightarrow> Q r (a\<lparr>sp_key_packages := sp_key_packages a @ [r]\<rparr>)"
    "r = \<lparr>stable_pubkey = pk_stable_pubkey input, key_package_bytes = pk_key_package_bytes input,
        key_package_ref = pk_key_package_ref input, is_last_resort = pk_is_last_resort input,
        published_at = now, publication_event = pk_publication_event input\<rparr>"
  shows "triple rel E P (on_coordinator (Coordinator.publish_key_package ops now input)) Q"
  by (rule triple_storage [OF publish_key_package [where r = r]])
    (use assms in \<open>auto simp: Coordinator.publish_key_package_def on_storage_same spec_publish_key_package_def fresh_ref_def\<close>)

lemma triple_post:
  assumes "\<And>e a. P a \<Longrightarrow> E e a" "\<And>a. P a \<Longrightarrow> cursor_room (pm_group_id input) a"
    "\<And>a m. P a \<Longrightarrow> m = \<lparr>cursor = int (length (group_log (pm_group_id input) (sp_messages a))) + 1,
        gm_group_id = pm_group_id input, opaque_message = pm_opaque_message input, gm_created_at = now\<rparr> \<Longrightarrow>
      Q m (a\<lparr>sp_messages := sp_messages a @ [m]\<rparr>)"
  shows "triple rel E P (on_coordinator (Coordinator.post_group_message ops now input)) Q"
proof (rule triple_storage [OF append_group_message [where
      p = "\<lparr>ap_group_id = pm_group_id input, ap_opaque_message = pm_opaque_message input, ap_created_at = now\<rparr>"]])
  fix co
  show "fst (Coordinator.post_group_message ops now input co) = fst (so_append_group_message ops
       \<lparr>ap_group_id = pm_group_id input, ap_opaque_message = pm_opaque_message input, ap_created_at = now\<rparr> (storage co)) \<and>
     storage (snd (Coordinator.post_group_message ops now input co)) = snd (so_append_group_message ops
       \<lparr>ap_group_id = pm_group_id input, ap_opaque_message = pm_opaque_message input, ap_created_at = now\<rparr> (storage co))"
    by (auto simp: post_group_message_def on_storage_def split: prod.split sum.split)
qed (use assms in \<open>auto simp: spec_append_group_message_def Let_def\<close>)

lemma triple_fetch_many:
  assumes "\<And>e a. P a \<Longrightarrow> E e a" "\<And>a. P a \<Longrightarrow>
      Q (concat (map (\<lambda>g. log_after (fg_group_id g) (after_cursor g) (sp_messages a)) gs)) a"
  shows "triple rel E P (on_coordinator (Coordinator.fetch_many_group_messages ops gs)) Q"
  by (rule triple_storage [OF fetch_many_group_messages])
    (auto simp: assms Coordinator.fetch_many_group_messages_def on_storage_same spec_fetch_many_group_messages_def)

text \<open>What the other operations leave alone: the key packages.\<close>

lemma triple_frame:
  fixes J :: "'j PublishedKeyPackageRecord list \<Rightarrow> bool"
  defines "K \<equiv> \<lambda>a. J (sp_key_packages a)"
  shows "triple rel (\<lambda>_. K) K (on_coordinator (Coordinator.list_all_key_packages ops)) (\<lambda>_. K)"
    "triple rel (\<lambda>_. K) K (on_coordinator (Coordinator.store_welcome ops now sw)) (\<lambda>_. K)"
    "triple rel (\<lambda>_. K) K (on_coordinator (Coordinator.fetch_pending_welcomes ops t cw)) (\<lambda>_. K)"
    "triple rel (\<lambda>_. K) K (on_coordinator (Coordinator.store_join_request ops now sj)) (\<lambda>_. K)"
    "triple rel (\<lambda>_. K) K (on_coordinator (Coordinator.fetch_many_pending_join_requests ops gids cg)) (\<lambda>_. K)"
proof -
  show "triple rel (\<lambda>_. K) K (on_coordinator (Coordinator.list_all_key_packages ops)) (\<lambda>_. K)"
    by (rule triple_storage [OF list_all_key_packages])
      (auto simp: K_def Coordinator.list_all_key_packages_def on_storage_same spec_list_all_key_packages_def)
  show "triple rel (\<lambda>_. K) K (on_coordinator (Coordinator.store_welcome ops now sw)) (\<lambda>_. K)"
    unfolding Coordinator.store_welcome_def
    by (rule triple_on_storage [OF store_welcome]) (auto simp: K_def spec_store_welcome_def)
  show "triple rel (\<lambda>_. K) K (on_coordinator (Coordinator.fetch_pending_welcomes ops t cw)) (\<lambda>_. K)"
    unfolding Coordinator.fetch_pending_welcomes_def
    by (rule triple_on_storage [OF fetch_pending_welcomes])
      (auto simp: K_def spec_fetch_pending_welcomes_def Let_def)
  show "triple rel (\<lambda>_. K) K (on_coordinator (Coordinator.store_join_request ops now sj)) (\<lambda>_. K)"
    unfolding Coordinator.store_join_request_def
    by (rule triple_on_storage [OF store_join_request])
      (auto simp: K_def spec_store_join_request_def Let_def split: if_splits)
  show "triple rel (\<lambda>_. K) K (on_coordinator (Coordinator.fetch_many_pending_join_requests ops gids cg)) (\<lambda>_. K)"
    unfolding Coordinator.fetch_many_pending_join_requests_def
    by (rule triple_on_storage [OF fetch_many_pending_join_requests])
      (auto simp: K_def spec_fetch_many_pending_join_requests_def Let_def)
qed

lemma triple_inv: "triple rel E (\<lambda>a. P a \<and> spec_inv a) m Q \<Longrightarrow> triple rel E P m Q"
  unfolding triple_def using rel_inv by blast

end

section \<open>The packages of others\<close>

abbreviation others :: "string \<Rightarrow> 'j spec_state \<Rightarrow> 'j PublishedKeyPackageRecord list" where
  "others pk a \<equiv> filter (\<lambda>r. stable_pubkey r \<noteq> pk) (sp_key_packages a)"

lemma distinct_key_unique:
  "distinct (map f xs) \<Longrightarrow> x \<in> set xs \<Longrightarrow> y \<in> set xs \<Longrightarrow> f x = f y \<Longrightarrow> x = y"
  by (simp add: distinct_map inj_on_def)

lemma others_drop:
  assumes "\<And>r. r \<in> set (sp_key_packages a) \<Longrightarrow> key_package_ref r = x \<Longrightarrow> stable_pubkey r = pk"
  shows "others pk (spec_drop_ref x a) = others pk a"
  using assms by (auto simp: spec_drop_ref_def intro!: filter_cong)

lemma others_drop_found:
  assumes "spec_inv a" "find (\<lambda>r. key_package_ref r = x) (sp_key_packages a) = Some rec" "stable_pubkey rec = pk"
  shows "others pk (spec_drop_ref x a) = others pk a"
proof (rule others_drop)
  fix r assume r: "r \<in> set (sp_key_packages a)" "key_package_ref r = x"
  have "rec \<in> set (sp_key_packages a)" "key_package_ref rec = x"
    using assms(2) by (auto simp: find_Some_iff)
  with r assms(1,3) show "stable_pubkey r = pk"
    using distinct_key_unique [of key_package_ref "sp_key_packages a" r rec] by (simp add: spec_inv_def)
qed

context coordinator_storage
begin

lemma evict_triple:
  fixes rs :: "'j PublishedKeyPackageRecord list"
  assumes "\<And>e a. R a \<Longrightarrow> E e a" "\<And>a r. R a \<Longrightarrow> r \<in> set rs \<Longrightarrow> R (spec_drop_ref (key_package_ref r) a)"
  shows "triple rel E R (evict_loop ops rs) (\<lambda>_. R)"
  using assms(2)
proof (induction rs)
  case Nil
  show ?case by (auto intro: triple_return)
next
  case (Cons r rs)
  show ?case
    unfolding evict_loop.simps
    by (rule triple_bind [OF triple_remove [where Q = "\<lambda>_. R"]]) (auto simp: assms(1) Cons)
qed

lemma remove_refs_triple:
  "triple rel (\<lambda>_ a. others client a = K) (\<lambda>a. others client a = K)
     (remove_refs_loop ops client refs removed) (\<lambda>_ a. others client a = K)"
proof (induction refs arbitrary: removed)
  case Nil
  show ?case by (auto intro: triple_return)
next
  case (Cons x refs)
  let ?K = "\<lambda>a. others client a = K"
  let ?F = "\<lambda>found a. ?K a \<and> spec_inv a \<and> find (\<lambda>r. key_package_ref r = x) (sp_key_packages a) = found"
  show ?case
    unfolding remove_refs_loop.simps
  proof (rule triple_inv, rule triple_bind [where R = ?F])
    show "triple rel (\<lambda>_. ?K) (\<lambda>a. ?K a \<and> spec_inv a) (on_coordinator (Coordinator.get_key_package ops x)) ?F"
      by (rule triple_get) auto
    fix found
    show "triple rel (\<lambda>_. ?K) (?F found)
       (abind (ok_or found (UnknownKeyPackageRef x)) (\<lambda>record.
        abind (ensure (stable_pubkey record = client) (UnauthorizedKeyPackageRef x)) (\<lambda>_.
        abind (on_coordinator (Coordinator.remove_key_package ops x)) (\<lambda>gone.
        remove_refs_loop ops client refs (removed @ [unwrap_or x (map_option key_package_ref gone)]))))) (\<lambda>_. ?K)"
    proof (rule triple_bind [OF triple_ok_or [where Q = "\<lambda>r. ?F (Some r)"]])
      fix r
      show "triple rel (\<lambda>_. ?K) (?F (Some r))
         (abind (ensure (stable_pubkey r = client) (UnauthorizedKeyPackageRef x)) (\<lambda>_.
          abind (on_coordinator (Coordinator.remove_key_package ops x)) (\<lambda>gone.
          remove_refs_loop ops client refs (removed @ [unwrap_or x (map_option key_package_ref gone)])))) (\<lambda>_. ?K)"
        by (rule triple_bind [OF triple_ensure [where Q = "\<lambda>_ a. ?F (Some r) a \<and> stable_pubkey r = client"]])
          (auto intro!: triple_bind [OF triple_remove [where Q = "\<lambda>_. ?K"]] Cons simp: others_drop_found)
    qed auto
  qed
qed

end

end
