(* ===== verification/Adapter_Publish.thy ===== *)
theory Adapter_Publish
  imports Adapter_Logic
begin

text \<open>
  Publishing through the adapter, over the storage contract: what the quota evicts and admits, the
  state a publication leaves, and that no handler but the one for taking key packages changes a
  package of another identity.
\<close>

section \<open>The quota\<close>

abbreviation own :: "string \<Rightarrow> 'j spec_state \<Rightarrow> 'j PublishedKeyPackageRecord list" where
  "own pk a \<equiv> filter (\<lambda>r. stable_pubkey r = pk) (sp_key_packages a)"

definition drop_refs :: "string list \<Rightarrow> 'j spec_state \<Rightarrow> 'j spec_state" where
  "drop_refs refs a = a\<lparr>sp_key_packages := filter (\<lambda>r. key_package_ref r \<notin> set refs) (sp_key_packages a)\<rparr>"

definition quota_evicts :: "KeyPackageQuotaConfig \<Rightarrow> bool \<Rightarrow> 'j PublishedKeyPackageRecord list \<Rightarrow>
    'j PublishedKeyPackageRecord list" where
  "quota_evicts quota lr records =
     (let last_resort = filter is_last_resort records; m = max_last_resort_per_identity quota in
      if lr \<and> 0 < m \<and> m \<le> length last_resort then take (length last_resort - m + 1) last_resort else [])"

definition quota_admits :: "KeyPackageQuotaConfig \<Rightarrow> bool \<Rightarrow> 'j PublishedKeyPackageRecord list \<Rightarrow> bool" where
  "quota_admits quota lr records \<longleftrightarrow>
     (let l = length (filter is_last_resort records); m = max_last_resort_per_identity quota;
          max_per = max_per_identity quota in
      0 < max_per \<longrightarrow> (if lr then length records - l + min l (m - 1) + 1 \<le> max_per else length records < max_per))"

lemma drop_refs_Nil [simp]: "drop_refs [] a = a"
  by (simp add: drop_refs_def)

lemma drop_refs_Cons: "drop_refs refs (spec_drop_ref x a) = drop_refs (x # refs) a"
  by (auto simp: drop_refs_def spec_drop_ref_def intro!: filter_cong)

lemma others_drop_refs:
  assumes "\<And>r. r \<in> set (sp_key_packages a) \<Longrightarrow> key_package_ref r \<in> set refs \<Longrightarrow> stable_pubkey r = pk"
  shows "others pk (drop_refs refs a) = others pk a"
  using assms by (auto simp: drop_refs_def intro!: filter_cong)

lemma own_ref:
  assumes "spec_inv a" "x \<in> set (own pk a)" "r \<in> set (sp_key_packages a)" "key_package_ref r = key_package_ref x"
  shows "stable_pubkey r = pk"
  using assms distinct_key_unique [of key_package_ref "sp_key_packages a" r x] by (auto simp: spec_inv_def)

lemma quota_evicts_subset: "set (quota_evicts quota lr records) \<subseteq> set (filter is_last_resort records)"
  by (auto simp: quota_evicts_def Let_def dest: in_set_takeD)

lemma triple_quota:
  "(\<And>quota. triple rel E P (enforce_quota ops quota pk lr) Q) \<Longrightarrow> triple rel E P (enforce_key_package_quota ops pk lr) Q"
  by (simp add: triple_def enforce_key_package_quota_def)

lemma triple_reject_if:
  assumes "\<And>e. E e a" "\<not> bad \<Longrightarrow> ok"
  shows "triple rel E (\<lambda>x. x = a) (if bad then reject_quota pk else areturn ()) (\<lambda>_ x. x = a \<and> ok)"
  using assms by (cases bad) (auto intro: triple_reject triple_return)

context coordinator_storage
begin

text \<open>
  An eviction that is cut short has removed a first part of its list, and the quota evicts before
  it decides.
\<close>

lemma evict_prefix:
  "triple rel (\<lambda>_ x. \<exists>k. x = drop_refs (take k (map key_package_ref rs)) a) (\<lambda>x. x = a) (evict_loop ops rs)
    (\<lambda>_ x. x = drop_refs (map key_package_ref rs) a)"
proof (induction rs arbitrary: a)
  case Nil
  show ?case by (auto intro: triple_return)
next
  case (Cons r rs)
  let ?a = "spec_drop_ref (key_package_ref r) a"
  let ?E = "\<lambda>_ x. \<exists>k. x = drop_refs (take k (map key_package_ref (r # rs))) a"
  have "triple rel ?E (\<lambda>x. x = ?a) (evict_loop ops rs) (\<lambda>_ x. x = drop_refs (map key_package_ref (r # rs)) a)"
  proof (rule triple_conseq [OF Cons.IH])
    fix e x
    assume "\<exists>k. x = drop_refs (take k (map key_package_ref rs)) ?a"
    then obtain k where "x = drop_refs (take k (map key_package_ref rs)) ?a" by blast
    then show "?E e x" by (intro exI [of _ "Suc k"]) (simp add: drop_refs_Cons)
  qed (simp_all add: drop_refs_Cons)
  note rest = this
  have "?E e a" for e by (intro exI [of _ 0]) simp
  then show ?case
    unfolding evict_loop.simps
    by (intro triple_bind [OF triple_remove [where Q = "\<lambda>_ x. x = ?a"]]) (simp_all add: rest [simplified])
qed

lemma enforce_quota_prefix:
  fixes a :: "'j spec_state"
  defines "ev \<equiv> \<lambda>quota pk lr. map key_package_ref (quota_evicts quota lr (own pk a))"
  shows "triple rel (\<lambda>_ x. \<exists>k. x = drop_refs (take k (ev quota pk lr)) a) (\<lambda>x. x = a) (enforce_quota ops quota pk lr)
    (\<lambda>_ x. x = drop_refs (ev quota pk lr) a \<and> quota_admits quota lr (own pk a))"
proof -
  let ?ev = "ev quota pk lr"
  let ?E = "\<lambda>_ x. \<exists>k. x = drop_refs (take k ?ev) a" and ?a = "drop_refs ?ev a"
  have before: "?E e a" and after: "?E e ?a" for e :: failure
    by (intro exI [of _ 0], simp, intro exI [of _ "length ?ev"], simp)
  have decision: "triple rel ?E (\<lambda>x. x = a) (quota_decision ops quota pk lr (own pk a))
      (\<lambda>_ x. x = ?a \<and> quota_admits quota lr (own pk a))"
  proof (cases lr)
    case True
    let ?l = "filter is_last_resort (own pk a)" and ?m = "max_last_resort_per_identity quota"
    have "triple rel ?E (\<lambda>x. x = a)
        (if 0 < ?m \<and> ?m \<le> length ?l then evict_loop ops (take (length ?l - ?m + 1) ?l) else areturn ()) (\<lambda>_ x. x = ?a)"
    proof (cases "0 < ?m \<and> ?m \<le> length ?l")
      case True
      then have "?ev = map key_package_ref (take (length ?l - ?m + 1) ?l)"
        using \<open>lr\<close> by (simp add: ev_def quota_evicts_def Let_def)
      with True evict_prefix [of "take (length ?l - ?m + 1) ?l" a] show ?thesis by simp
    next
      case False
      then have "?ev = []" by (auto simp: ev_def quota_evicts_def Let_def)
      with False show ?thesis by (auto intro: triple_return)
    qed
    note evict = this
    show ?thesis
      unfolding quota_decision_def Let_def if_P [OF True]
    proof (rule triple_bind [OF evict], rule triple_reject_if)
      show "?E e ?a" for e :: failure by (rule after)
    qed (auto simp: True quota_admits_def Let_def not_less simp del: filter_filter)
  next
    case False
    then have "?ev = []" by (simp add: ev_def quota_evicts_def)
    with False show ?thesis
      by (auto simp: quota_decision_def quota_admits_def Let_def intro!: triple_reject triple_return)
  qed
  show ?thesis
    unfolding enforce_quota_def
  proof (rule triple_bind [OF triple_list [where Q = "\<lambda>records x. x = a \<and> records = own pk a"]])
    fix records
    show "triple rel ?E (\<lambda>x. x = a \<and> records = own pk a) (quota_decision ops quota pk lr records)
      (\<lambda>_ x. x = ?a \<and> quota_admits quota lr (own pk a))"
      by (rule triple_pre, elim conjE, hypsubst, rule decision)
  qed (use before in auto)
qed

lemma others_after_eviction:
  assumes "spec_inv a"
  shows "others pk (drop_refs (take k (map key_package_ref (quota_evicts quota lr (own pk a)))) a) = others pk a"
proof (rule others_drop_refs)
  fix r assume r: "r \<in> set (sp_key_packages a)"
    "key_package_ref r \<in> set (take k (map key_package_ref (quota_evicts quota lr (own pk a))))"
  then obtain x where "x \<in> set (quota_evicts quota lr (own pk a))" "key_package_ref r = key_package_ref x"
    by (auto simp only: set_map image_iff dest!: in_set_takeD)
  with quota_evicts_subset [of quota lr "own pk a"] own_ref [OF assms _ r(1)] show "stable_pubkey r = pk" by auto
qed

lemma enforce_quota_exact:
  assumes "spec_inv a"
  shows "triple rel (\<lambda>_ x. others pk x = others pk a) (\<lambda>x. x = a) (enforce_quota ops quota pk lr)
    (\<lambda>_ x. x = drop_refs (map key_package_ref (quota_evicts quota lr (own pk a))) a \<and> quota_admits quota lr (own pk a))"
  by (rule triple_conseq [OF enforce_quota_prefix]) (auto simp: others_after_eviction [OF assms])

text \<open>What a handler does to the packages of others, whatever the quota and however it ends.\<close>

lemma enforce_others:
  "triple rel (\<lambda>_ x. others pk x = K) (\<lambda>x. others pk x = K \<and> ref \<notin> key_package_ref ` set (sp_key_packages x))
     (enforce_key_package_quota ops pk lr) (\<lambda>_ x. others pk x = K \<and> ref \<notin> key_package_ref ` set (sp_key_packages x))"
  (is "triple rel ?E ?P _ _")
proof (rule triple_quota, rule triple_inv, rule triple_pre)
  fix quota a
  assume a: "?P a \<and> spec_inv a"
  show "triple rel ?E (\<lambda>x. x = a) (enforce_quota ops quota pk lr) (\<lambda>_. ?P)"
  proof (rule triple_conseq [OF enforce_quota_exact])
    show "spec_inv a" using a by simp
    fix x assume x: "x = drop_refs (map key_package_ref (quota_evicts quota lr (own pk a))) a \<and>
      quota_admits quota lr (own pk a)"
    have "others pk x = others pk a"
      unfolding x [THEN conjunct1]
    proof (rule others_drop_refs)
      fix r assume r: "r \<in> set (sp_key_packages a)"
        "key_package_ref r \<in> set (map key_package_ref (quota_evicts quota lr (own pk a)))"
      then obtain y where "y \<in> set (own pk a)" "key_package_ref r = key_package_ref y"
        using quota_evicts_subset [of quota lr "own pk a"] by (auto simp only: set_map image_iff set_filter)
      with a r(1) own_ref show "stable_pubkey r = pk" by blast
    qed
    with a x show "?P x" by (auto simp: drop_refs_def)
  qed (use a in auto)
qed

lemma publish_others:
  "triple rel (\<lambda>_ x. others client x = K)
     (\<lambda>x. others client x = K \<and> pki_kp_ref input \<notin> key_package_ref ` set (sp_key_packages x))
     (ad_publish_key_package ops sv now stored input client event) (\<lambda>_ x. others client x = K)"
  unfolding ad_publish_key_package_def require_non_empty_def
proof (intro gate_bind ensure_bind ok_or_bind parse_bind)
  fix kp_bytes :: bytes and parsed :: ParsedKeyPackage and ev :: NostrEvent
  assume id: "ev_pubkey ev = client" "credential_identity parsed = ev_pubkey ev"
  show "triple rel (\<lambda>_ x. others client x = K)
     (\<lambda>x. others client x = K \<and> pki_kp_ref input \<notin> key_package_ref ` set (sp_key_packages x))
     (abind (enforce_key_package_quota ops (credential_identity parsed) (parsed_last_resort parsed)) (\<lambda>_.
      abind (on_coordinator (Coordinator.publish_key_package ops stored
        \<lparr>pk_stable_pubkey = credential_identity parsed, pk_key_package_bytes = kp_bytes,
         pk_key_package_ref = pki_kp_ref input, pk_is_last_resort = parsed_last_resort parsed,
         pk_publication_event = unwrap_or (json_null sv) (event_to_value sv ev)\<rparr>)) (\<lambda>record.
      areturn \<lparr>pko_kp_ref = key_package_ref record, pko_last_resort = is_last_resort record,
        pko_at = published_at record\<rparr>))) (\<lambda>_ x. others client x = K)"
    unfolding id
    by (rule triple_bind [OF enforce_others], rule triple_bind [OF triple_publish [where Q = "\<lambda>_ x. others client x = K"]])
      (auto intro: triple_return)
qed auto

lemma handle_others:
  assumes "\<And>input. call \<noteq> KpTake input"
    and "\<And>input a. call = KpPublish input \<Longrightarrow> P a \<Longrightarrow> pki_kp_ref input \<notin> key_package_ref ` set (sp_key_packages a)"
    and "\<And>input a. call = MsgPost input \<Longrightarrow> P a \<Longrightarrow> cursor_room (pmi_gid input) a"
    and "\<And>a. P a \<Longrightarrow> others client a = K"
  shows "triple rel (\<lambda>_ x. others client x = K) P (handle ops sv now stored call client event) (\<lambda>_ x. others client x = K)"
proof -
  let ?K = "\<lambda>x. others client x = K"
  note frame = triple_frame [where J = "\<lambda>ks. filter (\<lambda>r. stable_pubkey r \<noteq> client) ks = K"]
  note conseq = triple_conseq [where Q = "\<lambda>_. ?K" and Q' = "\<lambda>_. ?K" and E = "\<lambda>_. ?K" and E' = "\<lambda>_. ?K"]
  note out = triple_bind [where Q = "\<lambda>_. ?K" and R = "\<lambda>_. ?K"]
  note steps = gate_bind ensure_bind ok_or_bind
    triple_bind [OF frame(1)] triple_bind [OF frame(2)] triple_bind [OF frame(3)] triple_bind [OF frame(4)]
    triple_bind [OF frame(5)] triple_bind [OF triple_get [where Q = "\<lambda>_. ?K"]]
    triple_bind [OF triple_fetch_many [where Q = "\<lambda>_. ?K"]] triple_bind [OF triple_require_positive [where P = ?K]]
    triple_bind [OF remove_refs_triple] out triple_return
  have weaken: "triple rel (\<lambda>_. ?K) ?K m (\<lambda>_. ?K) \<Longrightarrow> triple rel (\<lambda>_. ?K) P m (\<lambda>_. ?K)" for m :: "('s, tool_output) aop"
    by (erule conseq, erule assms(4), assumption+)
  show ?thesis
  proof (cases call)
    case (KpPublish input)
    then show ?thesis
      unfolding KpPublish handle.simps map_output_def
      by (intro out conseq [OF publish_others] triple_return) (use assms KpPublish in auto)
  next
    case (MsgPost input)
    have "triple rel (\<lambda>_. ?K) P (ad_post_group_message ops sv now stored input client) (\<lambda>_. ?K)"
      unfolding ad_post_group_message_def require_non_empty_def
      by (intro gate_bind ensure_bind ok_or_bind triple_bind [OF triple_post [where Q = "\<lambda>_. ?K"]])
        (use assms MsgPost in \<open>auto intro: triple_return\<close>)
    then show ?thesis
      unfolding MsgPost handle.simps map_output_def by (intro out triple_return) auto
  next
    case (KpTake input)
    with assms(1) show ?thesis by blast
  next
    case KpList
    show ?thesis
      unfolding KpList handle.simps map_output_def ad_list_available_key_packages_def
      by (rule weaken) (rule steps | assumption)+
  next
    case (KpRemove input)
    show ?thesis
      unfolding KpRemove handle.simps map_output_def ad_remove_key_packages_def
      by (rule weaken) (rule steps | assumption)+
  next
    case (WelcomeTake input)
    show ?thesis
      unfolding WelcomeTake handle.simps map_output_def ad_fetch_pending_welcomes_def
      by (rule weaken) (rule steps | assumption)+
  next
    case (WelcomeStore input)
    show ?thesis
      unfolding WelcomeStore handle.simps map_output_def ad_store_welcome_def require_non_empty_def
      by (rule weaken) (rule steps | assumption)+
  next
    case (JoinRequestStore input)
    show ?thesis
      unfolding JoinRequestStore handle.simps map_output_def ad_store_join_request_def require_non_empty_def
      by (rule weaken) (rule steps | assumption)+
  next
    case (JoinRequestTakeMany input)
    show ?thesis
      unfolding JoinRequestTakeMany handle.simps map_output_def ad_fetch_many_pending_join_requests_def
      by (rule weaken) (rule steps | assumption)+
  next
    case (MsgFetchMany input)
    show ?thesis
      unfolding MsgFetchMany handle.simps map_output_def ad_fetch_many_group_messages_def
      by (rule weaken) (rule steps | assumption)+
  qed
qed

text \<open>A publication that succeeds.\<close>

lemma publish_success:
  assumes rel: "rel (store_of ad) a" and fresh: "pki_kp_ref input \<notin> key_package_ref ` set (sp_key_packages a)"
    and run: "ad_publish_key_package ops sv now stored input client event ad = (Inr out, ad')"
  obtains ev kp_bytes p a' kpr where "event = Some ev" "ev_pubkey ev = client"
    "b64_decode sv (pki_kp_64 input) = Some kp_bytes" "parse_key_package kp_bytes = Inr p" "credential_identity p = client"
    "kpr = \<lparr>stable_pubkey = client, key_package_bytes = kp_bytes, key_package_ref = pki_kp_ref input,
       is_last_resort = parsed_last_resort p, published_at = stored,
       publication_event = unwrap_or (json_null sv) (event_to_value sv ev)\<rparr>"
    "out = \<lparr>pko_kp_ref = pki_kp_ref input, pko_last_resort = parsed_last_resort p, pko_at = stored\<rparr>"
    "quota_admits (key_package_quota (abuse ad)) (parsed_last_resort p) (own client a)"
    "a' = drop_refs (map key_package_ref (quota_evicts (key_package_quota (abuse ad)) (parsed_last_resort p) (own client a))) a"
    "rel (store_of ad') (a'\<lparr>sp_key_packages := sp_key_packages a' @ [kpr]\<rparr>)"
proof -
  let ?ad1 = "ad\<lparr>rate_limiter := snd (check client now (rate_limiter ad))\<rparr>"
  obtain kp_bytes p ev ad2 kpr ad3 where parts: "event = Some ev" "ev_pubkey ev = client"
    "b64_decode sv (pki_kp_64 input) = Some kp_bytes" "parse_key_package kp_bytes = Inr p" "credential_identity p = client"
    "enforce_key_package_quota ops client (parsed_last_resort p) ?ad1 = (Inr (), ad2)"
    "on_coordinator (Coordinator.publish_key_package ops stored
       \<lparr>pk_stable_pubkey = client, pk_key_package_bytes = kp_bytes, pk_key_package_ref = pki_kp_ref input,
        pk_is_last_resort = parsed_last_resort p, pk_publication_event = unwrap_or (json_null sv) (event_to_value sv ev)\<rparr>) ad2
       = (Inr kpr, ad3)"
    "out = \<lparr>pko_kp_ref = key_package_ref kpr, pko_last_resort = is_last_resort kpr, pko_at = published_at kpr\<rparr>"
    "ad' = ad3"
    using run by (auto simp: ad_publish_key_package_def require_non_empty_def handler_Inr assert_within_rate_limit_Inr)
  let ?quota = "key_package_quota (abuse ad)" and ?lr = "parsed_last_resort p"
  let ?a = "drop_refs (map key_package_ref (quota_evicts ?quota ?lr (own client a))) a"
  have "enforce_quota ops ?quota client ?lr ?ad1 = (Inr (), ad2)"
    using parts(6) by (simp add: enforce_key_package_quota_def)
  then obtain x where "rel (store_of ad2) x" "x = ?a" and admits: "quota_admits ?quota ?lr (own client a)"
    using tripleD_Inr [where ad = ?ad1 and a = a, OF enforce_quota_exact [OF rel_inv [OF rel], of client ?quota ?lr]] rel
    by auto
  then have ad2: "rel (store_of ad2) ?a" by simp
  have fresh': "pki_kp_ref input \<notin> key_package_ref ` set (sp_key_packages ?a)"
    using fresh by (auto simp: drop_refs_def)
  define rec where "rec = \<lparr>stable_pubkey = client, key_package_bytes = kp_bytes, key_package_ref = pki_kp_ref input,
       is_last_resort = ?lr, published_at = stored, publication_event = unwrap_or (json_null sv) (event_to_value sv ev)\<rparr>"
  have "triple rel (\<lambda>_ _. True) (\<lambda>x. x = ?a) (on_coordinator (Coordinator.publish_key_package ops stored
       \<lparr>pk_stable_pubkey = client, pk_key_package_bytes = kp_bytes, pk_key_package_ref = pki_kp_ref input,
        pk_is_last_resort = ?lr, pk_publication_event = unwrap_or (json_null sv) (event_to_value sv ev)\<rparr>))
       (\<lambda>r x. r = rec \<and> x = ?a\<lparr>sp_key_packages := sp_key_packages ?a @ [rec]\<rparr>)"
    by (rule triple_publish [where r = rec]) (use fresh' in \<open>auto simp: rec_def\<close>)
  from tripleD_Inr [OF this ad2 refl parts(7)]
  have "kpr = rec" "rel (store_of ad3) (?a\<lparr>sp_key_packages := sp_key_packages ?a @ [rec]\<rparr>)" by auto
  with that [of ev kp_bytes p rec ?a] parts admits show thesis by (simp add: rec_def)
qed

text \<open>
  A publication that fails: the stored packages are as before, less a first part of what the quota
  evicts. The contract says nothing of a reference published twice, so the step that stores the
  package comes with a law of its own.
\<close>

lemma publish_failure:
  assumes rel: "rel (store_of ad) a"
    and atomic: "\<And>r s err s' x. so_publish_key_package ops r s = (Inl err, s') \<Longrightarrow> rel s x \<Longrightarrow> rel s' x"
    and run: "ad_publish_key_package ops sv now stored input client event ad = (Inl e, ad')"
  shows "\<exists>k. rel (store_of ad')
    (drop_refs (take k (map key_package_ref (quota_evicts (key_package_quota (abuse ad)) True (own client a)))) a)"
proof -
  let ?ad1 = "ad\<lparr>rate_limiter := snd (check client now (rate_limiter ad))\<rparr>"
  let ?q = "key_package_quota (abuse ad)"
  let ?E = "\<lambda>x. \<exists>k. x = drop_refs (take k (map key_package_ref (quota_evicts ?q True (own client a)))) a"
  have gate: "store_of ad' = store_of ad" if "assert_within_rate_limit client now ad = (Inl e, ad')"
    using that by (cases "fst (check client now (rate_limiter ad))")
      (auto simp: assert_within_rate_limit_passed assert_within_rate_limit_refused)
  have start: "?E a" by (intro exI [of _ 0]) simp
  have sub: "?E x" if "\<exists>k. x = drop_refs (take k (map key_package_ref (quota_evicts ?q lr (own client a)))) a" for lr x
  proof (cases lr)
    case False
    with that start show ?thesis by (simp add: quota_evicts_def)
  qed (use that in simp)
  have stored: "\<exists>x. rel (store_of ad') x \<and> ?E x"
    if quota: "enforce_quota ops ?q client lr ?ad1 = (Inr (), ad2)"
      and put: "on_coordinator (Coordinator.publish_key_package ops stored i) ad2 = (Inl e, ad')" for lr i ad2
  proof -
    obtain x where x: "rel (store_of ad2) x" "x = drop_refs (map key_package_ref (quota_evicts ?q lr (own client a))) a"
      using tripleD_Inr [OF enforce_quota_prefix _ refl quota] rel by auto
    have "rel (store_of ad') x"
      using put x(1) by (auto simp: on_coordinator_def Coordinator.publish_key_package_def on_storage_def
          split: prod.splits sum.splits intro: atomic)
    moreover have "?E x" by (rule sub [of _ lr], rule exI [of _ "length (quota_evicts ?q lr (own client a))"]) (simp add: x(2))
    ultimately show ?thesis by blast
  qed
  have quota: "\<exists>x. rel (store_of ad') x \<and> ?E x" if "enforce_quota ops ?q client lr ?ad1 = (Inl e, ad')" for lr
  proof -
    have "rel (store_of ?ad1) a" using rel by simp
    from tripleD_Inl [OF enforce_quota_prefix this refl that] sub [of _ lr] show ?thesis by blast
  qed
  have "store_of ad' = store_of ad \<or> (\<exists>lr. enforce_quota ops ?q client lr ?ad1 = (Inl e, ad')) \<or>
      (\<exists>lr ad2 i. enforce_quota ops ?q client lr ?ad1 = (Inr (), ad2) \<and>
        on_coordinator (Coordinator.publish_key_package ops stored i) ad2 = (Inl e, ad'))"
    using run gate unfolding ad_publish_key_package_def require_non_empty_def
    by (auto simp: handler_Inl handler_Inr assert_within_rate_limit_Inr enforce_key_package_quota_def)
  then have "\<exists>x. rel (store_of ad') x \<and> ?E x"
  proof (elim disjE exE conjE)
    assume "store_of ad' = store_of ad"
    with rel start show ?thesis by auto
  qed (rule quota stored, assumption+)+
  then show ?thesis by auto
qed

end

text \<open>How many packages a publication leaves.\<close>

lemma own_drop_refs:
  assumes "spec_inv a" "set rs \<subseteq> set (own pk a)"
  shows "own pk (drop_refs (map key_package_ref rs) a) = filter (\<lambda>r. r \<notin> set rs) (own pk a)"
proof -
  have "key_package_ref r \<notin> key_package_ref ` set rs \<longleftrightarrow> r \<notin> set rs" if "r \<in> set (own pk a)" for r
  proof -
    have "x = r" if "x \<in> set rs" "key_package_ref r = key_package_ref x" for x
      using that assms \<open>r \<in> set (own pk a)\<close> distinct_key_unique [of key_package_ref "sp_key_packages a" x r]
      by (auto simp: spec_inv_def)
    then show ?thesis by (auto simp: image_iff)
  qed
  then show ?thesis by (auto simp: drop_refs_def conj_commute intro!: filter_cong)
qed

lemma length_filter_not_in:
  assumes "distinct xs" "set rs \<subseteq> set xs" "distinct rs"
  shows "length (filter (\<lambda>r. r \<notin> set rs) xs) = length xs - length rs"
proof -
  have "card (set xs - set rs) = card (set xs) - card (set rs)" by (rule card_Diff_subset) (use assms in auto)
  moreover have "set (filter (\<lambda>r. r \<notin> set rs) xs) = set xs - set rs" by auto
  ultimately show ?thesis using assms by (metis distinct_card distinct_filter)
qed

lemma quota_kept:
  assumes inv: "spec_inv a" and admits: "quota_admits q lr (own pk a)"
    and "0 < max_per_identity q" "0 < max_last_resort_per_identity q"
  defines "kept \<equiv> filter (\<lambda>r. r \<notin> set (quota_evicts q lr (own pk a))) (own pk a)"
  shows "Suc (length kept) \<le> max_per_identity q"
    "lr \<Longrightarrow> Suc (length (filter is_last_resort kept)) \<le> max_last_resort_per_identity q"
proof -
  let ?o = "own pk a" and ?m = "max_last_resort_per_identity q"
  let ?l = "filter is_last_resort ?o" and ?ev = "quota_evicts q lr (own pk a)"
  have d: "distinct ?o" using inv by (simp add: spec_inv_def distinct_map)
  have ev: "set ?ev \<subseteq> set ?l" by (rule quota_evicts_subset)
  have "distinct ?ev" using distinct_filter [OF d] by (auto simp: quota_evicts_def Let_def simp del: filter_filter)
  note drop = length_filter_not_in [OF _ _ this]
  have all: "length kept = length ?o - length ?ev" unfolding kept_def
    by (rule drop) (use d ev in auto)
  have "filter is_last_resort kept = filter (\<lambda>r. r \<notin> set ?ev) ?l"
    unfolding kept_def filter_filter by (rule filter_cong) auto
  then have lrs: "length (filter is_last_resort kept) = length ?l - length ?ev"
    using drop [OF distinct_filter [OF d] ev] by (simp only:)
  have "length ?l \<le> length ?o" by (rule length_filter_le)
  moreover have "length ?ev = (if lr \<and> ?m \<le> length ?l then length ?l - ?m + 1 else 0)"
    using assms(4) by (auto simp: quota_evicts_def Let_def simp del: filter_filter)
  moreover have "if lr then length ?o - length ?l + min (length ?l) (?m - 1) + 1 \<le> max_per_identity q
      else length ?o < max_per_identity q"
    using admits assms(3) by (simp add: quota_admits_def Let_def del: filter_filter)
  ultimately show "Suc (length kept) \<le> max_per_identity q"
    "lr \<Longrightarrow> Suc (length (filter is_last_resort kept)) \<le> ?m"
    unfolding all lrs using assms(4) by (auto split: if_splits simp del: filter_filter)
qed

end
