(* ===== verification/Adapter_Remove.thy ===== *)
theory Adapter_Remove
  imports Adapter_Publish
begin

text \<open>
  What \<^verbatim>\<open>kp_remove\<close> takes away: the references of the request from the left, as long as each names a
  package of the caller. A reference that does not ends the call with an error; the packages before
  it are gone.
\<close>

definition owned_refs :: "string \<Rightarrow> string list \<Rightarrow> 'j spec_state \<Rightarrow> bool" where
  "owned_refs client refs a \<longleftrightarrow>
     (\<forall>x \<in> set refs. \<exists>r \<in> set (sp_key_packages a). key_package_ref r = x \<and> stable_pubkey r = client)"

fun removal_stopped :: "string \<Rightarrow> failure \<Rightarrow> string list \<Rightarrow> 'j spec_state \<Rightarrow> bool" where
  "removal_stopped client (Refused (UnknownKeyPackageRef y)) rest a \<longleftrightarrow>
     rest \<noteq> [] \<and> hd rest = y \<and> y \<notin> key_package_ref ` set (sp_key_packages a)"
| "removal_stopped client (Refused (UnauthorizedKeyPackageRef y)) rest a \<longleftrightarrow>
     rest \<noteq> [] \<and> hd rest = y \<and> (\<exists>r \<in> set (sp_key_packages a). key_package_ref r = y \<and> stable_pubkey r \<noteq> client)"
| "removal_stopped client f rest a \<longleftrightarrow> True"

definition removed_prefix :: "string \<Rightarrow> string list \<Rightarrow> 'j spec_state \<Rightarrow> failure \<Rightarrow> 'j spec_state \<Rightarrow> bool" where
  "removed_prefix client refs a f x \<longleftrightarrow> (\<exists>gone rest. refs = gone @ rest \<and> x = drop_refs gone a \<and>
     owned_refs client gone a \<and> removal_stopped client f rest x)"

lemma removed_prefix_Nil: "removal_stopped client f refs a \<Longrightarrow> removed_prefix client refs a f a"
  unfolding removed_prefix_def by (intro exI [of _ "[]"] exI [of _ refs]) (simp add: owned_refs_def)

lemma owned_refs_Cons:
  "owned_refs client refs (spec_drop_ref x a) \<Longrightarrow> r \<in> set (sp_key_packages a) \<Longrightarrow> key_package_ref r = x \<Longrightarrow>
     stable_pubkey r = client \<Longrightarrow> owned_refs client (x # refs) a"
  by (auto simp: owned_refs_def spec_drop_ref_def)

lemma removed_prefix_Cons:
  assumes "removed_prefix client refs (spec_drop_ref x a) f y"
    and r: "r \<in> set (sp_key_packages a)" "key_package_ref r = x" "stable_pubkey r = client"
  shows "removed_prefix client (x # refs) a f y"
proof -
  from assms(1) obtain gone rest where g: "refs = gone @ rest" "y = drop_refs (x # gone) a"
    "owned_refs client gone (spec_drop_ref x a)" "removal_stopped client f rest y"
    by (auto simp: removed_prefix_def drop_refs_Cons)
  with owned_refs_Cons [OF g(3) r] show ?thesis
    unfolding removed_prefix_def by (intro exI [of _ "x # gone"] exI [of _ rest]) simp
qed

context coordinator_storage
begin

lemma remove_refs_exact:
  "triple rel (removed_prefix client refs a) (\<lambda>x. x = a) (remove_refs_loop ops client refs removed)
     (\<lambda>out x. out = removed @ refs \<and> x = drop_refs refs a \<and> owned_refs client refs a)"
proof (induction refs arbitrary: removed a)
  case Nil
  show ?case by (auto intro: triple_return simp: owned_refs_def)
next
  case (Cons x refs)
  let ?E = "removed_prefix client (x # refs) a"
  let ?Q = "\<lambda>out y. out = removed @ x # refs \<and> y = drop_refs (x # refs) a \<and> owned_refs client (x # refs) a"
  let ?found = "find (\<lambda>r. key_package_ref r = x) (sp_key_packages a)"
  let ?rest = "\<lambda>found. abind (ok_or found (UnknownKeyPackageRef x)) (\<lambda>record.
        abind (ensure (stable_pubkey record = client) (UnauthorizedKeyPackageRef x)) (\<lambda>_.
        abind (on_coordinator (Coordinator.remove_key_package ops x)) (\<lambda>gone.
        remove_refs_loop ops client refs (removed @ [unwrap_or x (map_option key_package_ref gone)]))))"
  have stop: "?E f a" if "removal_stopped client f (x # refs) a" for f by (rule removed_prefix_Nil [OF that])
  have backend: "?E (Refused (Storage e)) a" for e by (rule stop) simp
  have rest: "triple rel ?E (\<lambda>y. y = a) (?rest ?found) ?Q"
  proof (cases ?found)
    case None
    then have "?E (Refused (UnknownKeyPackageRef x)) a" by (intro stop) (auto simp: find_None_iff)
    then show ?thesis unfolding None by (intro triple_bind [OF triple_ok_or [where Q = "\<lambda>_ _. False"]]) (auto simp: triple_def)
  next
    case (Some r)
    then have r: "r \<in> set (sp_key_packages a)" "key_package_ref r = x" by (auto dest: find_SomeD)
    show ?thesis
    proof (cases "stable_pubkey r = client")
      case False
      with r have "?E (Refused (UnauthorizedKeyPackageRef x)) a" by (intro stop) auto
      with False show ?thesis unfolding Some
        by (auto simp: triple_def abind_def ok_or_def ensure_def areturn_def afail_def)
    next
      case True
      have IH: "triple rel ?E (\<lambda>y. y = spec_drop_ref x a) (remove_refs_loop ops client refs (removed @ [x])) ?Q"
        by (rule triple_conseq [OF Cons.IH [of "spec_drop_ref x a"]])
          (use r True in \<open>auto simp: drop_refs_Cons intro: owned_refs_Cons removed_prefix_Cons\<close>)
      have "triple rel ?E (\<lambda>y. y = a) (abind (on_coordinator (Coordinator.remove_key_package ops x)) (\<lambda>gone.
          remove_refs_loop ops client refs (removed @ [unwrap_or x (map_option key_package_ref gone)]))) ?Q"
      proof (rule triple_bind [where R = "\<lambda>gone y. gone = Some r \<and> y = spec_drop_ref x a"])
        show "triple rel ?E (\<lambda>y. y = a) (on_coordinator (Coordinator.remove_key_package ops x))
            (\<lambda>gone y. gone = Some r \<and> y = spec_drop_ref x a)"
          unfolding Coordinator.remove_key_package_def
          by (rule triple_on_storage [OF remove_key_package]) (use backend Some in \<open>auto simp: spec_remove_key_package_def\<close>)
        show "triple rel ?E (\<lambda>y. gone = Some r \<and> y = spec_drop_ref x a)
            (remove_refs_loop ops client refs (removed @ [unwrap_or x (map_option key_package_ref gone)])) ?Q" for gone
          using IH r by (cases gone) (auto simp: triple_def)
      qed
      with True show ?thesis unfolding Some by (simp add: triple_def abind_def ok_or_def ensure_def areturn_def)
    qed
  qed
  show ?case
    unfolding remove_refs_loop.simps
  proof (rule triple_bind [where R = "\<lambda>found y. found = ?found \<and> y = a"])
    show "triple rel ?E (\<lambda>y. y = a) (on_coordinator (Coordinator.get_key_package ops x)) (\<lambda>found y. found = ?found \<and> y = a)"
      unfolding Coordinator.get_key_package_def
      by (rule triple_on_storage [OF get_key_package]) (use backend in \<open>auto simp: spec_get_key_package_def\<close>)
    show "triple rel ?E (\<lambda>y. found = ?found \<and> y = a) (?rest found) ?Q" for found
      using rest by (auto simp: triple_def)
  qed
qed

lemma remove_exact:
  assumes "rel (store_of ad) a" "ad_remove_key_packages ops now \<lparr>rki_kp_refs = refs\<rparr> client ad = (r, ad')"
  shows "\<exists>a'. rel (store_of ad') a' \<and> (case r of
      Inl f \<Rightarrow> removed_prefix client refs a f a'
    | Inr out \<Rightarrow> rko_kp_refs out = refs \<and> a' = drop_refs refs a \<and> owned_refs client refs a)"
proof -
  let ?ad1 = "ad\<lparr>rate_limiter := snd (check client now (rate_limiter ad))\<rparr>"
  have other: ?thesis if "r = Inl f" "store_of ad' = store_of ad" "removal_stopped client f refs a" for f
    using that assms(1) removed_prefix_Nil [of client f refs a] by auto
  show ?thesis
  proof (cases "fst (check client now (rate_limiter ad)) \<and> refs \<noteq> []")
    case True
    then have run: "abind (remove_refs_loop ops client refs []) (\<lambda>removed. areturn \<lparr>rko_kp_refs = removed\<rparr>) ?ad1 = (r, ad')"
      using assms(2) by (simp add: ad_remove_key_packages_def abind_def assert_within_rate_limit_passed ensure_def areturn_def)
    have "triple rel (removed_prefix client refs a) (\<lambda>x. x = a)
        (abind (remove_refs_loop ops client refs []) (\<lambda>removed. areturn \<lparr>rko_kp_refs = removed\<rparr>))
        (\<lambda>out x. rko_kp_refs out = refs \<and> x = drop_refs refs a \<and> owned_refs client refs a)"
      by (rule triple_bind [OF remove_refs_exact]) (auto intro: triple_return)
    then show ?thesis using assms(1) run unfolding triple_def by (auto dest!: spec [of _ ?ad1] split: sum.splits)
  next
    case False
    show ?thesis
    proof (cases "fst (check client now (rate_limiter ad))")
      case True
      with False assms(2) show ?thesis
        by (intro other [of "Refused (InvalidInput ''kp_refs must be non-empty'')"])
          (auto simp: ad_remove_key_packages_def abind_def ensure_def afail_def assert_within_rate_limit_passed)
    next
      case denied: False
      from assert_within_rate_limit_refused [OF denied] assms(2) show ?thesis
        by (intro other [of "if log_panics client ad then Panicked else Refused RateLimitExceeded"])
          (auto simp: ad_remove_key_packages_def abind_def)
    qed
  qed
qed

end

end
