(* ===== verification/Adapter_Log.thy ===== *)
theory Adapter_Log
  imports Adapter_Remove Storage_Properties
begin

text \<open>
  The queues behind the tools: what a call that succeeds answers and does to the messages, the
  welcomes and the join requests, that a call that fails does nothing to them, and which references a
  call brings in, hands out and takes away. \<open>serve_all\<close> performs a run of calls.
\<close>

section \<open>Runs of calls\<close>

text \<open>A call with its caller, the injected event and the clock readings of the limiter and the store.\<close>

type_synonym request = "string \<times> NostrEvent option \<times> i64 \<times> i64 \<times> tool_call"

fun serve_all :: "('s, 'j) CoordinatorStorage \<Rightarrow> 'j services \<Rightarrow> request list \<Rightarrow>
    's CoordinatorAdapter \<Rightarrow> (failure + tool_output) list \<times> 's CoordinatorAdapter" where
  "serve_all ops sv [] ad = ([], ad)"
| "serve_all ops sv ((client, event, now, stored, call) # calls) ad =
     (let (r, ad) = handle ops sv now stored call client event ad; (rs, ad) = serve_all ops sv calls ad in (r # rs, ad))"

fun call_refs :: "tool_call \<Rightarrow> string list" where
  "call_refs (KpPublish input) = [pki_kp_ref input]"
| "call_refs call = []"

definition request_refs :: "request list \<Rightarrow> string list" where
  "request_refs calls = concat (map (\<lambda>(_, _, _, _, call). call_refs call) calls)"

lemma request_refs_Cons: "request_refs ((client, event, now, stored, call) # calls) = call_refs call @ request_refs calls"
  by (simp add: request_refs_def)

text \<open>The references a call has published, has handed out or listed, and has taken out of the store.\<close>

fun published :: "tool_output \<Rightarrow> string list" where
  "published (KpPublished out) = [pko_kp_ref out]"
| "published out = []"

fun offered :: "tool_output \<Rightarrow> string list" where
  "offered (KpTaken out) = (case cko_key_package out of None \<Rightarrow> [] | Some kp \<Rightarrow> [ckp_kp_ref kp])"
| "offered (KpListed out) = map akp_kp_ref (lko_key_packages out)"
| "offered out = []"

fun retired :: "tool_output \<Rightarrow> string list" where
  "retired (KpTaken out) =
     (case cko_key_package out of None \<Rightarrow> [] | Some kp \<Rightarrow> if ckp_last_resort kp then [] else [ckp_kp_ref kp])"
| "retired (KpRemoved out) = rko_kp_refs out"
| "retired out = []"

definition refs_after :: "string set \<Rightarrow> tool_output \<Rightarrow> string set" where
  "refs_after R out = (R \<union> set (published out)) - set (retired out)"

section \<open>What the tools answer\<close>

record queues =
  q_messages :: "GroupMessageRecord list"
  q_welcomes :: "WelcomeQueueRecord list"
  q_requests :: "JoinRequestRecord list"

definition queues_of :: "'j spec_state \<Rightarrow> queues" where
  "queues_of a = \<lparr>q_messages = sp_messages a, q_welcomes = sp_welcomes a, q_requests = sp_join_requests a\<rparr>"

definition no_queues :: queues where
  "no_queues = \<lparr>q_messages = [], q_welcomes = [], q_requests = []\<rparr>"

definition new_message :: "string \<Rightarrow> bytes \<Rightarrow> i64 \<Rightarrow> GroupMessageRecord list \<Rightarrow> GroupMessageRecord" where
  "new_message g b stored ms =
     \<lparr>cursor = int (length (group_log g ms)) + 1, gm_group_id = g, opaque_message = b, gm_created_at = stored\<rparr>"

definition new_welcome :: "StoreWelcomeInput_wire \<Rightarrow> bytes \<Rightarrow> i64 \<Rightarrow> WelcomeQueueRecord" where
  "new_welcome input b stored = \<lparr>target_stable_pubkey = swi_target_pk input, key_package_reference = swi_kp_ref input,
     welcome_bytes = b, w_created_at = stored, join_after_cursor = swi_after input\<rparr>"

definition kept_welcomes :: "string \<Rightarrow> FetchPendingWelcomesInput \<Rightarrow> WelcomeQueueRecord list \<Rightarrow> WelcomeQueueRecord list" where
  "kept_welcomes client input = filter (\<lambda>r. \<not> (target_stable_pubkey r = client \<and>
     welcome_consumed (map core_consumed_welcome (unwrap_or [] (fwi_consumed input))) r))"

definition new_request :: "StoreJoinRequestInput_wire \<Rightarrow> string \<Rightarrow> i64 \<Rightarrow> JoinRequestRecord" where
  "new_request input client stored = \<lparr>jr_group_id = sji_gid input, requester_stable_pubkey = client,
     jr_key_package_ref = sji_kp_ref input, jr_created_at = stored\<rparr>"

definition with_request :: "JoinRequestRecord \<Rightarrow> JoinRequestRecord list \<Rightarrow> JoinRequestRecord list" where
  "with_request r rs = (if \<exists>x \<in> set rs. same_request r x
     then map (\<lambda>x. if same_request r x then refresh_request r x else x) rs else rs @ [r])"

definition kept_requests :: "FetchManyPendingJoinRequestsInput \<Rightarrow> JoinRequestRecord list \<Rightarrow> JoinRequestRecord list" where
  "kept_requests input = filter (\<lambda>r. \<not> (jr_group_id r \<in> set (map fji_gid (fmj_groups input)) \<and>
     join_request_consumed (consumed_in_group (map core_consumed_join_request (unwrap_or [] (fmj_consumed input)))
       (jr_group_id r)) r))"

text \<open>\<open>queue_call \<dots> q out q'\<close>: the call, on the queues \<open>q\<close>, answers \<open>out\<close> and leaves \<open>q'\<close>.\<close>

definition queue_call :: "'j services \<Rightarrow> string \<Rightarrow> i64 \<Rightarrow> tool_call \<Rightarrow> queues \<Rightarrow> tool_output \<Rightarrow> queues \<Rightarrow> bool" where
  "queue_call sv client stored call q out q' \<longleftrightarrow> (case call of
     MsgPost input \<Rightarrow> (\<exists>b m. b64_decode sv (pmi_msg_64 input) = Some b \<and>
       m = new_message (pmi_gid input) b stored (q_messages q) \<and> q' = q\<lparr>q_messages := q_messages q @ [m]\<rparr> \<and>
       out = MsgPosted \<lparr>pmo_cursor = cursor m, pmo_gid = gm_group_id m, pmo_at = gm_created_at m\<rparr>)
   | MsgFetchMany input \<Rightarrow> q' = q \<and> out = MsgFetched (map_group_messages sv
       (concat (map (\<lambda>g. log_after (fgi_gid g) (fgi_after g) (q_messages q)) (fmg_groups input))))
   | WelcomeStore input \<Rightarrow> (\<exists>b. b64_decode sv (swi_welcome_64 input) = Some b \<and>
       q' = q\<lparr>q_welcomes := q_welcomes q @ [new_welcome input b stored]\<rparr> \<and> out = WelcomeStored \<lparr>swo_at = stored\<rparr>)
   | WelcomeTake input \<Rightarrow> q' = q\<lparr>q_welcomes := kept_welcomes client input (q_welcomes q)\<rparr> \<and>
       out = WelcomesTaken \<lparr>fwo_welcomes = map (pending_welcome sv)
         (filter (\<lambda>r. target_stable_pubkey r = client) (q_welcomes q'))\<rparr>
   | JoinRequestStore input \<Rightarrow> q' = q\<lparr>q_requests := with_request (new_request input client stored) (q_requests q)\<rparr> \<and>
       out = JoinRequestStored \<lparr>sjo_at = stored\<rparr>
   | JoinRequestTakeMany input \<Rightarrow> q' = q\<lparr>q_requests := kept_requests input (q_requests q)\<rparr> \<and>
       out = JoinRequestsTaken \<lparr>fmo_requests = map join_request_with_group
         (concat (map (\<lambda>g. group_requests (fji_gid g) (q_requests q')) (fmj_groups input)))\<rparr>
   | _ \<Rightarrow> q' = q)"

section \<open>Handlers that leave the queues alone\<close>

definition logged :: "queues \<Rightarrow> string set \<Rightarrow> 'j spec_state \<Rightarrow> bool" where
  "logged q R a \<longleftrightarrow> queues_of a = q \<and> stored_refs a \<subseteq> R"

lemma logged_drop: "logged q R a \<Longrightarrow> logged q R (spec_drop_ref x a)"
  by (auto simp: logged_def queues_of_def spec_drop_ref_def)

lemma logged_drop_exactly: "logged q R a \<Longrightarrow> logged q (R - {x}) (spec_drop_ref x a)"
  by (auto simp: logged_def queues_of_def spec_drop_ref_def)

lemma logged_mono: "logged q R a \<Longrightarrow> R \<subseteq> R' \<Longrightarrow> logged q R' a"
  by (auto simp: logged_def)

definition answered :: "'j services \<Rightarrow> string \<Rightarrow> i64 \<Rightarrow> tool_call \<Rightarrow> queues \<Rightarrow> string set \<Rightarrow> tool_output \<Rightarrow> 'k spec_state \<Rightarrow> bool" where
  "answered sv client stored call q R out a \<longleftrightarrow> (\<exists>q'. queue_call sv client stored call q out q' \<and>
     set (offered out) \<union> set (retired out) \<subseteq> R \<and> set (published out) \<subseteq> set (call_refs call) \<and>
     logged q' (refs_after R out) a)"

context coordinator_storage
begin

text \<open>A chain of steps that leave the queues alone and add no reference.\<close>

definition keeps :: "queues \<Rightarrow> string set \<Rightarrow> ('s, 'x) aop \<Rightarrow> bool" where
  "keeps q R m \<longleftrightarrow> triple rel (\<lambda>_. logged q R) (logged q R) m (\<lambda>_. logged q R)"

lemma keeps_bind: "keeps q R m \<Longrightarrow> (\<And>x. keeps q R (f x)) \<Longrightarrow> keeps q R (abind m f)"
  unfolding keeps_def by (rule triple_bind)

lemma keeps_simple:
  "keeps q R (areturn x)" "keeps q R (afail e)" "keeps q R (ensure ok e)" "keeps q R (ok_or v e)"
  "keeps q R (assert_within_rate_limit client now)" "keeps q R (reject_quota pk)" "keeps q R (require_positive_cursors gs)"
  unfolding keeps_def
  by (auto intro: triple_return triple_fail triple_ensure triple_ok_or triple_gate triple_reject triple_require_positive)

lemma keeps_storage:
  "keeps q R (on_coordinator (Coordinator.list_key_packages_for_identity ops pk))"
  "keeps q R (on_coordinator (Coordinator.get_key_package ops x))"
  "keeps q R (on_coordinator (Coordinator.remove_key_package ops x))"
  unfolding keeps_def by (auto intro: triple_list triple_get triple_remove logged_drop)

lemma keeps_case:
  "(\<And>x. r = Inr x \<Longrightarrow> keeps q R (f x)) \<Longrightarrow> (\<And>x. r = Inl x \<Longrightarrow> keeps q R (g x)) \<Longrightarrow> keeps q R (case r of Inl x \<Rightarrow> g x | Inr x \<Rightarrow> f x)"
  "(\<And>x. v = Some x \<Longrightarrow> keeps q R (f' x)) \<Longrightarrow> (v = None \<Longrightarrow> keeps q R g') \<Longrightarrow> keeps q R (case v of None \<Rightarrow> g' | Some x \<Rightarrow> f' x)"
  "keeps q R m1 \<Longrightarrow> keeps q R m2 \<Longrightarrow> keeps q R (if b then m1 else m2)"
  by (auto split: sum.split option.split)

lemma keeps_evict: "keeps q R (evict_loop ops rs)"
  by (induction rs) (auto intro: keeps_bind keeps_simple keeps_storage)

lemmas keeps_intros = keeps_bind keeps_simple keeps_storage keeps_case keeps_evict

lemma keeps_quota: "keeps q R (enforce_key_package_quota ops pk lr)"
proof -
  have "keeps q R (enforce_quota ops quota pk lr)" for quota
    unfolding enforce_quota_def quota_decision_def Let_def by (intro keeps_intros)
  then show ?thesis unfolding keeps_def by (rule triple_quota)
qed

end

section \<open>The handlers\<close>

lemma spec_consume_choice_in: "spec_consume_choice x rs = Some r \<Longrightarrow> r \<in> set rs"
  by (auto simp: spec_consume_choice_def last_opt_def split: option.splits if_splits dest: find_SomeD)
    (metis filter_is_subset last_in_set subsetD)

context coordinator_storage
begin

lemma publish_answered:
  assumes "pki_kp_ref input \<notin> R"
  shows "triple rel (\<lambda>_. logged q R) (logged q R) (ad_publish_key_package ops sv now stored input client event)
    (\<lambda>out. answered sv client stored (KpPublish input) q R (KpPublished out))"
  unfolding ad_publish_key_package_def require_non_empty_def
proof (intro gate_bind ensure_bind ok_or_bind parse_bind)
  fix kp_bytes and p :: ParsedKeyPackage and ev :: NostrEvent
  let ?kp = "\<lparr>stable_pubkey = credential_identity p, key_package_bytes = kp_bytes, key_package_ref = pki_kp_ref input,
    is_last_resort = parsed_last_resort p, published_at = stored,
    publication_event = unwrap_or (json_null sv) (event_to_value sv ev)\<rparr>"
  show "triple rel (\<lambda>_. logged q R) (logged q R)
     (abind (enforce_key_package_quota ops (credential_identity p) (parsed_last_resort p)) (\<lambda>_.
      abind (on_coordinator (Coordinator.publish_key_package ops stored
        \<lparr>pk_stable_pubkey = credential_identity p, pk_key_package_bytes = kp_bytes,
         pk_key_package_ref = pki_kp_ref input, pk_is_last_resort = parsed_last_resort p,
         pk_publication_event = unwrap_or (json_null sv) (event_to_value sv ev)\<rparr>)) (\<lambda>record.
      areturn \<lparr>pko_kp_ref = key_package_ref record, pko_last_resort = is_last_resort record,
        pko_at = published_at record\<rparr>)))
     (\<lambda>out. answered sv client stored (KpPublish input) q R (KpPublished out))"
    by (rule triple_bind [OF keeps_quota [of q R, unfolded keeps_def]], rule triple_bind [OF triple_publish [where
        Q = "\<lambda>r a. r = ?kp \<and> logged q (insert (pki_kp_ref input) R) a"]])
      (use assms in \<open>auto simp: logged_def queues_of_def answered_def queue_call_def refs_after_def intro!: triple_return\<close>)
qed auto

lemma list_answered:
  "triple rel (\<lambda>_. logged q R) (logged q R) (ad_list_available_key_packages ops now client)
    (\<lambda>out. answered sv client stored KpList q R (KpListed out))"
  unfolding ad_list_available_key_packages_def
proof (intro gate_bind, rule triple_bind [OF triple_storage [OF list_all_key_packages,
      where Q = "\<lambda>rs a. logged q R a \<and> key_package_ref ` set rs \<subseteq> R"]])
  show "triple rel (\<lambda>_. logged q R) (\<lambda>a. logged q R a \<and> key_package_ref ` set rs \<subseteq> R)
      (areturn \<lparr>lko_key_packages = map available_key_package rs\<rparr>)
      (\<lambda>out. answered sv client stored KpList q R (KpListed out))" for rs :: "'j PublishedKeyPackageRecord list"
    by (auto simp: answered_def queue_call_def refs_after_def available_key_package_def intro!: triple_return)
  fix a and rs :: "'j PublishedKeyPackageRecord list" and xs
  assume a: "logged q R a" "fst (spec_list_all_key_packages a) = Inr xs" "same_elements rs xs"
  then have "set rs = set (sp_key_packages a)"
    by (auto simp: spec_list_all_key_packages_def same_elements_def dest: mset_eq_setD)
  with a show "logged q R (snd (spec_list_all_key_packages a)) \<and> key_package_ref ` set rs \<subseteq> R"
    by (auto simp: logged_def spec_list_all_key_packages_def)
qed (auto simp: Coordinator.list_all_key_packages_def on_storage_same spec_list_all_key_packages_def)

lemma take_answered:
  "triple rel (\<lambda>_. logged q R) (logged q R) (ad_consume_key_package ops sv now input client)
    (\<lambda>out. answered sv client stored (KpTake input) q R (KpTaken out))"
  unfolding ad_consume_key_package_def require_non_empty_def
proof (intro gate_bind ensure_bind)
  let ?Q = "\<lambda>found a. case found of None \<Rightarrow> logged q R a
    | Some r \<Rightarrow> key_package_ref r \<in> R \<and> logged q (if is_last_resort r then R else R - {key_package_ref r}) a"
  show "triple rel (\<lambda>_. logged q R) (logged q R)
     (abind (on_coordinator (Coordinator.consume_key_package ops (cki_id input))) (\<lambda>record. case record of
        None \<Rightarrow> areturn \<lparr>cko_key_package = None\<rparr>
      | Some r \<Rightarrow> abind (consumed_key_package sv r) (\<lambda>kp. areturn \<lparr>cko_key_package = Some kp\<rparr>)))
     (\<lambda>out. answered sv client stored (KpTake input) q R (KpTaken out))"
  proof (rule triple_bind [where R = ?Q])
    show "triple rel (\<lambda>_. logged q R) (logged q R) (on_coordinator (Coordinator.consume_key_package ops (cki_id input))) ?Q"
      unfolding Coordinator.consume_key_package_def
    proof (rule triple_on_storage [OF consume_key_package])
      fix a v and v' :: "'j PublishedKeyPackageRecord option"
      assume a: "logged q R a" "fst (spec_consume_key_package (cki_id input) a) = Inr v'" "v = v'"
      show "?Q v (snd (spec_consume_key_package (cki_id input) a))"
      proof (cases "spec_consume_choice (cki_id input) (sp_key_packages a)")
        case None
        with a show ?thesis by (auto simp: spec_consume_key_package_def)
      next
        case (Some r)
        have "key_package_ref r \<in> R" using a(1) spec_consume_choice_in [OF Some] by (auto simp: logged_def)
        moreover have "spec_consume_key_package (cki_id input) a = (Inr (Some r), spec_take r a)"
          using Some by (simp add: spec_consume_key_package_def)
        ultimately show ?thesis using a by (auto simp: spec_take_def logged_drop_exactly)
      qed
    qed (auto simp: spec_consume_key_package_def split: option.splits)
    fix found :: "'j PublishedKeyPackageRecord option"
    show "triple rel (\<lambda>_. logged q R) (?Q found) (case found of
        None \<Rightarrow> areturn \<lparr>cko_key_package = None\<rparr>
      | Some r \<Rightarrow> abind (consumed_key_package sv r) (\<lambda>kp. areturn \<lparr>cko_key_package = Some kp\<rparr>))
     (\<lambda>out. answered sv client stored (KpTake input) q R (KpTaken out))"
    proof (cases found)
      case None
      then show ?thesis by (auto simp: answered_def queue_call_def refs_after_def intro!: triple_return)
    next
      case (Some r)
      show ?thesis
      proof (cases "event_from_value sv (publication_event r)")
        case (Inl e)
        have "logged q R a" if "?Q found a" for a :: "'j spec_state" using that Some by (auto intro: logged_mono split: if_splits)
        with Some Inl show ?thesis by (auto simp: triple_def consumed_key_package_def abind_def afail_def)
      next
        case (Inr ev)
        have "abind (consumed_key_package sv r) (\<lambda>kp. areturn \<lparr>cko_key_package = Some kp\<rparr>) =
            (areturn \<lparr>cko_key_package = Some \<lparr>ckp_pk = stable_pubkey r, ckp_kp_ref = key_package_ref r,
          ckp_last_resort = is_last_resort r, ckp_at = published_at r, ckp_event = ev\<rparr>\<rparr> :: ('s, _) aop)"
          using Inr by (auto simp: consumed_key_package_def abind_def areturn_def)
        then show ?thesis unfolding Some
          by (auto simp: answered_def queue_call_def refs_after_def intro!: triple_return)
      qed
    qed
  qed
qed auto

lemma remove_answered:
  "triple rel (\<lambda>_. logged q R) (logged q R) (ad_remove_key_packages ops now input client)
    (\<lambda>out. answered sv client stored (KpRemove input) q R (KpRemoved out))"
proof (rule triple_pre)
  fix a :: "'j spec_state"
  assume a: "logged q R a"
  have drop: "logged q (R - set refs) (drop_refs refs a)" for refs
    using a by (auto simp: logged_def queues_of_def drop_refs_def)
  show "triple rel (\<lambda>_. logged q R) (\<lambda>x. x = a) (ad_remove_key_packages ops now input client)
      (\<lambda>out. answered sv client stored (KpRemove input) q R (KpRemoved out))"
    unfolding ad_remove_key_packages_def
  proof (intro gate_bind ensure_bind)
    show "triple rel (\<lambda>_. logged q R) (\<lambda>x. x = a)
       (abind (remove_refs_loop ops client (rki_kp_refs input) []) (\<lambda>removed. areturn \<lparr>rko_kp_refs = removed\<rparr>))
       (\<lambda>out. answered sv client stored (KpRemove input) q R (KpRemoved out))"
    proof (rule triple_bind [OF triple_conseq [OF remove_refs_exact]])
      fix f x assume "removed_prefix client (rki_kp_refs input) a f x"
      then show "logged q R x" using drop by (auto simp: removed_prefix_def intro: logged_mono)
    next
      fix removed :: "string list" and x
      assume "removed = [] @ rki_kp_refs input \<and> x = drop_refs (rki_kp_refs input) a \<and> owned_refs client (rki_kp_refs input) a"
      with a drop show "logged q (R - set removed) x \<and> set removed \<subseteq> R"
        by (fastforce simp: owned_refs_def logged_def)
    qed (auto simp: answered_def queue_call_def refs_after_def intro!: triple_return)
  qed (use a in auto)
qed

end

context coordinator_storage
begin

lemma store_welcome_answered:
  "triple rel (\<lambda>_. logged q R) (logged q R) (ad_store_welcome ops sv now stored input client)
    (\<lambda>out. answered sv client stored (WelcomeStore input) q R (WelcomeStored out))"
  unfolding ad_store_welcome_def require_non_empty_def
proof (intro gate_bind ensure_bind ok_or_bind)
  fix b assume b: "b64_decode sv (swi_welcome_64 input) = Some b"
  let ?w = "new_welcome input b stored"
  let ?Q = "\<lambda>r a. r = ?w \<and> logged (q\<lparr>q_welcomes := q_welcomes q @ [?w]\<rparr>) R a"
  show "triple rel (\<lambda>_. logged q R) (logged q R)
     (abind (on_coordinator (Coordinator.store_welcome ops stored
       \<lparr>sw_target_stable_pubkey = swi_target_pk input, sw_key_package_reference = swi_kp_ref input,
        sw_welcome_bytes = b, sw_join_after_cursor = swi_after input\<rparr>)) (\<lambda>record.
      areturn \<lparr>swo_at = w_created_at record\<rparr>))
     (\<lambda>out. answered sv client stored (WelcomeStore input) q R (WelcomeStored out))"
  proof (rule triple_bind [where R = ?Q])
    show "triple rel (\<lambda>_. logged q R) (logged q R) (on_coordinator (Coordinator.store_welcome ops stored
       \<lparr>sw_target_stable_pubkey = swi_target_pk input, sw_key_package_reference = swi_kp_ref input,
        sw_welcome_bytes = b, sw_join_after_cursor = swi_after input\<rparr>)) ?Q"
      unfolding Coordinator.store_welcome_def
      by (rule triple_on_storage [OF store_welcome])
        (auto simp: spec_store_welcome_def logged_def queues_of_def new_welcome_def)
    show "triple rel (\<lambda>_. logged q R) (?Q r) (areturn \<lparr>swo_at = w_created_at r\<rparr>)
        (\<lambda>out. answered sv client stored (WelcomeStore input) q R (WelcomeStored out))" for r
      using b by (auto simp: answered_def queue_call_def refs_after_def new_welcome_def intro!: triple_return)
  qed
qed auto

lemma take_welcomes_answered:
  "triple rel (\<lambda>_. logged q R) (logged q R) (ad_fetch_pending_welcomes ops sv now input client)
    (\<lambda>out. answered sv client stored (WelcomeTake input) q R (WelcomesTaken out))"
  unfolding ad_fetch_pending_welcomes_def
proof (intro gate_bind)
  let ?ws = "kept_welcomes client input (q_welcomes q)"
  let ?Q = "\<lambda>rs a. rs = filter (\<lambda>r. target_stable_pubkey r = client) ?ws \<and> logged (q\<lparr>q_welcomes := ?ws\<rparr>) R a"
  show "triple rel (\<lambda>_. logged q R) (logged q R)
     (abind (on_coordinator (Coordinator.fetch_pending_welcomes ops client
       (map core_consumed_welcome (unwrap_or [] (fwi_consumed input))))) (\<lambda>records.
      areturn \<lparr>fwo_welcomes = map (pending_welcome sv) records\<rparr>))
     (\<lambda>out. answered sv client stored (WelcomeTake input) q R (WelcomesTaken out))"
  proof (rule triple_bind [where R = ?Q])
    show "triple rel (\<lambda>_. logged q R) (logged q R) (on_coordinator (Coordinator.fetch_pending_welcomes ops client
       (map core_consumed_welcome (unwrap_or [] (fwi_consumed input))))) ?Q"
      unfolding Coordinator.fetch_pending_welcomes_def
      by (rule triple_on_storage [OF fetch_pending_welcomes])
        (auto simp: spec_fetch_pending_welcomes_def Let_def logged_def queues_of_def kept_welcomes_def)
    show "triple rel (\<lambda>_. logged q R) (?Q rs) (areturn \<lparr>fwo_welcomes = map (pending_welcome sv) rs\<rparr>)
        (\<lambda>out. answered sv client stored (WelcomeTake input) q R (WelcomesTaken out))" for rs
      by (auto simp: answered_def queue_call_def refs_after_def intro!: triple_return)
  qed
qed auto

lemma store_join_request_answered:
  "triple rel (\<lambda>_. logged q R) (logged q R) (ad_store_join_request ops now stored input client)
    (\<lambda>out. answered sv client stored (JoinRequestStore input) q R (JoinRequestStored out))"
  unfolding ad_store_join_request_def require_non_empty_def
proof (intro gate_bind ensure_bind, rule triple_bind [OF triple_get [where Q = "\<lambda>_. logged q R"]], assumption,
    assumption, intro ok_or_bind ensure_bind)
  let ?r = "new_request input client stored"
  let ?Q = "\<lambda>r a. r = ?r \<and> logged (q\<lparr>q_requests := with_request ?r (q_requests q)\<rparr>) R a"
  show "triple rel (\<lambda>_. logged q R) (logged q R)
     (abind (on_coordinator (Coordinator.store_join_request ops stored
       \<lparr>sj_group_id = sji_gid input, sj_requester_stable_pubkey = client, sj_key_package_ref = sji_kp_ref input\<rparr>)) (\<lambda>record.
      areturn \<lparr>sjo_at = jr_created_at record\<rparr>))
     (\<lambda>out. answered sv client stored (JoinRequestStore input) q R (JoinRequestStored out))"
  proof (rule triple_bind [where R = ?Q])
    show "triple rel (\<lambda>_. logged q R) (logged q R) (on_coordinator (Coordinator.store_join_request ops stored
       \<lparr>sj_group_id = sji_gid input, sj_requester_stable_pubkey = client, sj_key_package_ref = sji_kp_ref input\<rparr>)) ?Q"
      unfolding Coordinator.store_join_request_def
      by (rule triple_on_storage [OF store_join_request])
        (auto simp: spec_store_join_request_def Let_def logged_def queues_of_def with_request_def new_request_def
          split: if_splits)
    show "triple rel (\<lambda>_. logged q R) (?Q r) (areturn \<lparr>sjo_at = jr_created_at r\<rparr>)
        (\<lambda>out. answered sv client stored (JoinRequestStore input) q R (JoinRequestStored out))" for r
      by (auto simp: answered_def queue_call_def refs_after_def new_request_def intro!: triple_return)
  qed
qed auto

lemma take_join_requests_answered:
  "triple rel (\<lambda>_. logged q R) (logged q R) (ad_fetch_many_pending_join_requests ops now input client)
    (\<lambda>out. answered sv client stored (JoinRequestTakeMany input) q R (JoinRequestsTaken out))"
  unfolding ad_fetch_many_pending_join_requests_def
proof (intro gate_bind ensure_bind)
  let ?rs = "kept_requests input (q_requests q)"
  let ?Q = "\<lambda>rs a. rs = concat (map (\<lambda>g. group_requests (fji_gid g) ?rs) (fmj_groups input)) \<and>
    logged (q\<lparr>q_requests := ?rs\<rparr>) R a"
  show "triple rel (\<lambda>_. logged q R) (logged q R)
     (abind (on_coordinator (Coordinator.fetch_many_pending_join_requests ops (map fji_gid (fmj_groups input))
       (map core_consumed_join_request (unwrap_or [] (fmj_consumed input))))) (\<lambda>records.
      areturn \<lparr>fmo_requests = map join_request_with_group records\<rparr>))
     (\<lambda>out. answered sv client stored (JoinRequestTakeMany input) q R (JoinRequestsTaken out))"
  proof (rule triple_bind [where R = ?Q])
    show "triple rel (\<lambda>_. logged q R) (logged q R) (on_coordinator (Coordinator.fetch_many_pending_join_requests ops
       (map fji_gid (fmj_groups input)) (map core_consumed_join_request (unwrap_or [] (fmj_consumed input))))) ?Q"
      unfolding Coordinator.fetch_many_pending_join_requests_def
      by (rule triple_on_storage [OF fetch_many_pending_join_requests])
        (auto simp: spec_fetch_many_pending_join_requests_def Let_def logged_def queues_of_def kept_requests_def comp_def)
    show "triple rel (\<lambda>_. logged q R) (?Q rs) (areturn \<lparr>fmo_requests = map join_request_with_group rs\<rparr>)
        (\<lambda>out. answered sv client stored (JoinRequestTakeMany input) q R (JoinRequestsTaken out))" for rs
      by (auto simp: answered_def queue_call_def refs_after_def intro!: triple_return)
  qed
qed auto

lemma post_answered:
  assumes "\<And>a :: 'j spec_state. logged q R a \<Longrightarrow> cursor_room (pmi_gid input) a"
  shows "triple rel (\<lambda>_. logged q R) (logged q R) (ad_post_group_message ops sv now stored input client)
    (\<lambda>out. answered sv client stored (MsgPost input) q R (MsgPosted out))"
  unfolding ad_post_group_message_def require_non_empty_def
proof (intro gate_bind ensure_bind ok_or_bind)
  fix b assume b: "b64_decode sv (pmi_msg_64 input) = Some b"
  let ?m = "new_message (pmi_gid input) b stored (q_messages q)"
  let ?Q = "\<lambda>r a. r = ?m \<and> logged (q\<lparr>q_messages := q_messages q @ [?m]\<rparr>) R a"
  show "triple rel (\<lambda>_. logged q R) (logged q R)
     (abind (on_coordinator (Coordinator.post_group_message ops stored
        \<lparr>pm_group_id = pmi_gid input, pm_opaque_message = b\<rparr>)) (\<lambda>record.
      areturn \<lparr>pmo_cursor = cursor record, pmo_gid = gm_group_id record, pmo_at = gm_created_at record\<rparr>))
     (\<lambda>out. answered sv client stored (MsgPost input) q R (MsgPosted out))"
  proof (rule triple_bind [OF triple_post [where Q = ?Q]])
    show "cursor_room (pm_group_id \<lparr>pm_group_id = pmi_gid input, pm_opaque_message = b\<rparr>) a" if "logged q R a" for a :: "'j spec_state"
      using assms [OF that] by simp
    show "triple rel (\<lambda>_. logged q R) (?Q r)
        (areturn \<lparr>pmo_cursor = cursor r, pmo_gid = gm_group_id r, pmo_at = gm_created_at r\<rparr>)
        (\<lambda>out. answered sv client stored (MsgPost input) q R (MsgPosted out))" for r
      using b by (auto simp: answered_def queue_call_def refs_after_def intro!: triple_return)
  qed (auto simp: logged_def queues_of_def new_message_def)
qed auto

lemma fetch_answered:
  "triple rel (\<lambda>_. logged q R) (logged q R) (ad_fetch_many_group_messages ops sv now input client)
    (\<lambda>out. answered sv client stored (MsgFetchMany input) q R (MsgFetched out))"
  unfolding ad_fetch_many_group_messages_def
  by (intro gate_bind ensure_bind triple_bind [OF triple_require_positive]
      triple_bind [OF triple_fetch_many [where Q = "\<lambda>rs a. logged q R a \<and>
        rs = concat (map (\<lambda>g. log_after (fgi_gid g) (fgi_after g) (q_messages q)) (fmg_groups input))"]] triple_return)
    (auto simp: core_fetch_input_def comp_def logged_def queues_of_def answered_def queue_call_def refs_after_def)

text \<open>Every tool, in one statement.\<close>

lemma handle_answered:
  assumes "set (call_refs call) \<inter> R = {}" "\<And>g (a :: 'j spec_state). logged q R a \<Longrightarrow> cursor_room g a"
  shows "triple rel (\<lambda>_. logged q R) (logged q R) (handle ops sv now stored call client event)
    (answered sv client stored call q R)"
proof -
  note step = publish_answered list_answered take_answered remove_answered take_welcomes_answered
    store_welcome_answered store_join_request_answered take_join_requests_answered post_answered fetch_answered
  show ?thesis
    by (cases call; simp only: handle.simps map_output_def; rule triple_bind, rule step, (use assms in \<open>simp; fail\<close>)?,
      rule triple_return, assumption)
qed

end

end
