(* ===== verification/Adapter_Runs.thy ===== *)
theory Adapter_Runs
  imports Adapter_Log
begin

text \<open>
  Runs of tool calls, as their callers see them: the texts posted to a group, the welcomes waiting for
  an identity and the join requests waiting in a group, each computed from the calls and their answers
  alone. Every backend that keeps the storage contract holds exactly these in its queues.
\<close>

section \<open>What callers can compute\<close>

text \<open>The texts of the posts to a group that succeeded.\<close>

definition texts_step :: "string \<Rightarrow> request \<Rightarrow> failure + tool_output \<Rightarrow> string list \<Rightarrow> string list" where
  "texts_step g = (\<lambda>(_, _, _, _, call) r box. case call of
     MsgPost input \<Rightarrow> (case r of Inr _ \<Rightarrow> if pmi_gid input = g then box @ [pmi_msg_64 input] else box | Inl _ \<Rightarrow> box)
   | _ \<Rightarrow> box)"

text \<open>The welcomes of an identity: stored for it, and not acknowledged by it since.\<close>

definition unacknowledged :: "FetchPendingWelcomesInput \<Rightarrow> PendingWelcome list \<Rightarrow> PendingWelcome list" where
  "unacknowledged input = filter (\<lambda>w. \<forall>c \<in> set (unwrap_or [] (fwi_consumed input)).
     \<not> (cwr_kp_ref c = pw_kp_ref w \<and> cwr_at c = pw_at w))"

definition inbox_step :: "string \<Rightarrow> request \<Rightarrow> failure + tool_output \<Rightarrow> PendingWelcome list \<Rightarrow> PendingWelcome list" where
  "inbox_step p = (\<lambda>(client, _, _, _, call) r box. case call of
     WelcomeStore input \<Rightarrow> (case r of
         Inr (WelcomeStored out) \<Rightarrow> if swi_target_pk input = p
           then box @ [\<lparr>pw_kp_ref = swi_kp_ref input, pw_welcome_64 = swi_welcome_64 input, pw_at = swo_at out, pw_after = swi_after input\<rparr>]
           else box
       | _ \<Rightarrow> box)
   | WelcomeTake input \<Rightarrow> (case r of Inr _ \<Rightarrow> if client = p then unacknowledged input box else box | Inl _ \<Rightarrow> box)
   | _ \<Rightarrow> box)"

text \<open>The join requests of a group: one for each requester, the latest, in the place of the first.\<close>

definition enter_request :: "JoinRequestWithGroup \<Rightarrow> JoinRequestWithGroup list \<Rightarrow> JoinRequestWithGroup list" where
  "enter_request r box = (if jrg_pk r \<in> jrg_pk ` set box then map (\<lambda>x. if jrg_pk x = jrg_pk r then r else x) box else box @ [r])"

definition unresolved :: "FetchManyPendingJoinRequestsInput \<Rightarrow> string \<Rightarrow> JoinRequestWithGroup list \<Rightarrow> JoinRequestWithGroup list" where
  "unresolved input g box = (if g \<in> fji_gid ` set (fmj_groups input)
     then filter (\<lambda>r. \<forall>c \<in> set (unwrap_or [] (fmj_consumed input)). \<not> (cjg_gid c = g \<and> cjg_pk c = jrg_pk r \<and> cjg_at c = jrg_at r)) box
     else box)"

definition lobby_step :: "string \<Rightarrow> request \<Rightarrow> failure + tool_output \<Rightarrow> JoinRequestWithGroup list \<Rightarrow> JoinRequestWithGroup list" where
  "lobby_step g = (\<lambda>(client, _, _, _, call) r box. case call of
     JoinRequestStore input \<Rightarrow> (case r of
         Inr (JoinRequestStored out) \<Rightarrow> if sji_gid input = g
           then enter_request \<lparr>jrg_pk = client, jrg_kp_ref = sji_kp_ref input, jrg_at = sjo_at out, jrg_gid = g\<rparr> box
           else box
       | _ \<Rightarrow> box)
   | JoinRequestTakeMany input \<Rightarrow> (case r of Inr _ \<Rightarrow> unresolved input g box | Inl _ \<Rightarrow> box)
   | _ \<Rightarrow> box)"

fun over_run :: "(request \<Rightarrow> failure + tool_output \<Rightarrow> 'b \<Rightarrow> 'b) \<Rightarrow> request list \<Rightarrow> (failure + tool_output) list \<Rightarrow> 'b \<Rightarrow> 'b" where
  "over_run f (call # calls) (r # rs) box = over_run f calls rs (f call r box)"
| "over_run f calls rs box = box"

definition posted_texts :: "string \<Rightarrow> request list \<Rightarrow> (failure + tool_output) list \<Rightarrow> string list" where
  "posted_texts g calls rs = over_run (texts_step g) calls rs []"

definition inbox :: "string \<Rightarrow> request list \<Rightarrow> (failure + tool_output) list \<Rightarrow> PendingWelcome list" where
  "inbox p calls rs = over_run (inbox_step p) calls rs []"

definition lobby :: "string \<Rightarrow> request list \<Rightarrow> (failure + tool_output) list \<Rightarrow> JoinRequestWithGroup list" where
  "lobby g calls rs = over_run (lobby_step g) calls rs []"

section \<open>The queues of a run\<close>

fun queue_run :: "'j services \<Rightarrow> request list \<Rightarrow> (failure + tool_output) list \<Rightarrow> queues \<Rightarrow> queues \<Rightarrow> bool" where
  "queue_run sv ((client, _, _, stored, call) # calls) (Inr out # rs) q q' \<longleftrightarrow>
     (\<exists>q1. queue_call sv client stored call q out q1 \<and> queue_run sv calls rs q1 q')"
| "queue_run sv (_ # calls) (Inl _ # rs) q q' \<longleftrightarrow> queue_run sv calls rs q q'"
| "queue_run sv calls rs q q' \<longleftrightarrow> calls = [] \<and> rs = [] \<and> q' = q"

fun refs_run :: "string set \<Rightarrow> (failure + tool_output) list \<Rightarrow> bool" where
  "refs_run R (Inr out # rs) \<longleftrightarrow> set (offered out) \<union> set (retired out) \<subseteq> R \<and> refs_run (refs_after R out) rs"
| "refs_run R (Inl _ # rs) \<longleftrightarrow> refs_run R rs"
| "refs_run R [] \<longleftrightarrow> True"

definition published_by :: "failure + tool_output \<Rightarrow> string list" where
  "published_by r = (case r of Inl _ \<Rightarrow> [] | Inr out \<Rightarrow> published out)"

definition offered_by :: "failure + tool_output \<Rightarrow> string list" where
  "offered_by r = (case r of Inl _ \<Rightarrow> [] | Inr out \<Rightarrow> offered out)"

definition retired_by :: "failure + tool_output \<Rightarrow> string list" where
  "retired_by r = (case r of Inl _ \<Rightarrow> [] | Inr out \<Rightarrow> retired out)"

lemmas refs_by_defs = published_by_def offered_by_def retired_by_def

definition log_room :: "queues \<Rightarrow> nat \<Rightarrow> bool" where
  "log_room q n \<longleftrightarrow> (\<forall>g. int (length (group_log g (q_messages q))) + int n + 2 \<le> 2 ^ 63)"

lemma log_room_less:
  assumes "log_room q (Suc n)" "\<And>g. length (group_log g (q_messages q')) \<le> Suc (length (group_log g (q_messages q)))"
  shows "log_room q' n"
  unfolding log_room_def
proof
  fix g
  have "int (length (group_log g (q_messages q))) + int (Suc n) + 2 \<le> 2 ^ 63" using assms(1) by (simp only: log_room_def)
  with assms(2) [of g] show "int (length (group_log g (q_messages q'))) + int n + 2 \<le> 2 ^ 63" by simp
qed

lemma queue_call_room: "log_room q (Suc n) \<Longrightarrow> queue_call sv client stored call q out q' \<Longrightarrow> log_room q' n"
  by (erule log_room_less, cases call) (auto simp: queue_call_def)

lemma queue_run_room: "queue_run sv calls rs q q' \<Longrightarrow> log_room q (length calls + n) \<Longrightarrow> log_room q' n"
proof (induction sv calls rs q q' rule: queue_run.induct)
  case (1 sv client event now stored call calls out rs q q')
  then show ?case using queue_call_room by fastforce
next
  case (2 sv c calls e rs q q')
  then show ?case using log_room_less [of q "length calls + n" q] by simp
qed simp_all

context coordinator_storage
begin

lemma handle_log:
  assumes "rel (store_of ad) a" "logged q R a" "set (call_refs call) \<inter> R = {}" "log_room q (Suc n)"
    and "handle ops sv now stored call client event ad = (r, ad1)"
  shows "\<exists>a1. rel (store_of ad1) a1 \<and> (case r of
      Inl _ \<Rightarrow> logged q R a1
    | Inr out \<Rightarrow> answered sv client stored call q R out a1)"
proof -
  have room: "cursor_room g x" if "logged q R x" for g and x :: "'j spec_state"
    using assms(4) that by (auto simp: cursor_room_def logged_def queues_of_def log_room_def algebra_simps dest: spec [of _ g])
  note step = handle_answered [OF assms(3) room, where sv = sv and now = now and stored = stored and client = client and event = event]
  then show ?thesis
    using tripleD_Inl [OF step assms(1,2)] tripleD_Inr [OF step assms(1,2)] assms(5) by (cases r) auto
qed

lemma serve_all_log:
  assumes "rel (store_of ad) a" "logged q R a" "distinct (request_refs calls)" "R \<inter> set (request_refs calls) = {}"
    and "log_room q (length calls)" and "serve_all ops sv calls ad = (rs, ad')"
  shows "\<exists>a' q' R'. rel (store_of ad') a' \<and> logged q' R' a' \<and> queue_run sv calls rs q q' \<and> refs_run R rs \<and>
    list_all2 (\<lambda>(_, _, _, _, call) r. set (published_by r) \<subseteq> set (call_refs call)) calls rs \<and>
    R' \<subseteq> R \<union> set (request_refs calls)"
  using assms
proof (induction calls arbitrary: ad a q R rs)
  case Nil
  then show ?case by auto
next
  case (Cons c calls)
  obtain client event now stored call where c: "c = (client, event, now, stored, call)" by (cases c)
  obtain r ad1 where r: "handle ops sv now stored call client event ad = (r, ad1)" by force
  obtain rs' where rs: "serve_all ops sv calls ad1 = (rs', ad')" "rs = r # rs'"
    using Cons.prems(6) r by (auto simp: c split: prod.splits)
  have refs: "set (call_refs call) \<inter> R = {}" "distinct (request_refs calls)"
    "(R \<union> set (call_refs call)) \<inter> set (request_refs calls) = {}"
    using Cons.prems(3,4) unfolding c request_refs_Cons by auto
  have room: "log_room q (Suc (length calls))" using Cons.prems(5) by simp
  from handle_log [OF Cons.prems(1,2) refs(1) room r] obtain a1 where a1: "rel (store_of ad1) a1"
    "case r of Inl _ \<Rightarrow> logged q R a1 | Inr out \<Rightarrow> answered sv client stored call q R out a1" by blast
  show ?case
  proof (cases r)
    case (Inl f)
    have "R \<inter> set (request_refs calls) = {}" "log_room q (length calls)"
      using refs(3) log_room_less [OF room, of q] by auto
    from Cons.IH [OF a1(1) _ refs(2) this rs(1)] a1(2) Inl obtain a' q' R' where
      "rel (store_of ad') a'" "logged q' R' a'" "queue_run sv calls rs' q q'" "refs_run R rs'"
      "list_all2 (\<lambda>(_, _, _, _, call) r. set (published_by r) \<subseteq> set (call_refs call)) calls rs'"
      "R' \<subseteq> R \<union> set (request_refs calls)" by auto
    with Inl show ?thesis
      by (intro exI [of _ a'] exI [of _ q'] exI [of _ R']) (auto simp: c rs(2) published_by_def request_refs_Cons)
  next
    case (Inr out)
    then obtain q1 where q1: "queue_call sv client stored call q out q1" "set (offered out) \<union> set (retired out) \<subseteq> R"
      "set (published out) \<subseteq> set (call_refs call)" "logged q1 (refs_after R out) a1"
      using a1(2) by (auto simp: answered_def)
    have "refs_after R out \<inter> set (request_refs calls) = {}" using refs(3) q1(3) by (auto simp: refs_after_def)
    from Cons.IH [OF a1(1) q1(4) refs(2) this queue_call_room [OF room q1(1)] rs(1)] obtain a' q' R' where
      "rel (store_of ad') a'" "logged q' R' a'" "queue_run sv calls rs' q1 q'" "refs_run (refs_after R out) rs'"
      "list_all2 (\<lambda>(_, _, _, _, call) r. set (published_by r) \<subseteq> set (call_refs call)) calls rs'"
      "R' \<subseteq> refs_after R out \<union> set (request_refs calls)" by blast
    moreover have "refs_after R out \<subseteq> R \<union> set (call_refs call)" using q1(3) by (auto simp: refs_after_def)
    ultimately show ?thesis using q1 Inr
      by (intro exI [of _ a'] exI [of _ q'] exI [of _ R']) (auto simp: c rs(2) published_by_def request_refs_Cons)
  qed
qed

end

section \<open>What the queues show\<close>

abbreviation texts :: "'j services \<Rightarrow> string \<Rightarrow> queues \<Rightarrow> string list" where
  "texts sv g q \<equiv> map (\<lambda>m. b64_encode sv (opaque_message m)) (group_log g (q_messages q))"

abbreviation welcomes_of :: "'j services \<Rightarrow> string \<Rightarrow> queues \<Rightarrow> PendingWelcome list" where
  "welcomes_of sv p q \<equiv> map (pending_welcome sv) (filter (\<lambda>r. target_stable_pubkey r = p) (q_welcomes q))"

abbreviation requests_of :: "string \<Rightarrow> queues \<Rightarrow> JoinRequestWithGroup list" where
  "requests_of g q \<equiv> map join_request_with_group (group_requests g (q_requests q))"

lemma queue_run_view:
  assumes step: "\<And>client event now stored call q out q'. queue_call sv client stored call q out q' \<Longrightarrow>
      view q' = f (client, event, now, stored, call) (Inr out) (view q)"
    and fail: "\<And>c e box. f c (Inl e) box = box"
  shows "queue_run sv calls rs q q' \<Longrightarrow> view q' = over_run f calls rs (view q)"
proof (induction calls arbitrary: rs q)
  case (Cons c calls)
  obtain client event now stored call where c: "c = (client, event, now, stored, call)" by (cases c)
  obtain r rs' where rs: "rs = r # rs'" using Cons.prems by (cases rs) auto
  show ?case
  proof (cases r)
    case (Inl e)
    with Cons rs show ?thesis by (simp add: fail)
  next
    case (Inr out)
    then obtain q1 where "queue_call sv client stored call q out q1" "queue_run sv calls rs' q1 q'"
      using Cons.prems by (auto simp: rs c)
    with step [OF this(1), of event now] Cons.IH Inr show ?thesis by (simp add: rs c)
  qed
qed (cases rs; simp)

lemma texts_step:
  assumes codec: "\<And>s b. b64_decode sv s = Some b \<Longrightarrow> b64_encode sv b = s"
    and "queue_call sv client stored call q out q'"
  shows "texts sv g q' = texts_step g (client, event, now, stored, call) (Inr out) (texts sv g q)"
  using assms(2) by (cases call) (auto simp: queue_call_def texts_step_def new_message_def codec)

lemma filter_pending_welcome:
  "filter (\<lambda>w. \<forall>c \<in> set cs. \<not> (cwr_kp_ref c = pw_kp_ref w \<and> cwr_at c = pw_at w)) (map (pending_welcome sv) ws) =
   map (pending_welcome sv) (filter (\<lambda>r. \<not> welcome_consumed (map core_consumed_welcome cs) r) ws)"
  by (auto simp: filter_map comp_def welcome_consumed_def pending_welcome_def core_consumed_welcome_def
      intro!: arg_cong [where f = "map (pending_welcome sv)"] filter_cong)

lemma kept_welcomes_view:
  "welcomes_of sv p (q\<lparr>q_welcomes := kept_welcomes client input (q_welcomes q)\<rparr>) =
     (if client = p then unacknowledged input (welcomes_of sv p q) else welcomes_of sv p q)"
  unfolding unacknowledged_def filter_pending_welcome
  by (auto simp: kept_welcomes_def conj_commute intro!: arg_cong [where f = "map (pending_welcome sv)"] filter_cong)

lemma inbox_step:
  assumes codec: "\<And>s b. b64_decode sv s = Some b \<Longrightarrow> b64_encode sv b = s"
    and "queue_call sv client stored call q out q'"
  shows "welcomes_of sv p q' = inbox_step p (client, event, now, stored, call) (Inr out) (welcomes_of sv p q)"
proof (cases call)
  case (WelcomeTake input)
  with assms(2) have "q' = q\<lparr>q_welcomes := kept_welcomes client input (q_welcomes q)\<rparr>" by (simp add: queue_call_def)
  then show ?thesis unfolding WelcomeTake by (simp only: kept_welcomes_view) (simp add: inbox_step_def)
qed (use assms(2) in \<open>auto simp: queue_call_def inbox_step_def new_welcome_def pending_welcome_def codec\<close>)

lemma with_request_view:
  "requests_of g (q\<lparr>q_requests := with_request (new_request input client stored) (q_requests q)\<rparr>) =
     (if sji_gid input = g
      then enter_request \<lparr>jrg_pk = client, jrg_kp_ref = sji_kp_ref input, jrg_at = stored, jrg_gid = g\<rparr> (requests_of g q)
      else requests_of g q)"
proof -
  let ?r = "new_request input client stored" and ?x = "\<lparr>jrg_pk = client, jrg_kp_ref = sji_kp_ref input, jrg_at = stored, jrg_gid = g\<rparr>"
  have refreshed: "map join_request_with_group (group_requests g (map (\<lambda>x. if same_request ?r x then refresh_request ?r x else x) rs)) =
      (if sji_gid input = g then map (\<lambda>x. if jrg_pk x = client then ?x else x) (map join_request_with_group (group_requests g rs))
       else map join_request_with_group (group_requests g rs))" for rs
    by (induction rs) (auto simp: same_request_def refresh_request_def new_request_def join_request_with_group_def)
  have known: "(\<exists>x \<in> set (q_requests q). same_request ?r x) \<longleftrightarrow> client \<in> jrg_pk ` set (requests_of (sji_gid input) q)"
    by (force simp: same_request_def new_request_def join_request_with_group_def)
  show ?thesis
  proof (cases "client \<in> jrg_pk ` set (requests_of (sji_gid input) q)")
    case True
    then have "with_request ?r (q_requests q) = map (\<lambda>x. if same_request ?r x then refresh_request ?r x else x) (q_requests q)"
      unfolding with_request_def known by (simp only: if_True)
    then have "requests_of g (q\<lparr>q_requests := with_request ?r (q_requests q)\<rparr>) =
        (if sji_gid input = g then map (\<lambda>x. if jrg_pk x = client then ?x else x) (requests_of g q) else requests_of g q)"
      unfolding refreshed [symmetric] by simp
    with True show ?thesis by (auto simp: enter_request_def simp del: set_map map_map)
  next
    case False
    then have "with_request ?r (q_requests q) = q_requests q @ [?r]"
      unfolding with_request_def known by (simp only: if_False)
    then have "requests_of g (q\<lparr>q_requests := with_request ?r (q_requests q)\<rparr>) =
        (if sji_gid input = g then requests_of g q @ [?x] else requests_of g q)"
      by (simp add: new_request_def join_request_with_group_def)
    with False show ?thesis by (auto simp: enter_request_def simp del: set_map map_map)
  qed
qed

lemma kept_requests_view:
  "requests_of g (q\<lparr>q_requests := kept_requests input (q_requests q)\<rparr>) = unresolved input g (requests_of g q)"
  by (auto simp: unresolved_def kept_requests_def filter_map comp_def join_request_consumed_def consumed_in_group_def
      consumed_ref_def core_consumed_join_request_def join_request_with_group_def
      intro!: arg_cong [where f = "map join_request_with_group"] filter_cong)

lemma lobby_step:
  assumes "queue_call sv client stored call q out q'"
  shows "requests_of g q' = lobby_step g (client, event, now, stored, call) (Inr out) (requests_of g q)"
proof (cases call)
  case (JoinRequestStore input)
  with assms have "q' = q\<lparr>q_requests := with_request (new_request input client stored) (q_requests q)\<rparr>"
    "out = JoinRequestStored \<lparr>sjo_at = stored\<rparr>" by (simp_all add: queue_call_def)
  then show ?thesis unfolding JoinRequestStore by (simp only: with_request_view) (simp add: lobby_step_def)
next
  case (JoinRequestTakeMany input)
  with assms have "q' = q\<lparr>q_requests := kept_requests input (q_requests q)\<rparr>" by (simp add: queue_call_def)
  then show ?thesis unfolding JoinRequestTakeMany by (simp only: kept_requests_view) (simp add: lobby_step_def)
qed (use assms in \<open>auto simp: queue_call_def lobby_step_def\<close>)

lemma step_fails:
  "texts_step g c (Inl e) box = box" "inbox_step p c (Inl e) box' = box'" "lobby_step g c (Inl e) box'' = box''"
  by (auto simp: texts_step_def inbox_step_def lobby_step_def split: prod.split tool_call.split)

lemma queue_run_views:
  assumes "queue_run sv calls rs no_queues q"
  shows "(\<And>s b. b64_decode sv s = Some b \<Longrightarrow> b64_encode sv b = s) \<Longrightarrow> texts sv g q = posted_texts g calls rs"
    "(\<And>s b. b64_decode sv s = Some b \<Longrightarrow> b64_encode sv b = s) \<Longrightarrow> welcomes_of sv p q = inbox p calls rs"
    "requests_of g q = lobby g calls rs"
proof -
  show "texts sv g q = posted_texts g calls rs" if "\<And>s b. b64_decode sv s = Some b \<Longrightarrow> b64_encode sv b = s"
    using queue_run_view [where view = "texts sv g" and f = "texts_step g", OF texts_step [OF that] step_fails(1) assms]
    by (simp add: posted_texts_def no_queues_def)
  show "welcomes_of sv p q = inbox p calls rs" if "\<And>s b. b64_decode sv s = Some b \<Longrightarrow> b64_encode sv b = s"
    using queue_run_view [where view = "welcomes_of sv p" and f = "inbox_step p", OF inbox_step [OF that] step_fails(2) assms]
    by (simp add: inbox_def no_queues_def)
  show "requests_of g q = lobby g calls rs"
    using queue_run_view [where view = "requests_of g" and f = "lobby_step g", OF lobby_step step_fails(3) assms]
    by (simp add: lobby_def no_queues_def)
qed

section \<open>Which references a run hands out\<close>

lemma refs_run_Cons: "refs_run R (r # rs) \<Longrightarrow> set (offered_by r) \<union> set (retired_by r) \<subseteq> R \<and>
    refs_run ((R \<union> set (published_by r)) - set (retired_by r)) rs"
  by (cases r) (auto simp: refs_by_defs refs_after_def)

lemma refs_run_offered:
  "refs_run R rs \<Longrightarrow> j < length rs \<Longrightarrow> x \<in> set (offered_by (rs ! j)) \<Longrightarrow> x \<notin> R \<Longrightarrow> \<exists>i<j. x \<in> set (published_by (rs ! i))"
proof (induction rs arbitrary: R j)
  case (Cons r rs)
  note step = refs_run_Cons [OF Cons.prems(1)]
  show ?case
  proof (cases j)
    case 0
    with Cons.prems step show ?thesis by auto
  next
    case (Suc k)
    show ?thesis
    proof (cases "x \<in> set (published_by r)")
      case True
      with Suc show ?thesis by (intro exI [of _ 0]) simp
    next
      case False
      then have "x \<notin> (R \<union> set (published_by r)) - set (retired_by r)" using Cons.prems(4) by simp
      from Cons.IH [OF conjunct2 [OF step] _ _ this, of k] Cons.prems Suc obtain i where "i < k" "x \<in> set (published_by (rs ! i))"
        by auto
      with Suc show ?thesis by (intro exI [of _ "Suc i"]) simp
    qed
  qed
qed simp

lemma published_requested:
  "list_all2 (\<lambda>(_, _, _, _, call) r. set (published_by r) \<subseteq> set (call_refs call)) calls rs \<Longrightarrow> i < length rs \<Longrightarrow>
     set (published_by (rs ! i)) \<subseteq> set (request_refs calls)"
proof (induction arbitrary: i rule: list_all2_induct)
  case (Cons c calls r rs)
  obtain client event now stored call where c: "c = (client, event, now, stored, call)" by (cases c)
  from Cons show ?case by (cases i) (auto simp: c request_refs_Cons)
qed simp

lemma refs_run_retired:
  assumes "refs_run R rs" "list_all2 (\<lambda>(_, _, _, _, call) r. set (published_by r) \<subseteq> set (call_refs call)) calls rs"
    "distinct (request_refs calls)" "R \<inter> set (request_refs calls) = {}" "i < j" "j < length rs" "x \<in> set (retired_by (rs ! i))"
  shows "x \<notin> set (offered_by (rs ! j))"
  using assms
proof (induction rs arbitrary: calls R i j)
  case (Cons r rs)
  obtain client event now stored call calls' where c: "calls = (client, event, now, stored, call) # calls'"
    "set (published_by r) \<subseteq> set (call_refs call)"
    "list_all2 (\<lambda>(_, _, _, _, call) r. set (published_by r) \<subseteq> set (call_refs call)) calls' rs"
    using Cons.prems(2) by (auto simp: list_all2_Cons2)
  note step = refs_run_Cons [OF Cons.prems(1)]
  have fresh: "(R \<union> set (call_refs call)) \<inter> set (request_refs calls') = {}" "distinct (request_refs calls')"
    using Cons.prems(3,4) unfolding c request_refs_Cons by auto
  let ?R = "(R \<union> set (published_by r)) - set (retired_by r)"
  obtain k where k: "j = Suc k" "k < length rs" using Cons.prems(5,6) by (cases j) auto
  show ?case
  proof (cases i)
    case 0
    then have x: "x \<in> R" "x \<notin> ?R" using step Cons.prems(7) by auto
    have "x \<notin> set (published_by (rs ! i))" if "i < k" for i
    proof -
      have "set (published_by (rs ! i)) \<subseteq> set (request_refs calls')"
        by (rule published_requested [OF c(3)]) (use that k(2) in simp)
      moreover have "x \<notin> set (request_refs calls')" using x(1) fresh(1) by blast
      ultimately show ?thesis by blast
    qed
    moreover have "\<exists>i<k. x \<in> set (published_by (rs ! i))" if "x \<in> set (offered_by (rs ! k))"
      by (rule refs_run_offered [OF conjunct2 [OF step] k(2) that x(2)])
    ultimately show ?thesis unfolding k(1) nth_Cons_Suc by blast
  next
    case (Suc m)
    have "?R \<inter> set (request_refs calls') = {}" using fresh(1) c(2) by auto
    from Cons.IH [OF conjunct2 [OF step] c(3) fresh(2) this, of m k] Suc k Cons.prems(5,7) show ?thesis by simp
  qed
qed simp

section \<open>A fetch after a run\<close>

lemma map_zip_map: "map (\<lambda>(i, t). (i, g, t)) (zip (map f xs) (map h xs)) = map (\<lambda>m. (f m, g, h m)) xs"
  by (induction xs) auto

lemma log_texts_numbered:
  assumes "contiguous (q_messages q)"
  shows "map (\<lambda>m. (gmw_cursor m, gmw_gid m, gmw_msg_64 m)) (map (wire_message_struct sv) (log_after g None (q_messages q))) =
    map (\<lambda>(i, t). (i, g, t)) (zip (map int [1..<Suc (length (texts sv g q))]) (texts sv g q))"
proof -
  let ?ms = "q_messages q"
  have all: "log_after g None ?ms = group_log g ?ms"
    unfolding log_after_alt using contiguous_cursor_bounds [OF assms, of _ g] by (intro filter_True) fastforce
  have "map (\<lambda>(i, t). (i, g, t)) (zip (map cursor (group_log g ?ms)) (texts sv g q)) =
      map (\<lambda>m. (cursor m, g, b64_encode sv (opaque_message m))) (group_log g ?ms)"
    by (rule map_zip_map [where h = "\<lambda>m. b64_encode sv (opaque_message m)" and f = cursor])
  moreover have "map cursor (group_log g ?ms) = map int [1..<Suc (length (texts sv g q))]"
    using assms unfolding contiguous_def by simp
  ultimately show ?thesis unfolding all by (simp add: wire_message_struct_def comp_def)
qed

context coordinator_storage
begin

text \<open>From an empty store: the queues after a run, and what a further call answers.\<close>

lemma run_then_call:
  assumes "rel (store_of ad) spec_empty" "distinct (request_refs calls)" "int (length calls) + 2 < 2 ^ 63"
    and "serve_all ops sv calls ad = (rs, ad1)"
    and "set (call_refs call) \<inter> set (request_refs calls) = {}" "handle ops sv now stored call client event ad1 = (Inr out, ad2)"
  obtains q q' where "queue_run sv calls rs no_queues q" "contiguous (q_messages q)" "queue_call sv client stored call q out q'"
proof -
  have start: "logged no_queues {} spec_empty" "log_room no_queues (Suc (length calls))"
    using assms(3) by (simp_all add: logged_def queues_of_def no_queues_def spec_empty_def log_room_def)
  have run: "log_room no_queues (length calls)" using start(2) by (rule log_room_less) simp
  obtain a q R where a: "rel (store_of ad1) a" "logged q R a" "queue_run sv calls rs no_queues q"
    "R \<subseteq> {} \<union> set (request_refs calls)"
    using serve_all_log [OF assms(1) start(1) assms(2) _ run assms(4)] by auto
  have room: "log_room q (Suc 0)" by (rule queue_run_room [OF a(3)]) (use start(2) in simp)
  have "set (call_refs call) \<inter> R = {}" using assms(5) a(4) by auto
  from handle_log [OF a(1,2) this room assms(6)] obtain q' where "queue_call sv client stored call q out q'"
    by (auto simp: answered_def)
  moreover have "contiguous (q_messages q)" using rel_inv [OF a(1)] a(2) by (auto simp: spec_inv_def logged_def queues_of_def)
  ultimately show thesis using that a(3) by blast
qed

end

end
