(* ===== verification/Adapter_Refine.thy ===== *)
theory Adapter_Refine
  imports Adapter_Runs
begin

text \<open>
  The tools over a storage backend refine the tools over the storage specification: while the
  backend's engine is reliable, a call answers the same, up to the order of \<^verbatim>\<open>kp_list\<close>, and leaves related
  states. \<open>sim P eq m m' Q\<close> is that simulation, from abstract states in \<open>P\<close> to ones in \<open>Q\<close>.
\<close>

section \<open>Simulation\<close>

definition related :: "('s \<Rightarrow> 'j spec_state \<Rightarrow> bool) \<Rightarrow> ('s \<Rightarrow> bool) \<Rightarrow> 's CoordinatorAdapter \<Rightarrow>
    'j spec_state CoordinatorAdapter \<Rightarrow> bool" where
  "related rel reliable ad sp \<longleftrightarrow> rel (store_of ad) (store_of sp) \<and> reliable (store_of ad) \<and>
     inner (coordinator ad) = inner (coordinator sp) \<and> rate_limiter ad = rate_limiter sp \<and> abuse ad = abuse sp"

definition sim :: "('s \<Rightarrow> 'j spec_state \<Rightarrow> bool) \<Rightarrow> ('s \<Rightarrow> bool) \<Rightarrow> ('j spec_state \<Rightarrow> bool) \<Rightarrow> ('x \<Rightarrow> 'y \<Rightarrow> bool) \<Rightarrow>
    ('s, 'x) aop \<Rightarrow> ('j spec_state, 'y) aop \<Rightarrow> ('j spec_state \<Rightarrow> bool) \<Rightarrow> bool" where
  "sim rel reliable P eq m m' Q \<longleftrightarrow> (\<forall>ad sp. related rel reliable ad sp \<longrightarrow> P (store_of sp) \<longrightarrow>
     rel_sum (=) eq (fst (m ad)) (fst (m' sp)) \<and> related rel reliable (snd (m ad)) (snd (m' sp)) \<and>
     ((\<exists>x. fst (m' sp) = Inr x) \<longrightarrow> Q (store_of (snd (m' sp)))))"

lemma simI:
  assumes "\<And>ad sp. related rel reliable ad sp \<Longrightarrow> P (store_of sp) \<Longrightarrow>
     rel_sum (=) eq (fst (m ad)) (fst (m' sp)) \<and> related rel reliable (snd (m ad)) (snd (m' sp)) \<and>
     ((\<exists>x. fst (m' sp) = Inr x) \<longrightarrow> Q (store_of (snd (m' sp))))"
  shows "sim rel reliable P eq m m' Q"
  using assms unfolding sim_def by blast

lemma simD:
  assumes "sim rel reliable P eq m m' Q" "related rel reliable ad sp" "P (store_of sp)"
  shows "rel_sum (=) eq (fst (m ad)) (fst (m' sp))" "related rel reliable (snd (m ad)) (snd (m' sp))"
    "fst (m' sp) = Inr x \<Longrightarrow> Q (store_of (snd (m' sp)))"
  using assms unfolding sim_def by blast+

lemma sim_bind:
  assumes m: "sim rel reliable P eq m m' Q" and f: "\<And>x y. eq x y \<Longrightarrow> sim rel reliable Q eq2 (f x) (f' y) R"
  shows "sim rel reliable P eq2 (abind m f) (abind m' f') R"
proof (rule simI)
  fix ad sp assume rel: "related rel reliable ad sp" "P (store_of sp)"
  obtain r ad1 r' sp1 where run: "m ad = (r, ad1)" "m' sp = (r', sp1)" by force
  note one = simD [OF m rel, unfolded run fst_conv snd_conv]
  from one(1) show "rel_sum (=) eq2 (fst (abind m f ad)) (fst (abind m' f' sp)) \<and>
     related rel reliable (snd (abind m f ad)) (snd (abind m' f' sp)) \<and>
     ((\<exists>x. fst (abind m' f' sp) = Inr x) \<longrightarrow> R (store_of (snd (abind m' f' sp))))"
  proof (cases rule: rel_sum.cases)
    case (1 e e')
    with run one(2) show ?thesis by (auto simp: abind_def rel_sum.simps)
  next
    case (2 x y)
    from simD [OF f [OF 2(3)] one(2) one(3) [OF 2(2)]] run 2 show ?thesis by (auto simp: abind_def)
  qed
qed

lemma sim_return: "eq x y \<Longrightarrow> sim rel reliable P eq (areturn x) (areturn y) P"
  by (auto simp: sim_def areturn_def)

lemma sim_fail: "sim rel reliable P eq (afail e) (afail e) Q"
  by (auto simp: sim_def afail_def rel_sum.simps)

lemma sim_ensure: "sim rel reliable P (=) (ensure ok e) (ensure ok e) P"
  by (auto simp: sim_def ensure_def areturn_def afail_def rel_sum.simps)

lemma sim_ok_or: "sim rel reliable P (=) (ok_or v e) (ok_or v e) P"
  by (auto simp: sim_def ok_or_def areturn_def afail_def rel_sum.simps split: option.split)

lemma sim_gate: "sim rel reliable P (=) (assert_within_rate_limit client now) (assert_within_rate_limit client now) P"
  by (auto simp: sim_def related_def assert_within_rate_limit_def abind_def afail_def log_rejection_def split_def Let_def rel_sum.simps)

lemma sim_reject: "sim rel reliable P (=) (reject_quota pk) (reject_quota pk) Q"
  by (auto simp: sim_def related_def reject_quota_def abind_def afail_def log_rejection_def rel_sum.simps)

lemma sim_conseq:
  "sim rel reliable P eq m m' Q \<Longrightarrow> (\<And>a. P' a \<Longrightarrow> P a) \<Longrightarrow> (\<And>a. Q a \<Longrightarrow> Q' a) \<Longrightarrow> sim rel reliable P' eq m m' Q'"
  unfolding sim_def by blast

lemma sim_same_bind:
  "sim rel reliable P (=) m m' Q \<Longrightarrow> (\<And>x. sim rel reliable Q eq (f x) (f' x) R) \<Longrightarrow> sim rel reliable P eq (abind m f) (abind m' f') R"
  by (erule sim_bind) simp

lemma sim_storage:
  assumes "\<And>s a. rel s a \<Longrightarrow> P a \<Longrightarrow> refines eq rel reliable m f s a" "\<And>a. P a \<Longrightarrow> Q (snd (f a))"
  shows "sim rel reliable P eq (on_coordinator (on_storage m)) (on_coordinator (on_storage f)) Q"
proof (rule simI)
  fix ad sp assume rel: "related rel reliable ad sp" "P (store_of sp)"
  then have "rel (store_of ad) (store_of sp)" "reliable (store_of ad)" by (simp_all add: related_def)
  note step = refines_reliable [OF assms(1) [OF this(1) rel(2)] this(2)]
  from step(1) show "rel_sum (=) eq (fst (on_coordinator (on_storage m) ad)) (fst (on_coordinator (on_storage f) sp)) \<and>
     related rel reliable (snd (on_coordinator (on_storage m) ad)) (snd (on_coordinator (on_storage f) sp)) \<and>
     ((\<exists>x. fst (on_coordinator (on_storage f) sp) = Inr x) \<longrightarrow> Q (store_of (snd (on_coordinator (on_storage f) sp))))"
    by (cases "m (store_of ad)"; cases "f (store_of sp)"; cases rule: rel_sum.cases)
      (use step(2,3) rel assms(2) [OF rel(2)] in \<open>auto simp: on_coordinator_def on_storage_def related_def rel_sum.simps\<close>)
qed

section \<open>The operations and the handlers\<close>

context coordinator_storage
begin

abbreviation simulates :: "('j spec_state \<Rightarrow> bool) \<Rightarrow> ('x \<Rightarrow> 'y \<Rightarrow> bool) \<Rightarrow> ('s, 'x) aop \<Rightarrow> ('j spec_state, 'y) aop \<Rightarrow>
    ('j spec_state \<Rightarrow> bool) \<Rightarrow> bool" where
  "simulates \<equiv> sim rel reliable"

lemma sim_list:
  "simulates P (=) (on_coordinator (Coordinator.list_key_packages_for_identity ops pk))
     (on_coordinator (Coordinator.list_key_packages_for_identity spec_ops pk)) P"
  unfolding Coordinator.list_key_packages_for_identity_def
  by (rule sim_storage) (auto simp: spec_ops_def spec_defs intro: list_key_packages_for_identity)

lemma sim_list_all:
  "simulates P same_elements (on_coordinator (Coordinator.list_all_key_packages ops))
     (on_coordinator (Coordinator.list_all_key_packages spec_ops)) P"
  unfolding Coordinator.list_all_key_packages_def
  by (rule sim_storage) (auto simp: spec_ops_def spec_defs intro: list_all_key_packages)

lemma sim_get:
  "simulates P (=) (on_coordinator (Coordinator.get_key_package ops x)) (on_coordinator (Coordinator.get_key_package spec_ops x)) P"
  unfolding Coordinator.get_key_package_def
  by (rule sim_storage) (auto simp: spec_ops_def spec_defs intro: get_key_package)

lemma sim_remove:
  assumes "\<And>a. P a \<Longrightarrow> P (spec_drop_ref x a)"
  shows "simulates P (=) (on_coordinator (Coordinator.remove_key_package ops x))
    (on_coordinator (Coordinator.remove_key_package spec_ops x)) P"
  unfolding Coordinator.remove_key_package_def
  by (rule sim_storage) (use assms in \<open>auto simp: spec_ops_def spec_remove_key_package_def intro: remove_key_package\<close>)

lemma sim_any:
  "simulates (\<lambda>_. True) (=) (on_coordinator (Coordinator.consume_key_package ops x))
     (on_coordinator (Coordinator.consume_key_package spec_ops x)) (\<lambda>_. True)"
  "simulates (\<lambda>_. True) (=) (on_coordinator (Coordinator.store_welcome ops now sw))
     (on_coordinator (Coordinator.store_welcome spec_ops now sw)) (\<lambda>_. True)"
  "simulates (\<lambda>_. True) (=) (on_coordinator (Coordinator.fetch_pending_welcomes ops t cw))
     (on_coordinator (Coordinator.fetch_pending_welcomes spec_ops t cw)) (\<lambda>_. True)"
  "simulates (\<lambda>_. True) (=) (on_coordinator (Coordinator.store_join_request ops now sj))
     (on_coordinator (Coordinator.store_join_request spec_ops now sj)) (\<lambda>_. True)"
  "simulates (\<lambda>_. True) (=) (on_coordinator (Coordinator.fetch_many_pending_join_requests ops gids cg))
     (on_coordinator (Coordinator.fetch_many_pending_join_requests spec_ops gids cg)) (\<lambda>_. True)"
  "simulates (\<lambda>_. True) (=) (on_coordinator (Coordinator.fetch_many_group_messages ops fs))
     (on_coordinator (Coordinator.fetch_many_group_messages spec_ops fs)) (\<lambda>_. True)"
  unfolding Coordinator.consume_key_package_def Coordinator.store_welcome_def Coordinator.fetch_pending_welcomes_def
    Coordinator.store_join_request_def Coordinator.fetch_many_pending_join_requests_def Coordinator.fetch_many_group_messages_def
  by (rule sim_storage; simp add: spec_ops_def consume_key_package store_welcome fetch_pending_welcomes store_join_request
      fetch_many_pending_join_requests fetch_many_group_messages)+

lemma sim_publish:
  "simulates (\<lambda>a. pk_key_package_ref input \<notin> stored_refs a) (=) (on_coordinator (Coordinator.publish_key_package ops now input))
     (on_coordinator (Coordinator.publish_key_package spec_ops now input)) (\<lambda>_. True)"
  unfolding Coordinator.publish_key_package_def
  by (rule sim_storage) (auto simp: spec_ops_def fresh_ref_def intro!: publish_key_package)

lemma sim_post:
  "simulates (cursor_room (pm_group_id input)) (=) (on_coordinator (Coordinator.post_group_message ops now input))
     (on_coordinator (Coordinator.post_group_message spec_ops now input)) (\<lambda>_. True)"
proof (rule simI)
  fix ad sp assume rel: "related rel reliable ad sp" "cursor_room (pm_group_id input) (store_of sp)"
  let ?p = "\<lparr>ap_group_id = pm_group_id input, ap_opaque_message = pm_opaque_message input, ap_created_at = now\<rparr>"
  have st: "rel (store_of ad) (store_of sp)" "reliable (store_of ad)" using rel by (simp_all add: related_def)
  have "refines (=) rel reliable (so_append_group_message ops ?p) (spec_append_group_message ?p) (store_of ad) (store_of sp)"
    by (rule append_group_message [OF st(1)]) (use rel(2) in simp)
  note step = refines_reliable [OF this st(2)]
  obtain r s where "so_append_group_message ops ?p (store_of ad) = (r, s)" by force
  moreover obtain r' s' where "spec_append_group_message ?p (store_of sp) = (r', s')" by force
  ultimately show "rel_sum (=) (=) (fst (on_coordinator (Coordinator.post_group_message ops now input) ad))
       (fst (on_coordinator (Coordinator.post_group_message spec_ops now input) sp)) \<and>
     related rel reliable (snd (on_coordinator (Coordinator.post_group_message ops now input) ad))
       (snd (on_coordinator (Coordinator.post_group_message spec_ops now input) sp)) \<and>
     ((\<exists>x. fst (on_coordinator (Coordinator.post_group_message spec_ops now input) sp) = Inr x) \<longrightarrow> True)"
    using rel(1) step by (cases r) (auto simp: on_coordinator_def post_group_message_def on_storage_def spec_ops_def related_def rel_sum.simps)
qed

lemma sim_evict:
  assumes "\<And>x a. P a \<Longrightarrow> P (spec_drop_ref x a)"
  shows "simulates P (=) (evict_loop ops rs) (evict_loop spec_ops rs) P"
  by (induction rs) (auto intro: sim_return sim_same_bind sim_remove assms)

lemma sim_remove_refs:
  assumes "\<And>x a. P a \<Longrightarrow> P (spec_drop_ref x a)"
  shows "simulates P (=) (remove_refs_loop ops client refs removed) (remove_refs_loop spec_ops client refs removed) P"
  by (induction refs arbitrary: removed)
    (auto intro!: sim_return sim_same_bind [OF sim_get] sim_same_bind [OF sim_ok_or] sim_same_bind [OF sim_ensure]
      sim_same_bind [OF sim_remove] assms)

lemma sim_quota:
  assumes "\<And>x a. P a \<Longrightarrow> P (spec_drop_ref x a)"
  shows "simulates P (=) (enforce_key_package_quota ops pk lr) (enforce_key_package_quota spec_ops pk lr) P"
proof -
  have ifs: "simulates P (=) (if b then m1 else m2) (if b then m1' else m2') P"
    if "simulates P (=) m1 m1' P" "simulates P (=) m2 m2' P" for b m1 m1' m2 m2'
    using that by simp
  have "simulates P (=) (enforce_quota ops quota pk lr) (enforce_quota spec_ops quota pk lr) P" for quota
    unfolding enforce_quota_def quota_decision_def Let_def
    by (rule sim_same_bind [OF sim_list], rule ifs, rule sim_same_bind [where Q = P], rule ifs, rule sim_evict, rule assms,
        assumption, (rule ifs sim_return sim_reject refl)+)
  then show ?thesis by (auto simp: sim_def enforce_key_package_quota_def related_def)
qed

lemma sim_cursors: "simulates P (=) (require_positive_cursors gs) (require_positive_cursors gs) P"
  by (induction gs) (auto simp: require_positive_cursor_def intro: sim_return sim_same_bind [OF sim_ensure])

lemma sim_parsed: "simulates P (=) (case r of Inl x \<Rightarrow> afail e | Inr p \<Rightarrow> areturn p) (case r of Inl x \<Rightarrow> afail e | Inr p \<Rightarrow> areturn p) P"
  by (cases r) (auto intro: sim_fail sim_return)

lemma sim_consumed: "simulates P (=) (consumed_key_package sv r) (consumed_key_package sv r) P"
  unfolding consumed_key_package_def by (cases "event_from_value sv (publication_event r)") (auto intro: sim_fail sim_return)

end

fun same_output :: "tool_output \<Rightarrow> tool_output \<Rightarrow> bool" where
  "same_output (KpListed x) (KpListed y) = same_elements (lko_key_packages x) (lko_key_packages y)"
| "same_output x y = (x = y)"

definition call_ready :: "tool_call \<Rightarrow> 'j spec_state \<Rightarrow> bool" where
  "call_ready call a \<longleftrightarrow> (case call of
     KpPublish input \<Rightarrow> pki_kp_ref input \<notin> stored_refs a
   | MsgPost input \<Rightarrow> cursor_room (pmi_gid input) a
   | _ \<Rightarrow> True)"

lemma same_output_refl: "same_output x x"
  by (cases x) (simp_all add: same_elements_def)

lemma same_output_sym: "same_output x y \<Longrightarrow> same_output y x"
  by (induction x y rule: same_output.induct) (auto simp: same_elements_def)

lemma same_output_trans: "same_output x y \<Longrightarrow> same_output y z \<Longrightarrow> same_output x z"
  by (induction x y rule: same_output.induct) (cases z; simp add: same_elements_def)+

lemma same_answer_join:
  assumes "rel_sum (=) same_output x z" "rel_sum (=) same_output y z"
  shows "rel_sum (=) same_output x y"
proof (cases z)
  case (Inr c)
  with assms obtain a b where "x = Inr a" "y = Inr b" "same_output a c" "same_output b c" by (auto simp: rel_sum.simps)
  with same_output_trans [OF this(3) same_output_sym [OF this(4)]] show ?thesis by simp
qed (use assms in \<open>auto simp: rel_sum.simps\<close>)

lemma same_answers_join:
  assumes "list_all2 (rel_sum (=) same_output) xs zs" "list_all2 (rel_sum (=) same_output) ys zs"
  shows "list_all2 (rel_sum (=) same_output) xs ys"
  using assms same_answer_join unfolding list_all2_conv_all_nth by (metis (no_types, lifting))

context coordinator_storage
begin

lemma handle_refines:
  "simulates (call_ready call) same_output (handle ops sv now stored call client event)
     (handle spec_ops sv now stored call client event) (\<lambda>_. True)"
proof -
  have weaken: "simulates (call_ready call) same_output m m' (\<lambda>_. True)"
    if "simulates (\<lambda>_. True) (=) m m' (\<lambda>_. True)" for m :: "('s, tool_output) aop" and m'
    using that unfolding sim_def by (fastforce simp: rel_sum.simps intro: same_output_refl)
  have out: "simulates P (=) (areturn x) (areturn x) (\<lambda>_. True)" for P and x :: "'x"
    by (rule sim_conseq [OF sim_return]) simp_all
  note steps = sim_same_bind [OF sim_gate] sim_same_bind [OF sim_ensure] sim_same_bind [OF sim_ok_or]
    sim_same_bind [OF sim_get] sim_any [THEN sim_same_bind] sim_same_bind [OF sim_cursors] sim_same_bind [OF sim_remove_refs]
    sim_same_bind [OF sim_consumed] sim_same_bind [where P = "\<lambda>_. True" and Q = "\<lambda>_. True"] out
  have take: "simulates (\<lambda>_. True) (=)
       (case r of None \<Rightarrow> areturn \<lparr>cko_key_package = None\<rparr>
        | Some r \<Rightarrow> abind (consumed_key_package sv r) (\<lambda>kp. areturn \<lparr>cko_key_package = Some kp\<rparr>))
       (case r of None \<Rightarrow> areturn \<lparr>cko_key_package = None\<rparr>
        | Some r \<Rightarrow> abind (consumed_key_package sv r) (\<lambda>kp. areturn \<lparr>cko_key_package = Some kp\<rparr>)) (\<lambda>_. True)" for r
    by (cases r) (auto intro: out sim_same_bind [OF sim_consumed])
  show ?thesis
  proof (cases call)
    case (KpPublish input)
    let ?P = "\<lambda>a. pki_kp_ref input \<notin> stored_refs a"
    have drop: "?P (spec_drop_ref x a)" if "?P a" for x a using that by (auto simp: spec_drop_ref_def)
    have "simulates ?P (=) (ad_publish_key_package ops sv now stored input client event)
        (ad_publish_key_package spec_ops sv now stored input client event) (\<lambda>_. True)"
      unfolding ad_publish_key_package_def require_non_empty_def
      by (intro sim_same_bind [OF sim_gate] sim_same_bind [OF sim_ensure] sim_same_bind [OF sim_ok_or] sim_same_bind [OF sim_parsed]
          sim_same_bind [OF sim_quota] drop sim_same_bind [OF sim_conseq [OF sim_publish]] out) (simp_all add: drop)
    then have "simulates (call_ready call) (=) (ad_publish_key_package ops sv now stored input client event)
        (ad_publish_key_package spec_ops sv now stored input client event) (\<lambda>_. True)"
      by (rule sim_conseq) (simp_all add: KpPublish call_ready_def)
    then show ?thesis
      unfolding KpPublish handle.simps map_output_def
      by (rule sim_same_bind) (rule sim_return, rule same_output_refl)
  next
    case (MsgPost input)
    have "simulates (call_ready call) (=) (ad_post_group_message ops sv now stored input client)
        (ad_post_group_message spec_ops sv now stored input client) (\<lambda>_. True)"
      unfolding ad_post_group_message_def require_non_empty_def
      by (intro sim_same_bind [OF sim_gate] sim_same_bind [OF sim_ensure] sim_same_bind [OF sim_ok_or]
          sim_same_bind [OF sim_conseq [OF sim_post]] out) (simp_all add: MsgPost call_ready_def)
    then show ?thesis
      unfolding MsgPost handle.simps map_output_def
      by (rule sim_same_bind) (rule sim_return, rule same_output_refl)
  next
    case KpList
    have "simulates (call_ready call) (\<lambda>x y. same_elements (lko_key_packages x) (lko_key_packages y))
        (ad_list_available_key_packages ops now client) (ad_list_available_key_packages spec_ops now client) (\<lambda>_. True)"
      unfolding ad_list_available_key_packages_def
      by (rule sim_same_bind [OF sim_gate], rule sim_bind [OF sim_list_all], rule sim_conseq [OF sim_return])
        (simp_all add: same_elements_def)
    then show ?thesis
      unfolding KpList handle.simps map_output_def
      by (rule sim_bind) (rule sim_return, simp)
  next
    case (KpTake input)
    show ?thesis
      unfolding KpTake handle.simps map_output_def ad_consume_key_package_def require_non_empty_def
      by (rule weaken [unfolded KpTake]) (rule steps take | simp)+
  next
    case (KpRemove input)
    show ?thesis
      unfolding KpRemove handle.simps map_output_def ad_remove_key_packages_def require_non_empty_def
      by (rule weaken [unfolded KpRemove]) (rule steps | simp)+
  next
    case (WelcomeTake input)
    show ?thesis
      unfolding WelcomeTake handle.simps map_output_def ad_fetch_pending_welcomes_def require_non_empty_def
      by (rule weaken [unfolded WelcomeTake]) (rule steps | simp)+
  next
    case (WelcomeStore input)
    show ?thesis
      unfolding WelcomeStore handle.simps map_output_def ad_store_welcome_def require_non_empty_def
      by (rule weaken [unfolded WelcomeStore]) (rule steps | simp)+
  next
    case (JoinRequestStore input)
    show ?thesis
      unfolding JoinRequestStore handle.simps map_output_def ad_store_join_request_def require_non_empty_def
      by (rule weaken [unfolded JoinRequestStore]) (rule steps | simp)+
  next
    case (JoinRequestTakeMany input)
    show ?thesis
      unfolding JoinRequestTakeMany handle.simps map_output_def ad_fetch_many_pending_join_requests_def require_non_empty_def
      by (rule weaken [unfolded JoinRequestTakeMany]) (rule steps | simp)+
  next
    case (MsgFetchMany input)
    show ?thesis
      unfolding MsgFetchMany handle.simps map_output_def ad_fetch_many_group_messages_def require_non_empty_def
      by (rule weaken [unfolded MsgFetchMany]) (rule steps | simp)+
  qed
qed

end

section \<open>Runs of calls\<close>

text \<open>The specification is a backend too.\<close>

lemma refines_refl:
  assumes "spec_inv a" "spec_inv (snd (f a))" "\<And>x. eq x x"
  shows "refines eq (\<lambda>s a. s = a \<and> spec_inv a) (\<lambda>_. True) f f a a"
proof -
  have "rel_sum (=) eq r r" for r :: "StorageError + 'b" using assms(3) by (cases r) auto
  with assms(1,2) show ?thesis by (simp add: refines_def)
qed

interpretation spec: coordinator_storage spec_ops "\<lambda>s a. s = a \<and> spec_inv a" "\<lambda>_. True"
  by unfold_locales
    (auto simp: spec_ops_def spec_inv_publish spec_inv_consume spec_inv_store_join_request spec_inv_append
      same_elements_def intro!: refines_refl, simp_all add: spec_defs Let_def spec_inv_intros)

lemma logged_ready:
  assumes "logged q R a" "set (call_refs call) \<inter> R = {}" "log_room q (Suc n)"
  shows "call_ready call a"
proof (cases call)
  case (MsgPost input)
  have "int (length (group_log (pmi_gid input) (q_messages q))) + int (Suc n) + 2 \<le> 2 ^ 63"
    using assms(3) by (simp only: log_room_def)
  with assms(1) MsgPost show ?thesis by (auto simp: call_ready_def cursor_room_def logged_def queues_of_def)
qed (use assms in \<open>auto simp: call_ready_def logged_def\<close>)

context coordinator_storage
begin

lemma serve_all_refines:
  assumes "related rel reliable ad sp" "logged q R (store_of sp)" "distinct (request_refs calls)"
    "R \<inter> set (request_refs calls) = {}" "log_room q (length calls)"
  shows "list_all2 (rel_sum (=) same_output) (fst (serve_all ops sv calls ad)) (fst (serve_all spec_ops sv calls sp))"
  using assms
proof (induction calls arbitrary: ad sp q R)
  case (Cons c calls)
  obtain client event now stored call where c: "c = (client, event, now, stored, call)" by (cases c)
  obtain r ad1 r' sp1 where run: "handle ops sv now stored call client event ad = (r, ad1)"
    "handle spec_ops sv now stored call client event sp = (r', sp1)" by force
  have refs: "set (call_refs call) \<inter> R = {}" "distinct (request_refs calls)"
    "(R \<union> set (call_refs call)) \<inter> set (request_refs calls) = {}"
    using Cons.prems(3,4) unfolding c request_refs_Cons by auto
  have room: "log_room q (Suc (length calls))" using Cons.prems(5) by simp
  have ready: "call_ready call (store_of sp)" by (rule logged_ready [OF Cons.prems(2) refs(1) room])
  note step = simD(1,2) [OF handle_refines Cons.prems(1) ready, of sv now stored client event, unfolded run fst_conv snd_conv]
  have "store_of sp = store_of sp \<and> spec_inv (store_of sp)"
    using Cons.prems(1) rel_inv by (auto simp: related_def)
  note after = spec.handle_log [OF this Cons.prems(2) refs(1) room run(2)]
  obtain q1 R1 where "logged q1 R1 (store_of sp1)" "R1 \<subseteq> R \<union> set (call_refs call)" "log_room q1 (length calls)"
  proof (cases r')
    case (Inl f)
    with after log_room_less [OF room, of q] that [of q R] show thesis by auto
  next
    case (Inr out)
    with after obtain q' where "queue_call sv client stored call q out q'" "logged q' (refs_after R out) (store_of sp1)"
      "refs_after R out \<subseteq> R \<union> set (call_refs call)" by (auto simp: answered_def refs_after_def)
    with queue_call_room [OF room] that show thesis by blast
  qed
  moreover from this(2) have "R1 \<inter> set (request_refs calls) = {}" using refs(3) by blast
  ultimately show ?case using Cons.IH [OF step(2) _ refs(2)] step(1)
    by (simp add: c run split_def Let_def)
qed simp

end

end
