(* ===== verification/Adapter_Stream.thy ===== *)
theory Adapter_Stream
  imports Adapter_Lemmas "HOL-Library.Sublist"
begin

text \<open>
  The streaming loop of a subscription: what it has written is, message by message, the channel of
  the subscriber from where the receiver stood, and it ends once the client is gone.
\<close>

text \<open>
  A stream by what was written to it. \<open>log_of k\<close> is the text written so far; a write that reports
  success appended its message, one that reports failure may have, and nobody else writes.
\<close>

definition stream_log :: "'k MessageSink \<Rightarrow> ('k \<Rightarrow> string list) \<Rightarrow> ('s, 'k) wakeup list \<Rightarrow> bool" where
  "stream_log sink log_of ws \<longleftrightarrow>
     (\<forall>m k. log_of (snd (sink_write sink m k)) = log_of k @ [m] \<or>
        \<not> fst (sink_write sink m k) \<and> log_of (snd (sink_write sink m k)) = log_of k) \<and>
     (\<forall>w \<in> set ws. \<forall>k. log_of (wk_outside w k) = log_of k)"

text \<open>The coordinator the loop sees has the channel's contents so far.\<close>

definition channel_grows :: "nat \<Rightarrow> GroupMessageRecord list \<Rightarrow> ('s, 'k) wakeup list \<Rightarrow> bool" where
  "channel_grows i sent ws \<longleftrightarrow> (\<forall>w \<in> set ws. prefix (channel_contents i (wk_coordinator w)) sent)"

text \<open>A client that is gone: the stream stays inactive, and writing to it fails.\<close>

definition stays_inactive :: "'k MessageSink \<Rightarrow> ('s, 'k) wakeup list \<Rightarrow> bool" where
  "stays_inactive sink ws \<longleftrightarrow>
     (\<forall>w \<in> set ws. \<forall>k. \<not> sink_is_active sink k \<longrightarrow> \<not> sink_is_active sink (wk_outside w k)) \<and>
     (\<forall>m k. \<not> sink_is_active sink k \<longrightarrow> \<not> fst (sink_write sink m k))"

lemma recv_id: "subscriber_id (snd (recv h co)) = subscriber_id h"
  by (simp add: recv_def Let_def)

lemma recv_prefix:
  assumes "recv h co = (Received r, h')" "prefix (channel_contents (subscriber_id h) co) sent"
  shows "drop (received h) sent = r # drop (received h') sent" "received h' = Suc (received h)"
    "subscriber_id h' = subscriber_id h"
proof -
  from assms(1) have h: "received h < length (channel_contents (subscriber_id h) co)"
    "r = channel_contents (subscriber_id h) co ! received h" "h' = h\<lparr>received := received h + 1\<rparr>"
    by (auto simp: recv_def Let_def split: if_splits)
  from assms(2) obtain rest where "sent = channel_contents (subscriber_id h) co @ rest" by (auto simp: prefix_def)
  with h have "received h < length sent" "r = sent ! received h" by (auto simp: nth_append)
  with h(3) show "drop (received h) sent = r # drop (received h') sent" by (simp add: Cons_nth_drop_Suc)
  show "received h' = Suc (received h)" "subscriber_id h' = subscriber_id h" using h(3) by simp_all
qed

lemma recv_quiet: "recv h co = (Pending, h') \<Longrightarrow> h' = h" "recv h co = (Closed, h') \<Longrightarrow> h' = h"
  by (auto simp: recv_def Let_def split: if_splits)

lemma stream_loop_log:
  assumes "stream_log sink log_of ws" "channel_grows (subscriber_id h) sent ws"
    and "stream_loop sv sink ws h k = (ended, h', k')"
  shows "\<exists>n. log_of k' = log_of k @ map (wire_message sv) (take n (drop (received h) sent)) \<and>
    (\<not> ended \<longrightarrow> received h' = received h + n) \<and> received h + n \<le> received h'"
  using assms
proof (induction ws arbitrary: h k)
  case Nil
  then show ?case by (auto intro: exI [of _ 0])
next
  case (Cons w ws)
  let ?k = "wk_outside w k"
  have out: "log_of ?k = log_of k" using Cons.prems(1) by (simp add: stream_log_def)
  have tail: "stream_log sink log_of ws" using Cons.prems(1) by (simp add: stream_log_def)
  have grows: "prefix (channel_contents (subscriber_id h) (wk_coordinator w)) sent" "channel_grows (subscriber_id h) sent ws"
    using Cons.prems(2) by (simp_all add: channel_grows_def)
  have stop: ?case if "(ended, h', k') = (True, h, ?k)"
    using that out by (auto intro: exI [of _ 0])
  have wait: ?case if "stream_loop sv sink ws h ?k = (ended, h', k')"
    using Cons.IH [OF tail grows(2) that] out by simp
  show ?case
  proof (cases "wk_timer w")
    case True
    with Cons.prems(3) stop wait show ?thesis by (simp add: Let_def split: if_splits)
  next
    case False
    obtain res h1 where recv: "recv h (wk_coordinator w) = (res, h1)" by force
    show ?thesis
    proof (cases res)
      case Pending
      with recv recv_quiet(1) [of h "wk_coordinator w" h1] False Cons.prems(3) wait show ?thesis by (simp add: Let_def)
    next
      case Closed
      with recv recv_quiet(2) [of h "wk_coordinator w" h1] False Cons.prems(3) stop show ?thesis by (simp add: Let_def)
    next
      case (Received r)
      note step = recv_prefix [OF recv [unfolded Received] grows(1)]
      obtain ok k1 where wr: "sink_write sink (wire_message sv r) ?k = (ok, k1)" by force
      have k1: "log_of k1 = log_of k @ [wire_message sv r] \<or> \<not> ok \<and> log_of k1 = log_of k"
        using Cons.prems(1) wr out unfolding stream_log_def by (metis fst_conv snd_conv)
      have run: "(if ok then stream_loop sv sink ws h1 k1 else (True, h1, k1)) = (ended, h', k')"
        using Cons.prems(3) False recv Received wr by simp
      show ?thesis
      proof (cases ok)
        case False
        with run have e: "ended" "h' = h1" "k' = k1" by auto
        from k1 False show ?thesis
        proof (elim disjE conjE)
          assume "log_of k1 = log_of k @ [wire_message sv r]"
          with e step show ?thesis by (intro exI [of _ 1]) simp
        next
          assume "log_of k1 = log_of k"
          with e step show ?thesis by (intro exI [of _ 0]) simp
        qed
      next
        case True
        with run have "stream_loop sv sink ws h1 k1 = (ended, h', k')" by simp
        from Cons.IH [OF tail _ this] grows(2) step(3) obtain n where
          "log_of k' = log_of k1 @ map (wire_message sv) (take n (drop (received h1) sent))"
          "\<not> ended \<longrightarrow> received h' = received h1 + n" "received h1 + n \<le> received h'" by auto
        with k1 True step show ?thesis by (intro exI [of _ "Suc n"]) auto
      qed
    qed
  qed
qed

lemma stream_loop_ends:
  assumes "stays_inactive sink ws" "\<not> sink_is_active sink k" "\<exists>w \<in> set ws. wk_timer w"
  shows "fst (stream_loop sv sink ws h k)"
  using assms
proof (induction ws arbitrary: h k)
  case (Cons w ws)
  let ?k = "wk_outside w k"
  have k: "\<not> sink_is_active sink ?k" "stays_inactive sink ws" "\<And>m k'. sink_write sink m ?k \<noteq> (True, k')"
    using Cons.prems(1,2) by (auto simp: stays_inactive_def prod_eq_iff)
  show ?case
  proof (cases "wk_timer w")
    case True
    with k(1) show ?thesis by simp
  next
    case False
    with Cons.prems(3) have "\<exists>w \<in> set ws. wk_timer w" by auto
    note go_on = Cons.IH [OF k(2,1) this]
    with False k(3) show ?thesis by (auto simp: Let_def split: prod.split recv_result.split)
  qed
qed simp

text \<open>A loop that has not ended after some turns goes on from where it stands.\<close>

lemma stream_loop_append:
  "stream_loop sv sink ws h k = (False, h1, k1) \<Longrightarrow> stream_loop sv sink (ws @ ws') h k = stream_loop sv sink ws' h1 k1"
  by (induction ws arbitrary: h k) (auto simp: Let_def split: if_splits prod.splits recv_result.splits)

text \<open>The whole tool: the handle it streams from is fresh.\<close>

lemma subscribe_fresh_handle:
  "subscribe_many_group_messages ops gs co = (Inr h, co') \<Longrightarrow> received h = 0"
  by (auto simp: subscribe_many_group_messages_def Let_def split: prod.splits sum.splits)

lemma on_coordinator_Inr:
  "on_coordinator m ad = (Inr x, ad') \<longleftrightarrow> (\<exists>co. m (coordinator ad) = (Inr x, co) \<and> ad' = ad\<lparr>coordinator := co\<rparr>)"
  by (auto simp: on_coordinator_def split: prod.splits sum.splits)

lemma subscribe_begin_handle:
  "ad_subscribe_begin ops now input client ad = (Inr (gids, h), ad') \<Longrightarrow> gids = map fgi_gid (smi_groups input) \<and> received h = 0"
  by (auto simp: ad_subscribe_begin_def handler_Inr on_coordinator_Inr dest: subscribe_fresh_handle)

end
