(* ===== verification/Server.thy ===== *)
theory Server
  imports Methods
begin

text \<open>
  What \<^verbatim>\<open>main\<close> of \<^verbatim>\<open>crates/cordn-server/src/main.rs\<close> builds from a configuration around a storage backend:
  the coordinator with its clean-up task, and the adapter the tools call. The transport, the signing
  key and the process around them belong to other packages.
\<close>

definition main_coordinator :: "'s \<Rightarrow> ServerConfig \<Rightarrow> 's Coordinator" where
  "main_coordinator st cfg = Coordinator_new st (Some DEFAULT_CLEANUP_INTERVAL_MS) (Some (max_age_ms cfg))"

definition main_adapter :: "'s \<Rightarrow> ServerConfig \<Rightarrow> 's CoordinatorAdapter" where
  "main_adapter st cfg = CoordinatorAdapter_new (main_coordinator st cfg) (abuse_protection cfg)"

lemma main_adapter_fields [simp]:
  "coordinator (main_adapter st cfg) = main_coordinator st cfg" "abuse (main_adapter st cfg) = abuse_protection cfg"
  "rate_limiter (main_adapter st cfg) = TokenBucketRateLimiter_new (to_rate_limit_config (rate_limit (abuse_protection cfg)))"
  "storage (main_coordinator st cfg) = st" "inner (main_coordinator st cfg) = SubscriberRegistry_new"
  by (simp_all add: main_adapter_def main_coordinator_def CoordinatorAdapter_new_def Coordinator_new_def)

end
