(* ===== verification/Adapter_Properties.thy ===== *)
theory Adapter_Properties
  imports Adapter_Refine Adapter_Remove Adapter_Stream Server Mls_Parse_Properties
begin

text \<open>
  What the tools promise their callers, over any storage backend that keeps the contract: identities
  are isolated from each other, a publication is bound to its signer, quotas hold, a denied call
  changes nothing, and a subscription's sink gets the channel in order. A failed publication costs at most
  last-resort packages of the publisher; three executions show what the quota does where it goes wrong.
\<close>

section \<open>A small server\<close>

definition demo_event :: "string \<Rightarrow> NostrEvent" where
  "demo_event pk = \<lparr>ev_id = ''e'', ev_pubkey = pk, ev_created_at = 5, ev_kind = 1, ev_tags = [], ev_content = [], ev_sig = ''s''\<rparr>"

definition char_of_byte :: "8 word \<Rightarrow> char" where
  "char_of_byte b = Char (bit b 0) (bit b 1) (bit b 2) (bit b 3) (bit b 4) (bit b 5) (bit b 6) (bit b 7)"

lemma char_of_byte_of_char: "char_of_byte (of_char c) = c"
  by (cases c) (simp add: char_of_byte_def of_char_def bit_horner_sum_bit_word_iff)

definition demo_services :: "string services" where
  "demo_services = \<lparr>b64_decode = \<lambda>s. Some (map of_char s),
     b64_encode = map char_of_byte,
     event_to_value = \<lambda>ev. Some (ev_pubkey ev), json_null = [], event_from_value = \<lambda>s. Inr (demo_event s),
     message_to_string = \<lambda>m. Some (gmw_msg_64 m)\<rparr>"

definition demo_abuse :: "bool \<Rightarrow> usize \<Rightarrow> usize \<Rightarrow> AbuseProtectionConfig" where
  "demo_abuse limited per lr =
     \<lparr>rate_limit = \<lparr>rlc_enabled = limited, rlc_refill_per_minute = 0, rlc_burst = 0, rlc_idle_ttl_ms = 0\<rparr>,
      key_package_quota = \<lparr>max_per_identity = per, max_last_resort_per_identity = lr\<rparr>, log_rejections = False\<rparr>"

definition demo_adapter :: "'s \<Rightarrow> AbuseProtectionConfig \<Rightarrow> 's CoordinatorAdapter" where
  "demo_adapter st ab = CoordinatorAdapter_new (Coordinator_new st (Some 0) None) ab"

definition demo_kp :: "bool \<Rightarrow> bytes" where
  "demo_kp lr = encode_key_package (example_key_package\<lparr>kp_extensions := if lr then [AppData [(4, [])]] else []\<rparr>)"

lemma demo_kp_bytes [code]:
  "demo_kp lr = [0, 1, 0, 1, 1, 7, 2, 8, 9, 0, 0, 1, 2, 97, 98, 0, 0, 0, 0, 0, 1] @ replicate 16 0 @ [0, 1, 3] @
     (if lr then [7, 0, 6, 4, 3, 0, 4, 0] else [0]) @ [1, 255]"
  by (cases lr; simp; code_simp)

definition demo_publish :: "string \<Rightarrow> bool \<Rightarrow> tool_call" where
  "demo_publish x lr = KpPublish \<lparr>pki_kp_ref = x, pki_kp_64 = b64_encode demo_services (demo_kp lr)\<rparr>"

definition demo_store :: "string InMemoryInner" where
  "demo_store = snd (run mem_ops [PublishKeyPackage (sample_key_package ''bob'' ''r1'' False)] InMemoryInner_default)"

lemma demo_rel: "mem_rel demo_store \<lparr>sp_key_packages = [sample_key_package ''bob'' ''r1'' False],
    sp_welcomes = [], sp_join_requests = [], sp_messages = []\<rparr>"
proof -
  have "snd (run spec_ops [PublishKeyPackage (sample_key_package ''bob'' ''r1'' False)] spec_empty) =
      \<lparr>sp_key_packages = [sample_key_package ''bob'' ''r1'' False], sp_welcomes = [], sp_join_requests = [], sp_messages = []\<rparr>"
    by code_simp
  then show ?thesis
    using mem_run(2) [of "[PublishKeyPackage (sample_key_package ''bob'' ''r1'' False)]"] by (simp add: demo_store_def)
qed

lemma demo_parses:
  "parse_key_package (demo_kp lr) = Inr \<lparr>credential_identity = ''ab'', cipher_suite = 1, parsed_last_resort = lr\<rparr>"
  by (cases lr; simp; code_simp)

definition demo_database :: connection where
  "demo_database = snd (run (sql_ops text_env) [PublishKeyPackage (sample_key_package ''bob'' ''r1'' False),
     PublishKeyPackage (sample_key_package ''ab'' ''r2'' True)] (fresh_connection []))"

definition demo_input :: PublishKeyPackageInput_wire where
  "demo_input = \<lparr>pki_kp_ref = ''r2'', pki_kp_64 = b64_encode demo_services (demo_kp True)\<rparr>"

lemma demo_adapter_rel: "mem_rel (store_of (demo_adapter demo_store ab)) \<lparr>sp_key_packages = [sample_key_package ''bob'' ''r1'' False],
    sp_welcomes = [], sp_join_requests = [], sp_messages = []\<rparr>"
  using demo_rel by (simp add: demo_adapter_def CoordinatorAdapter_new_def Coordinator_new_def)

lemma demo_publication:
  obtains ad' where "ad_publish_key_package mem_ops demo_services 0 9 demo_input ''ab'' (Some (demo_event ''ab''))
      (demo_adapter demo_store (demo_abuse False 2 1)) = (Inr \<lparr>pko_kp_ref = ''r2'', pko_last_resort = True, pko_at = 9\<rparr>, ad')"
    "snd (handle mem_ops demo_services 0 9 (demo_publish ''r2'' True) ''ab'' (Some (demo_event ''ab''))
      (demo_adapter demo_store (demo_abuse False 2 1))) = ad'"
proof -
  let ?run = "ad_publish_key_package mem_ops demo_services 0 9 demo_input ''ab'' (Some (demo_event ''ab''))
      (demo_adapter demo_store (demo_abuse False 2 1))"
  have "fst ?run = Inr \<lparr>pko_kp_ref = ''r2'', pko_last_resort = True, pko_at = 9\<rparr>" by code_simp
  then obtain ad' where run: "?run = (Inr \<lparr>pko_kp_ref = ''r2'', pko_last_resort = True, pko_at = 9\<rparr>, ad')"
    by (cases ?run) simp
  then have "snd (handle mem_ops demo_services 0 9 (demo_publish ''r2'' True) ''ab'' (Some (demo_event ''ab''))
      (demo_adapter demo_store (demo_abuse False 2 1))) = ad'"
    by (simp add: demo_publish_def demo_input_def map_output_def abind_def areturn_def)
  with run show thesis by (rule that)
qed

definition demo_writer :: "(bool \<times> string list) OpenStreamWriter" where
  "demo_writer = \<lparr>ow_start = \<lambda>k. (True, k), ow_write = \<lambda>m (active, out). (active, active, if active then out @ [m] else out),
     ow_is_active = fst, ow_close = \<lambda>(_, out). (True, False, out)\<rparr>"

definition demo_context :: "(unit, (bool \<times> string list) OpenStreamWriter) RequestContext" where
  "demo_context = \<lparr>cx_client_pubkey = Some ''ab'', cx_inbound_event = None, cx_stream_writer = Some demo_writer\<rparr>"

lemma demo_context_fields: "cx_client_pubkey demo_context = Some ''ab''" "cx_stream_writer demo_context = Some demo_writer"
  by (simp_all add: demo_context_def)

section \<open>Refusals\<close>

lemma ascii_boundary:
  assumes "\<forall>c \<in> set s. (of_char c :: nat) < 128"
  shows "is_char_boundary s (min (length s) n)"
proof (cases "n < length s")
  case True
  then have "s ! n \<in> set s" by simp
  with assms True show ?thesis by (simp add: is_char_boundary_def Let_def)
next
  case False
  then show ?thesis by (simp add: is_char_boundary_def)
qed

definition refused :: "AdapterError \<Rightarrow> string \<Rightarrow> i64 \<Rightarrow> 's CoordinatorAdapter \<Rightarrow> (failure + 'a) \<times> 's CoordinatorAdapter" where
  "refused e client now ad = (Inl (Refused e), ad\<lparr>rate_limiter := snd (check client now (rate_limiter ad))\<rparr>)"

text \<open>What the bytes and the event of a publication have to be refused for.\<close>

definition boundary_error :: "'j services \<Rightarrow> string \<Rightarrow> string \<Rightarrow> NostrEvent option \<Rightarrow> AdapterError option" where
  "boundary_error sv client text event = (case b64_decode sv text of
     None \<Rightarrow> Some InvalidKeyPackage
   | Some kp_bytes \<Rightarrow> (case (parse_key_package kp_bytes, event) of
       (Inl _, _) \<Rightarrow> Some InvalidKeyPackage
     | (Inr p, None) \<Rightarrow> Some MissingPublicationEvent
     | (Inr p, Some ev) \<Rightarrow>
         if ev_pubkey ev \<noteq> client then Some SignerMismatch
         else if credential_identity p \<noteq> client then Some IdentityMismatch else None))"

section \<open>Properties\<close>

text \<open>The streaming tool of a caller: only the fetch of the backlog goes to the storage.\<close>

lemma drop_subscriber_storage [simp]: "storage (drop_subscriber i gids co) = storage co"
  by (simp add: drop_subscriber_def Let_def)

lemma unsubscribe_storage [simp]: "storage (snd (unsubscribe h co)) = storage co"
  by (simp add: unsubscribe_def)

context coordinator_storage
begin

lemma subscribe_keeps_store:
  assumes "rel (storage co) a"
  shows "rel (storage (snd (subscribe_many_group_messages ops gs co))) a"
proof -
  have "rel (snd (so_fetch_many_group_messages ops gs (storage co))) a"
    using fetch_many_group_messages [OF assms, of gs] by (auto simp: refines_def spec_fetch_many_group_messages_def)
  then show ?thesis
    by (auto simp: subscribe_many_group_messages_def on_storage_def Let_def split: prod.split sum.split)
qed

lemma subscribe_begin_keeps_store:
  assumes "rel (store_of ad) a"
  shows "rel (store_of (snd (ad_subscribe_begin ops now input client ad))) a"
proof -
  have "triple rel (\<lambda>_ x. x = a) (\<lambda>x. x = a) (on_coordinator (subscribe_many_group_messages ops gs)) (\<lambda>_ x. x = a)" for gs
    using subscribe_keeps_store
    by (auto simp: triple_def on_coordinator_def split: prod.splits sum.splits) (metis snd_conv)+
  then have "triple rel (\<lambda>_ x. x = a) (\<lambda>x. x = a) (ad_subscribe_begin ops now input client) (\<lambda>_ x. x = a)"
    unfolding ad_subscribe_begin_def
    by (intro gate_bind ensure_bind triple_bind [OF triple_require_positive [where P = "\<lambda>x. x = a"]] triple_bind triple_return) auto
  from this [unfolded triple_def, rule_format, OF assms refl] show ?thesis by (auto split: sum.splits)
qed

end

text \<open>
  C9. Identities are isolated. From a store without repeated references, whatever a caller sends to any tool but \<^verbatim>\<open>kp_take\<close>, and
  however the call ends, the key packages of every other identity are what they were, in the same order. The
  reference of a publication must be new, and the group of a message must have a cursor left. The streaming tool
  \<^verbatim>\<open>msg_sub_many\<close> leaves the store alone: it is what it was while the tool streams or when it fails, and what
  others have made of it (\<open>final\<close>) when it ends.
\<close>

theorem identities_are_isolated:
  assumes "coordinator_storage ops rel reliable" "rel (store_of ad) a"
    and "\<And>input. call \<noteq> KpTake input"
    and "\<And>input. call = KpPublish input \<Longrightarrow> pki_kp_ref input \<notin> key_package_ref ` set (sp_key_packages a)"
    and "\<And>input. call = MsgPost input \<Longrightarrow> cursor_room (pmi_gid input) a"
  shows "(\<exists>a'. rel (store_of (snd (handle ops sv now stored call client event ad))) a' \<and> others client a' = others client a) \<and>
    (case msg_sub_many ops sv now input ctx ws final k ad of
       (Inr (Some _), _, ad') \<Rightarrow> store_of ad' = storage final
     | (_, _, ad') \<Rightarrow> rel (store_of ad') a)"
proof
  show "\<exists>a'. rel (store_of (snd (handle ops sv now stored call client event ad))) a' \<and> others client a' = others client a"
  proof (rule tripleD [where P = "\<lambda>x. x = a", OF coordinator_storage.handle_others [OF assms(1)] assms(2) refl])
    show "call \<noteq> KpTake input" for input by (rule assms(3))
    show "pki_kp_ref input \<notin> key_package_ref ` set (sp_key_packages x)" if "call = KpPublish input" "x = a" for input x
      unfolding that(2) by (rule assms(4) [OF that(1)])
    show "cursor_room (pmi_gid input) x" if "call = MsgPost input" "x = a" for input x
      unfolding that(2) by (rule assms(5) [OF that(1)])
  qed (rule arg_cong)
  show "case msg_sub_many ops sv now input ctx ws final k ad of
       (Inr (Some _), _, ad') \<Rightarrow> store_of ad' = storage final
     | (_, _, ad') \<Rightarrow> rel (store_of ad') a"
    using assms(2) coordinator_storage.subscribe_begin_keeps_store [OF assms(1,2), of now input]
    by (auto simp: msg_sub_many_def ad_subscribe_many_group_messages_def ad_subscribe_end_def Let_def
        split: prod.splits sum.splits if_splits option.splits) (metis snd_conv)+
qed

theorem identities_are_isolated_witness:
  "\<exists>a'. mem_rel (store_of (snd (handle mem_ops demo_services 0 0 (KpRemove \<lparr>rki_kp_refs = [''r1'']\<rparr>) ''eve'' None
      (demo_adapter demo_store (demo_abuse False 0 0))))) a' \<and>
    others ''eve'' a' = [sample_key_package ''bob'' ''r1'' False]"
  using identities_are_isolated [OF mem.coordinator_storage_axioms demo_adapter_rel,
      where call = "KpRemove \<lparr>rki_kp_refs = [''r1'']\<rparr>" and client = "''eve''", THEN conjunct1]
  by (simp add: sample_key_package_def)

text \<open>
  C11. A publication is bound to its signer. If publishing succeeds, the injected event is there and is
  signed by the caller, the key package parses and its credential is the caller, and the package
  stored is those bytes under that identity, with the marker the parser found and the event's JSON.
\<close>

theorem publication_bound_to_signer:
  assumes "coordinator_storage ops rel reliable" "rel (store_of ad) a"
    and "pki_kp_ref input \<notin> key_package_ref ` set (sp_key_packages a)"
    and "ad_publish_key_package ops sv now stored input client event ad = (Inr out, ad')"
  shows "\<exists>ev kp_bytes p a'. event = Some ev \<and> ev_pubkey ev = client \<and> b64_decode sv (pki_kp_64 input) = Some kp_bytes \<and>
    parse_key_package kp_bytes = Inr p \<and> credential_identity p = client \<and>
    out = \<lparr>pko_kp_ref = pki_kp_ref input, pko_last_resort = parsed_last_resort p, pko_at = stored\<rparr> \<and>
    rel (store_of ad') a' \<and>
    last (sp_key_packages a') = \<lparr>stable_pubkey = client, key_package_bytes = kp_bytes, key_package_ref = pki_kp_ref input,
      is_last_resort = parsed_last_resort p, published_at = stored,
      publication_event = unwrap_or (json_null sv) (event_to_value sv ev)\<rparr>"
proof (rule coordinator_storage.publish_success [OF assms])
  fix ev kp_bytes p a' kpr
  assume facts: "event = Some ev" "ev_pubkey ev = client" "b64_decode sv (pki_kp_64 input) = Some kp_bytes"
    "parse_key_package kp_bytes = Inr p" "credential_identity p = client"
    "out = \<lparr>pko_kp_ref = pki_kp_ref input, pko_last_resort = parsed_last_resort p, pko_at = stored\<rparr>"
    "rel (store_of ad') (a'\<lparr>sp_key_packages := sp_key_packages a' @ [kpr]\<rparr>)"
    and kpr: "kpr = \<lparr>stable_pubkey = client, key_package_bytes = kp_bytes, key_package_ref = pki_kp_ref input,
       is_last_resort = parsed_last_resort p, published_at = stored,
       publication_event = unwrap_or (json_null sv) (event_to_value sv ev)\<rparr>"
  show ?thesis
    by (intro exI [of _ ev] exI [of _ kp_bytes] exI [of _ p]
        exI [of _ "a'\<lparr>sp_key_packages := sp_key_packages a' @ [kpr]\<rparr>"] conjI facts) (simp add: kpr)
qed

theorem publication_bound_to_signer_witness:
  "\<exists>a'. mem_rel (store_of (snd (handle mem_ops demo_services 0 9 (demo_publish ''r2'' True) ''ab'' (Some (demo_event ''ab''))
      (demo_adapter demo_store (demo_abuse False 2 1))))) a' \<and>
    stable_pubkey (last (sp_key_packages a')) = ''ab'' \<and> is_last_resort (last (sp_key_packages a'))"
proof (rule demo_publication)
  fix ad' :: "string InMemoryInner CoordinatorAdapter"
  let ?ad = "demo_adapter demo_store (demo_abuse False 2 1)"
  assume run: "ad_publish_key_package mem_ops demo_services 0 9 demo_input ''ab'' (Some (demo_event ''ab'')) ?ad =
      (Inr \<lparr>pko_kp_ref = ''r2'', pko_last_resort = True, pko_at = 9\<rparr>, ad')"
    and ad': "snd (handle mem_ops demo_services 0 9 (demo_publish ''r2'' True) ''ab'' (Some (demo_event ''ab'')) ?ad) = ad'"
  from publication_bound_to_signer [OF mem.coordinator_storage_axioms demo_adapter_rel _ run]
  show ?thesis unfolding ad' by (auto simp: demo_input_def sample_key_package_def)
qed

text \<open>
  C12. The quota holds. With positive limits a publication under a new reference that
  succeeds leaves the identity with at most \<^verbatim>\<open>max_per_identity\<close> packages, and a last-resort one with
  at most \<^verbatim>\<open>max_last_resort_per_identity\<close> of that kind, among them the new one. Regular packages are
  never evicted.
\<close>

theorem quota_respected:
  assumes "coordinator_storage ops rel reliable" "rel (store_of ad) a"
    and "pki_kp_ref input \<notin> key_package_ref ` set (sp_key_packages a)"
    and "0 < max_per_identity (key_package_quota (abuse ad))" "0 < max_last_resort_per_identity (key_package_quota (abuse ad))"
    and "ad_publish_key_package ops sv now stored input client event ad = (Inr out, ad')"
  shows "\<exists>a'. rel (store_of ad') a' \<and> length (own client a') \<le> max_per_identity (key_package_quota (abuse ad)) \<and>
    (pko_last_resort out \<longrightarrow>
       length (filter is_last_resort (own client a')) \<le> max_last_resort_per_identity (key_package_quota (abuse ad))) \<and>
    filter (\<lambda>r. \<not> is_last_resort r) (own client a) = filter (\<lambda>r. \<not> is_last_resort r \<and> key_package_ref r \<noteq> pki_kp_ref input) (own client a')"
proof (rule coordinator_storage.publish_success [OF assms(1,2,3,6)])
  fix ev kp_bytes p a' kpr
  let ?q = "key_package_quota (abuse ad)" and ?lr = "parsed_last_resort p"
  let ?o = "own client a" and ?ev = "quota_evicts ?q ?lr (own client a)"
  assume out: "out = \<lparr>pko_kp_ref = pki_kp_ref input, pko_last_resort = ?lr, pko_at = stored\<rparr>"
    and kpr: "kpr = \<lparr>stable_pubkey = client, key_package_bytes = kp_bytes, key_package_ref = pki_kp_ref input,
       is_last_resort = ?lr, published_at = stored, publication_event = unwrap_or (json_null sv) (event_to_value sv ev)\<rparr>"
    and admits: "quota_admits ?q ?lr ?o" and a': "a' = drop_refs (map key_package_ref ?ev) a" and rel: "rel (store_of ad') (a'\<lparr>sp_key_packages := sp_key_packages a' @ [kpr]\<rparr>)"
  let ?s = "a'\<lparr>sp_key_packages := sp_key_packages a' @ [kpr]\<rparr>"
  have inv: "spec_inv a" by (rule coordinator_storage.rel_inv [OF assms(1,2)])
  have o': "own client ?s = filter (\<lambda>r. r \<notin> set ?ev) ?o @ [kpr]"
    using own_drop_refs [OF inv, of ?ev client] quota_evicts_subset [of ?q ?lr ?o] by (auto simp: a' kpr)
  have fresh: "key_package_ref r \<noteq> pki_kp_ref input" if "r \<in> set ?o" for r
  proof
    assume eq: "key_package_ref r = pki_kp_ref input"
    have "key_package_ref r \<in> key_package_ref ` set (sp_key_packages a)" using that by (intro imageI) simp
    with assms(3) show False by (simp only: eq)
  qed
  note sizes = quota_kept [OF inv admits assms(4,5)]
  show ?thesis
  proof (intro exI [of _ ?s] conjI impI rel)
    show "length (own client ?s) \<le> max_per_identity ?q" using sizes(1) unfolding o' by (simp del: filter_filter)
    show "length (filter is_last_resort (own client ?s)) \<le> max_last_resort_per_identity ?q" if "pko_last_resort out"
      using that sizes(2) unfolding o' filter_append by (simp add: out kpr del: filter_filter)
    have "filter (\<lambda>r. \<not> is_last_resort r \<and> key_package_ref r \<noteq> pki_kp_ref input) (own client ?s) =
        filter (\<lambda>r. \<not> is_last_resort r \<and> key_package_ref r \<noteq> pki_kp_ref input) (filter (\<lambda>r. r \<notin> set ?ev) ?o)"
      by (simp only: o' filter_append) (simp add: kpr)
    also have "\<dots> = filter (\<lambda>r. \<not> is_last_resort r) ?o"
      unfolding filter_filter [of _ "\<lambda>r. r \<notin> set ?ev"]
      by (rule filter_cong) (use fresh quota_evicts_subset [of ?q ?lr ?o] in auto)
    finally show "filter (\<lambda>r. \<not> is_last_resort r) ?o =
      filter (\<lambda>r. \<not> is_last_resort r \<and> key_package_ref r \<noteq> pki_kp_ref input) (own client ?s)" by (rule sym)
  qed
qed

theorem quota_respected_witness:
  "\<exists>a'. mem_rel (store_of (snd (handle mem_ops demo_services 0 9 (demo_publish ''r2'' True) ''ab'' (Some (demo_event ''ab''))
      (demo_adapter demo_store (demo_abuse False 2 1))))) a' \<and>
    length (own ''ab'' a') \<le> 2 \<and> length (filter is_last_resort (own ''ab'' a')) \<le> 1"
proof (rule demo_publication)
  fix ad' :: "string InMemoryInner CoordinatorAdapter"
  let ?ad = "demo_adapter demo_store (demo_abuse False 2 1)"
  assume run: "ad_publish_key_package mem_ops demo_services 0 9 demo_input ''ab'' (Some (demo_event ''ab'')) ?ad =
      (Inr \<lparr>pko_kp_ref = ''r2'', pko_last_resort = True, pko_at = 9\<rparr>, ad')"
    and ad': "snd (handle mem_ops demo_services 0 9 (demo_publish ''r2'' True) ''ab'' (Some (demo_event ''ab'')) ?ad) = ad'"
  from quota_respected [OF mem.coordinator_storage_axioms demo_adapter_rel _ _ _ run]
  show ?thesis
    unfolding ad' by (auto simp: demo_input_def sample_key_package_def demo_adapter_def CoordinatorAdapter_new_def demo_abuse_def)
qed

text \<open>
  C30. A denied call has no effect. When the rate limiter refuses a caller, each of the eleven tools answers
  \<^verbatim>\<open>RateLimitExceeded\<close> and nothing changes but the limiter itself, whatever the input; a stream is not even
  started. There is one exception: with rejections logged and a caller whose name is cut within a character by the
  log's twelve bytes, the answer is a panic, which no ASCII name (a public key in hexadecimal is one) can cause.
\<close>

theorem denied_call_has_no_effect:
  assumes "\<not> fst (check client now (rate_limiter ad))"
    and "cx_client_pubkey ctx = Some client" "cx_stream_writer ctx = Some w"
  shows "handle ops sv now stored call client event ad =
      (Inl (if log_panics client ad then Panicked else Refused RateLimitExceeded),
       ad\<lparr>rate_limiter := snd (check client now (rate_limiter ad))\<rparr>) \<and>
    msg_sub_many ops sv now input ctx ws final k ad =
      (Inl (if log_panics client ad then ToolPanicked else ErrorData ''Rate limit exceeded''), k,
       ad\<lparr>rate_limiter := snd (check client now (rate_limiter ad))\<rparr>) \<and>
    ((\<forall>c \<in> set client. (of_char c :: nat) < 128) \<longrightarrow> \<not> log_panics client ad)"
proof (intro conjI impI)
  show "handle ops sv now stored call client event ad =
      (Inl (if log_panics client ad then Panicked else Refused RateLimitExceeded),
       ad\<lparr>rate_limiter := snd (check client now (rate_limiter ad))\<rparr>)" by (rule handle_refused [OF assms(1)])
  show "msg_sub_many ops sv now input ctx ws final k ad =
      (Inl (if log_panics client ad then ToolPanicked else ErrorData ''Rate limit exceeded''), k,
       ad\<lparr>rate_limiter := snd (check client now (rate_limiter ad))\<rparr>)"
    using assms(2,3)
    by (simp add: msg_sub_many_def client_pubkey_def stream_writer_def ad_subscribe_many_group_messages_def ad_subscribe_begin_def
        abind_def assert_within_rate_limit_refused [OF assms(1)])
  show "\<not> log_panics client ad" if "\<forall>c \<in> set client. (of_char c :: nat) < 128"
    using ascii_boundary [OF that] by (simp add: log_panics_def)
qed

theorem denied_call_has_no_effect_witness:
  "fst (handle mem_ops demo_services 0 9 (demo_publish ''r2'' True) ''ab'' (Some (demo_event ''ab''))
      (demo_adapter demo_store (demo_abuse True 2 1))) = Inl (Refused RateLimitExceeded)"
proof -
  have "\<not> fst (check ''ab'' 0 (rate_limiter (demo_adapter demo_store (demo_abuse True 2 1))))"
    by (simp add: demo_adapter_def CoordinatorAdapter_new_def demo_abuse_def to_rate_limit_config_def TokenBucketRateLimiter_new_def
        check_def clamp_non_negative_def evict_idle_buckets_def f64_of_int_def)
  note refused = denied_call_has_no_effect [OF this demo_context_fields, THEN conjunct1]
  have "fst (handle mem_ops demo_services 0 9 (demo_publish ''r2'' True) ''ab'' (Some (demo_event ''ab''))
      (demo_adapter demo_store (demo_abuse True 2 1))) =
      Inl (if log_panics ''ab'' (demo_adapter demo_store (demo_abuse True 2 1)) then Panicked else Refused RateLimitExceeded)"
    by (simp only: refused fst_conv)
  moreover have "\<not> log_panics ''ab'' (demo_adapter demo_store (demo_abuse True 2 1))"
    by (simp add: log_panics_def demo_adapter_def CoordinatorAdapter_new_def demo_abuse_def)
  ultimately show ?thesis by simp
qed

text \<open>
  Among the ten tools that \<open>serve\<close> dispatches, that cut is the only panic the model has: for an ASCII caller
  they answer.
\<close>

theorem tools_do_not_panic:
  assumes "\<forall>client. cx_client_pubkey ctx = Some client \<longrightarrow> (\<forall>c \<in> set client. (of_char c :: nat) < 128)"
  shows "fst (serve ops sv inbound_to_value now stored call ctx ad) \<noteq> Inl ToolPanicked"
proof (cases "cx_client_pubkey ctx")
  case None
  then show ?thesis by (simp add: serve_def client_pubkey_def)
next
  case (Some client)
  then have "no_panic (handle ops sv now stored call client event)" for event
    using assms by (intro no_panic_handle ascii_boundary) simp
  then have "fst (handle ops sv now stored call client event ad) \<noteq> Inl Panicked" for event
    by (simp add: no_panic_def)
  then have "adapter_error f \<noteq> ToolPanicked" if "handle ops sv now stored call client event ad = (Inl f, ad')" for event f ad'
    using that by (cases f) (auto simp: prod_eq_iff)
  then show ?thesis
    using Some by (auto simp: serve_def client_pubkey_def inbound_publication_event_def split: prod.split sum.split option.split)
qed

text \<open>
  What publishing refuses, and how, once the limiter has let the caller through: each check of the
  boundary has its own error, the first that fails decides, and the stored data stay as they are.
\<close>

theorem publication_rejections:
  assumes "fst (check client now (rate_limiter ad))"
  shows "(x = [] \<longrightarrow> ad_publish_key_package ops sv now stored \<lparr>pki_kp_ref = x, pki_kp_64 = text\<rparr> client event ad =
      refused (InvalidInput ''kp_ref must be non-empty'') client now ad) \<and>
    (x \<noteq> [] \<and> text = [] \<longrightarrow> ad_publish_key_package ops sv now stored \<lparr>pki_kp_ref = x, pki_kp_64 = text\<rparr> client event ad =
      refused (InvalidInput ''kp_64 must be non-empty'') client now ad) \<and>
    (x \<noteq> [] \<and> text \<noteq> [] \<longrightarrow> (\<forall>e. boundary_error sv client text event = Some e \<longrightarrow>
      ad_publish_key_package ops sv now stored \<lparr>pki_kp_ref = x, pki_kp_64 = text\<rparr> client event ad = refused e client now ad))"
proof -
  note pass = assert_within_rate_limit_passed [OF assms]
  show ?thesis
    by (auto simp: ad_publish_key_package_def abind_def pass require_non_empty_def ensure_def areturn_def afail_def ok_or_def
        refused_def boundary_error_def split: option.splits sum.splits if_splits)
qed

text \<open>
  In memory, making room can remove the package of somebody else. Eviction names packages by their
  reference, and the in-memory backend accepts a reference twice: a publisher who repeats a
  victim's reference and publishes once more has the victim's package removed, and keeps its own.
\<close>

theorem eviction_removes_foreign_package:
  "(case serve_all mem_ops demo_services
       [(''ab'', Some (demo_event ''ab''), 0, 1, demo_publish ''r1'' True),
        (''ab'', Some (demo_event ''ab''), 0, 2, demo_publish ''r2'' True)]
       (demo_adapter demo_store (demo_abuse False 9 1)) of (rs, ad) \<Rightarrow>
     list_all (\<lambda>r. case r of Inl _ \<Rightarrow> False | Inr _ \<Rightarrow> True) rs \<and>
     map_sum id (map key_package_ref) (fst (mem_list_key_packages_for_identity ''bob'' demo_store)) = Inr [''r1''] \<and>
     fst (mem_list_key_packages_for_identity ''bob'' (store_of ad)) = Inr [] \<and>
     map_sum id (map key_package_ref) (fst (mem_list_key_packages_for_identity ''ab'' (store_of ad))) = Inr [''r1'', ''r2''])"
  by code_simp

text \<open>
  A publication that fails can cost the publisher its last-resort package. The old one is evicted
  before the new one is stored and in a transaction of its own: when the database refuses the new
  reference, because it is taken, the identity is left without any.
\<close>

theorem failed_publication_evicts:
  "(case serve_all (sql_ops text_env) demo_services [(''ab'', Some (demo_event ''ab''), 0, 2, demo_publish ''r1'' True)]
       (demo_adapter demo_database (demo_abuse False 9 1)) of (rs, ad) \<Rightarrow>
     list_all (\<lambda>r. case r of Inl (Refused (Storage _)) \<Rightarrow> True | _ \<Rightarrow> False) rs \<and>
     map_sum id (map key_package_ref) (fst (sql_list_key_packages_for_identity text_env ''ab'' demo_database)) = Inr [''r2''] \<and>
     fst (sql_list_key_packages_for_identity text_env ''ab'' (store_of ad)) = Inr [])"
  by code_simp

text \<open>
  C35. What a failed publication can cost. On SQLite, whatever the failure (the request, the quota, a
  reference that is taken, the engine at any statement), the stored data are as before but for a first
  part of the publisher's own last-resort packages, in their order: none if they are fewer than
  \<^verbatim>\<open>max_last_resort_per_identity\<close>, and no more than make room for one.
\<close>

theorem failed_publication_cost:
  assumes "json_round_trip env" "sql_rel env (store_of ad) a"
    and "ad_publish_key_package (sql_ops env) sv now stored input client event ad = (Inl e, ad')"
    and "last_resort = filter is_last_resort (own client a)" "m = max_last_resort_per_identity (key_package_quota (abuse ad))"
  shows "\<exists>k. k \<le> length last_resort + 1 - m \<and> (m = 0 \<longrightarrow> k = 0) \<and>
    sql_rel env (store_of ad')
      (a\<lparr>sp_key_packages := filter (\<lambda>r. r \<notin> set (take k last_resort)) (sp_key_packages a)\<rparr>)"
proof -
  let ?ev = "quota_evicts (key_package_quota (abuse ad)) True (own client a)"
  have inv: "spec_inv a" by (rule coordinator_storage.rel_inv [OF sql_storage [OF assms(1)] assms(2)])
  have put: "sql_rel env s' x" if "so_publish_key_package (sql_ops env) r s = (Inl err, s')" "sql_rel env s x" for r s err s' x
  proof -
    have "db s' = db s" using that(1) atomic_publish [of env r] by (simp add: sql_ops_def atomic_def)
    with that(2) show ?thesis by (simp add: sql_rel_def)
  qed
  have "\<exists>k. sql_rel env (store_of ad') (drop_refs (take k (map key_package_ref ?ev)) a)"
    by (rule coordinator_storage.publish_failure [OF sql_storage [OF assms(1)] assms(2) _ assms(3)]) (rule put)
  then obtain k where k: "sql_rel env (store_of ad') (drop_refs (take k (map key_package_ref ?ev)) a)" by blast
  have "\<exists>j. j \<le> length last_resort + 1 - m \<and> (m = 0 \<longrightarrow> j = 0) \<and> take k ?ev = take j last_resort"
    by (intro exI [of _ "if 0 < m \<and> m \<le> length last_resort then min k (length last_resort - m + 1) else 0"])
      (auto simp: quota_evicts_def Let_def assms(4,5) min_def)
  then obtain j where j: "j \<le> length last_resort + 1 - m" "m = 0 \<longrightarrow> j = 0" "take k ?ev = take j last_resort" by blast
  have mem: "set (take j last_resort) \<subseteq> set (sp_key_packages a)" by (auto simp: assms(4) dest!: in_set_takeD)
  have "key_package_ref r \<in> key_package_ref ` set (take j last_resort) \<longleftrightarrow> r \<in> set (take j last_resort)"
    if "r \<in> set (sp_key_packages a)" for r
    using that mem inv distinct_key_unique [of key_package_ref "sp_key_packages a" r] by (auto simp: spec_inv_def)
  then have "drop_refs (take k (map key_package_ref ?ev)) a =
      a\<lparr>sp_key_packages := filter (\<lambda>r. r \<notin> set (take j last_resort)) (sp_key_packages a)\<rparr>"
    by (simp add: drop_refs_def take_map j(3) cong: filter_cong)
  with k j(1,2) show ?thesis by metis
qed

theorem failed_publication_cost_witness:
  "\<exists>a k. k \<le> 1 \<and> sp_key_packages a = [sample_key_package ''bob'' ''r1'' False, sample_key_package ''ab'' ''r2'' True] \<and>
     sql_rel text_env (store_of (snd (ad_publish_key_package (sql_ops text_env) demo_services 0 2
         (demo_input\<lparr>pki_kp_ref := ''r1''\<rparr>) ''ab'' (Some (demo_event ''ab'')) (demo_adapter demo_database (demo_abuse False 9 1)))))
       (a\<lparr>sp_key_packages := filter (\<lambda>r. r \<notin> set (take k [sample_key_package ''ab'' ''r2'' True])) (sp_key_packages a)\<rparr>)"
proof -
  let ?calls = "[PublishKeyPackage (sample_key_package ''bob'' ''r1'' False),
     PublishKeyPackage (sample_key_package ''ab'' ''r2'' True)]"
  let ?ad = "demo_adapter demo_database (demo_abuse False 9 1)"
  let ?run = "ad_publish_key_package (sql_ops text_env) demo_services 0 2 (demo_input\<lparr>pki_kp_ref := ''r1''\<rparr>) ''ab''
    (Some (demo_event ''ab'')) ?ad"
  have "sp_key_packages (snd (run spec_ops ?calls spec_empty)) =
    [sample_key_package ''bob'' ''r1'' False, sample_key_package ''ab'' ''r2'' True]" by code_simp
  moreover have "sql_rel text_env (store_of ?ad) (snd (run spec_ops ?calls spec_empty))"
    using sql_run(2) [OF text_env_round_trip, of ?calls]
    by (simp add: demo_adapter_def CoordinatorAdapter_new_def Coordinator_new_def demo_database_def sample_key_package_def)
  ultimately obtain a where rel: "sql_rel text_env (store_of ?ad) a"
    and a: "sp_key_packages a = [sample_key_package ''bob'' ''r1'' False, sample_key_package ''ab'' ''r2'' True]" by blast
  have "map_sum id (\<lambda>_. ()) (fst ?run) = Inl (Refused (Storage (Backend ''UNIQUE constraint failed'')))" by code_simp
  then obtain e where "fst ?run = Inl e" by (cases "fst ?run") auto
  then have run: "?run = (Inl e, snd ?run)" by (metis prod.collapse)
  have own: "filter is_last_resort (own ''ab'' a) = [sample_key_package ''ab'' ''r2'' True]"
    by (simp add: a sample_key_package_def)
  have m: "max_last_resort_per_identity (key_package_quota (abuse ?ad)) = 1"
    by (simp add: demo_adapter_def CoordinatorAdapter_new_def demo_abuse_def)
  from failed_publication_cost [OF text_env_round_trip rel run refl refl] a show ?thesis
    unfolding own m by (intro exI [of _ a]) auto
qed

text \<open>
  A limit of zero for last-resort packages, which the configuration accepts, switches the other
  limit off for them: here a quota of one package per identity lets three through.
\<close>

theorem zero_last_resort_limit_lifts_quota:
  "(case serve_all mem_ops demo_services
       [(''ab'', Some (demo_event ''ab''), 0, 1, demo_publish ''r2'' True),
        (''ab'', Some (demo_event ''ab''), 0, 2, demo_publish ''r3'' True),
        (''ab'', Some (demo_event ''ab''), 0, 3, demo_publish ''r4'' True)]
       (demo_adapter demo_store (demo_abuse False 1 0)) of (rs, ad) \<Rightarrow>
     list_all (\<lambda>r. case r of Inl _ \<Rightarrow> False | Inr _ \<Rightarrow> True) rs \<and>
     map_sum id (map key_package_ref) (fst (mem_list_key_packages_for_identity ''ab'' (store_of ad))) = Inr [''r2'', ''r3'', ''r4''])"
  by code_simp

definition demo_posts :: "request list" where
  "demo_posts = [(''ab'', None, 0, 5, MsgPost \<lparr>pmi_msg_64 = ''hi'', pmi_gid = ''g''\<rparr>),
     (''bob'', None, 0, 6, MsgPost \<lparr>pmi_msg_64 = ''x'', pmi_gid = ''h''\<rparr>),
     (''bob'', None, 0, 7, MsgPost \<lparr>pmi_msg_64 = [], pmi_gid = ''g''\<rparr>),
     (''bob'', None, 0, 8, MsgPost \<lparr>pmi_msg_64 = ''yo'', pmi_gid = ''g''\<rparr>)]"

abbreviation demo_empty :: "string InMemoryInner CoordinatorAdapter" where
  "demo_empty \<equiv> demo_adapter InMemoryInner_default (demo_abuse False 0 0)"

abbreviation demo_fetch :: tool_call where
  "demo_fetch \<equiv> MsgFetchMany \<lparr>fmg_groups = [\<lparr>fgi_gid = ''g'', fgi_after = None\<rparr>]\<rparr>"

lemma demo_codec: "b64_decode demo_services s = Some b \<Longrightarrow> b64_encode demo_services b = s"
  by (auto simp: demo_services_def comp_def char_of_byte_of_char)

lemma demo_empty_rel: "mem_rel (store_of demo_empty) spec_empty"
  using mem_rel_default by (simp add: demo_adapter_def CoordinatorAdapter_new_def Coordinator_new_def)

text \<open>
  C24. What \<^verbatim>\<open>kp_remove\<close> removes. Whatever the call answers, exactly the packages of some first part of
  the references are gone, all of them the caller's own. On success that part is the whole request;
  when a reference is unknown or belongs to somebody else, it is the one the removal stopped at.
\<close>

theorem removal_takes_own_prefix:
  assumes "coordinator_storage ops rel reliable" "rel (store_of ad) a"
    and "ad_remove_key_packages ops now \<lparr>rki_kp_refs = refs\<rparr> client ad = (r, ad')"
  shows "\<exists>gone rest a'. rel (store_of ad') a' \<and> refs = gone @ rest \<and> owned_refs client gone a \<and>
    sp_key_packages a' = filter (\<lambda>k. key_package_ref k \<notin> set gone) (sp_key_packages a) \<and>
    (case r of Inl f \<Rightarrow> removal_stopped client f rest a' | Inr out \<Rightarrow> rest = [] \<and> rko_kp_refs out = refs)"
proof -
  from coordinator_storage.remove_exact [OF assms] obtain a' where a': "rel (store_of ad') a'"
    "case r of Inl f \<Rightarrow> removed_prefix client refs a f a'
      | Inr out \<Rightarrow> rko_kp_refs out = refs \<and> a' = drop_refs refs a \<and> owned_refs client refs a" by blast
  show ?thesis
  proof (cases r)
    case (Inl f)
    with a'(2) obtain gone rest where "refs = gone @ rest" "a' = drop_refs gone a" "owned_refs client gone a"
      "removal_stopped client f rest a'" by (auto simp: removed_prefix_def)
    with a'(1) Inl show ?thesis
      by (intro exI [of _ gone] exI [of _ rest] exI [of _ a']) (simp add: drop_refs_def)
  next
    case (Inr out)
    with a' show ?thesis
      by (intro exI [of _ refs] exI [of _ "[]"] exI [of _ a']) (simp add: drop_refs_def)
  qed
qed

theorem removal_takes_own_prefix_witness:
  "\<exists>a'. mem_rel (store_of (snd (ad_remove_key_packages mem_ops 0 \<lparr>rki_kp_refs = [''r1'', ''r9'']\<rparr> ''eve''
      (demo_adapter demo_store (demo_abuse False 0 0))))) a' \<and>
    sp_key_packages a' = [sample_key_package ''bob'' ''r1'' False]"
proof -
  let ?run = "ad_remove_key_packages mem_ops 0 \<lparr>rki_kp_refs = [''r1'', ''r9'']\<rparr> ''eve'' (demo_adapter demo_store (demo_abuse False 0 0))"
  from removal_takes_own_prefix [OF mem.coordinator_storage_axioms demo_adapter_rel prod.collapse [symmetric],
      of 0 "[''r1'', ''r9'']" "''eve''" "demo_abuse False 0 0"]
  obtain gone rest a' where "mem_rel (store_of (snd ?run)) a'" "[''r1'', ''r9''] = gone @ rest"
    "owned_refs ''eve'' gone \<lparr>sp_key_packages = [sample_key_package ''bob'' ''r1'' False], sp_welcomes = [],
       sp_join_requests = [], sp_messages = []\<rparr>"
    "sp_key_packages a' = filter (\<lambda>k. key_package_ref k \<notin> set gone) [sample_key_package ''bob'' ''r1'' False]"
    by auto
  moreover from this(3) have "gone = []" by (cases gone) (auto simp: owned_refs_def sample_key_package_def)
  ultimately show ?thesis by auto
qed

text \<open>
  C20. A subscription's stream has the subscriber's channel in order. Whatever the timing of the loop,
  the client and the coordinator, what the tool has written is the serialised messages of the
  channel from its first one, without gap or repetition; the channel may grow while the loop runs,
  and a stream that ends answers the groups that were asked for.
\<close>

theorem stream_follows_channel:
  assumes "cx_client_pubkey ctx = Some client" "cx_stream_writer ctx = Some w"
    and "ad_subscribe_begin ops now input client ad = (Inr (gids, h), ad1)"
    and "msg_sub_many ops sv now input ctx ws final k ad = (Inr result, k', ad')"
    and "\<forall>m k. log_of (snd (ow_write w m k)) = (if fst (ow_write w m k) then log_of k @ [m] else log_of k)"
    and "\<forall>k. log_of (snd (ow_start w k)) = log_of k \<and> log_of (snd (ow_close w k)) = log_of k"
    and "\<forall>t \<in> set ws. \<forall>k. log_of (wk_outside t k) = log_of k" "channel_grows (subscriber_id h) sent ws"
  shows "(\<exists>n. log_of k' = log_of k @ map (wire_message sv) (take n sent)) \<and>
    (\<forall>out. result = Some out \<longrightarrow> smo_groups out = map fgi_gid (smi_groups input))"
proof -
  let ?sink = "StreamWriter w"
  have run: "ad_subscribe_many_group_messages ops sv ?sink now input client ws final k ad = (Inr result, k', ad')"
    using assms(1,2,4) by (auto simp: msg_sub_many_def client_pubkey_def stream_writer_def split: prod.splits sum.splits)
  have log: "stream_log ?sink log_of ws" using assms(5,7)
    by (simp add: stream_log_def StreamWriter_def split_def Let_def)
  have ends: "log_of (snd (sink_start ?sink k)) = log_of k" "log_of (sink_close ?sink k) = log_of k" for k
    using assms(6) by (simp_all add: StreamWriter_def)
  note h = subscribe_begin_handle [OF assms(3)]
  obtain ended h1 k1 where loop: "stream_loop sv ?sink ws h (snd (sink_start ?sink k)) = (ended, h1, k1)"
    by (cases "stream_loop sv ?sink ws h (snd (sink_start ?sink k))")
  from stream_loop_log [OF log assms(8) loop] h ends obtain n where
    "log_of k1 = log_of k @ map (wire_message sv) (take n sent)" by auto
  moreover have "log_of k' = log_of k1" "\<forall>out. result = Some out \<longrightarrow> smo_groups out = gids"
    using assms(3) run ends loop
    by (auto simp: ad_subscribe_many_group_messages_def ad_subscribe_end_def Let_def split: if_splits)
  ultimately show ?thesis using h by auto
qed

definition demo_subscription :: SubscribeManyGroupMessagesInput where
  "demo_subscription = \<lparr>smi_groups = [\<lparr>fgi_gid = ''g'', fgi_after = None\<rparr>]\<rparr>"

definition demo_subscribed :: "string InMemoryInner CoordinatorAdapter" where
  "demo_subscribed = snd (ad_subscribe_begin mem_ops 0 demo_subscription ''ab'' demo_empty)"

definition demo_turns :: "(string InMemoryInner, bool \<times> string list) wakeup list" where
  "demo_turns =
     [\<lparr>wk_coordinator = coordinator (snd (serve_all mem_ops demo_services demo_posts demo_subscribed)), wk_outside = id, wk_timer = False\<rparr>,
      \<lparr>wk_coordinator = coordinator (snd (serve_all mem_ops demo_services demo_posts demo_subscribed)), wk_outside = id, wk_timer = True\<rparr>]"

definition demo_stream :: "bool \<Rightarrow> (tool_failure + SubscribeManyGroupMessagesOutput option) \<times> (bool \<times> string list) \<times>
    string InMemoryInner CoordinatorAdapter" where
  "demo_stream active = msg_sub_many mem_ops demo_services 0 demo_subscription demo_context demo_turns
     (coordinator demo_subscribed) (active, []) demo_empty"

theorem stream_follows_channel_witness:
  "\<exists>n sent. map opaque_message sent = [[104, 105], [121, 111]] \<and> 0 < length (snd (fst (snd (demo_stream True)))) \<and>
     snd (fst (snd (demo_stream True))) = map (wire_message demo_services) (take n sent)"
proof -
  let ?run = "ad_subscribe_begin mem_ops 0 demo_subscription ''ab'' demo_empty"
  let ?sent = "channel_contents 1 (coordinator (snd (serve_all mem_ops demo_services demo_posts demo_subscribed)))"
  have "(case fst ?run of Inl _ \<Rightarrow> False | Inr (gids, h) \<Rightarrow> subscriber_id h = 1)" by code_simp
  then obtain gids h where begin_run: "?run = (Inr (gids, h), demo_subscribed)" "subscriber_id h = 1"
    unfolding demo_subscribed_def by (cases ?run) (auto split: sum.splits)
  have "(case fst (demo_stream True) of Inl _ \<Rightarrow> False | Inr _ \<Rightarrow> True)" by code_simp
  then obtain result where stream: "demo_stream True = (Inr result, fst (snd (demo_stream True)), snd (snd (demo_stream True)))"
    by (cases "demo_stream True") (auto split: sum.splits)
  have writer: "\<forall>m k. snd (snd (ow_write demo_writer m k)) = (if fst (ow_write demo_writer m k) then snd k @ [m] else snd k)"
    "\<forall>k. snd (snd (ow_start demo_writer k)) = snd k \<and> snd (snd (ow_close demo_writer k)) = snd k"
    by (simp_all add: demo_writer_def split_def)
  have outside: "\<forall>t \<in> set demo_turns. \<forall>k. snd (wk_outside t k) = snd k"
    by (auto simp: demo_turns_def)
  have grows: "channel_grows (subscriber_id h) ?sent demo_turns"
    by (simp add: channel_grows_def demo_turns_def begin_run(2))
  have ctx: "cx_client_pubkey demo_context = Some ''ab''" "cx_stream_writer demo_context = Some demo_writer"
    by (simp_all add: demo_context_def)
  obtain n where "snd (fst (snd (demo_stream True))) = map (wire_message demo_services) (take n ?sent)"
    using stream_follows_channel [OF ctx begin_run(1) stream [unfolded demo_stream_def] writer outside grows]
    by (auto simp: demo_stream_def)
  moreover have "map opaque_message ?sent = [[104, 105], [121, 111]]" "0 < length (snd (fst (snd (demo_stream True))))" by code_simp+
  ultimately show ?thesis by (intro exI [of _ n] exI [of _ ?sent] conjI)
qed

text \<open>
  C31. A subscription of a client that goes away ends. If the tool is still streaming after some turns of its loop and
  the stream has become inactive by then, and nothing makes it active again, the tool returns its
  result once its timer has fired, whatever else happens.
\<close>

theorem abandoned_stream_ends:
  assumes "cx_stream_writer ctx = Some w"
    and "msg_sub_many ops sv now input ctx before final k ad = (Inr None, k1, ad1)" "\<not> ow_is_active w k1"
    and "\<forall>k. \<not> ow_is_active w k \<longrightarrow> (\<forall>m. \<not> ow_is_active w (snd (ow_write w m k))) \<and> (\<forall>t \<in> set after. \<not> ow_is_active w (wk_outside t k))"
    and "\<exists>t \<in> set after. wk_timer t"
  shows "\<exists>out. fst (msg_sub_many ops sv now input ctx (before @ after) final k ad) = Inr (Some out)"
proof -
  let ?sink = "StreamWriter w"
  obtain client gids h ad0 where start: "cx_client_pubkey ctx = Some client"
      "ad_subscribe_begin ops now input client ad = (Inr (gids, h), ad0)"
    and streaming: "ad_subscribe_many_group_messages ops sv ?sink now input client before final k ad = (Inr None, k1, ad1)"
    using assms(1,2)
    by (auto simp: msg_sub_many_def client_pubkey_def stream_writer_def ad_subscribe_many_group_messages_def
        split: prod.splits sum.splits option.splits)
  from streaming start(2) obtain h1 where loop: "stream_loop sv ?sink before h (snd (sink_start ?sink k)) = (False, h1, k1)"
    by (auto simp: ad_subscribe_many_group_messages_def Let_def split: prod.splits if_splits)
  have "stays_inactive ?sink after"
    using assms(4) by (auto simp: stays_inactive_def StreamWriter_def Let_def split_def)
  then have "fst (stream_loop sv ?sink after h1 k1)"
    using assms(3,5) by (intro stream_loop_ends) (auto simp: StreamWriter_def)
  then have "fst (stream_loop sv ?sink (before @ after) h (snd (sink_start ?sink k)))"
    by (simp add: stream_loop_append [OF loop])
  then show ?thesis
    using assms(1) start
    by (auto simp: msg_sub_many_def client_pubkey_def stream_writer_def ad_subscribe_many_group_messages_def Let_def split: prod.split)
qed

text \<open>The client is there for the first message and gone before the second.\<close>

definition leaving_turns :: "(string InMemoryInner, bool \<times> string list) wakeup list" where
  "leaving_turns = demo_turns @ [\<lparr>wk_coordinator = coordinator demo_subscribed, wk_outside = \<lambda>(_, out). (False, out), wk_timer = False\<rparr>]"

definition timer_turn :: "(string InMemoryInner, bool \<times> string list) wakeup" where
  "timer_turn = \<lparr>wk_coordinator = coordinator demo_subscribed, wk_outside = id, wk_timer = True\<rparr>"

theorem abandoned_stream_ends_witness:
  "\<exists>out. fst (msg_sub_many mem_ops demo_services 0 demo_subscription demo_context (leaving_turns @ [timer_turn])
     (coordinator demo_subscribed) (True, []) demo_empty) = Inr (Some out)"
proof -
  let ?run = "msg_sub_many mem_ops demo_services 0 demo_subscription demo_context leaving_turns (coordinator demo_subscribed) (True, []) demo_empty"
  have "case ?run of (r, k, _) \<Rightarrow> r = Inr None \<and> k = (False, [''hi''])" by code_simp
  then obtain ad1 where run: "?run = (Inr None, (False, [''hi'']), ad1)" by (cases ?run) auto
  show ?thesis
    by (rule abandoned_stream_ends [where w = demo_writer, OF _ run])
      (auto simp: demo_context_def demo_writer_def timer_turn_def split_def)
qed

end
