(* ===== verification/Sqlite_Schema.thy ===== *)
theory Sqlite_Schema
  imports Sqlite Config
begin

text \<open>
  Opening a database, \<^verbatim>\<open>SqliteCoordinatorStorage::open\<close> and \<^verbatim>\<open>init\<close> of
  \<^verbatim>\<open>crates/cordn-core/src/storage/sqlite.rs\<close>: the schema that is created where it is missing, and the
  migrations of older databases. Here a table has whatever columns its file has: a row gives values
  to column names, which is how the source reads it. The typed tables of \<open>Sqlite\<close> are what the
  operations see once the schema is in place.

  An \<^verbatim>\<open>ALTER TABLE\<close> refuses to add a column that is there, and to drop one that is missing, a key or
  in an index; a \<^verbatim>\<open>CREATE INDEX\<close> refuses unknown columns and, when it is unique, repeated values.
  As in \<open>Sqlite\<close>, \<open>os_engine\<close> holds what the engine does with the next statements, and
  \<open>engine_error\<close> is the text of a statement's own failure.
\<close>

section \<open>Databases with any schema\<close>

datatype sql_type = INTEGER | TEXT | BLOB

datatype sql_value = Null | Integer i64 | Text string | Blob bytes

record column =
  col_name :: string
  col_type :: sql_type
  col_not_null :: bool

record raw_table =
  columns :: "column list"
  key_columns :: "string list"
  raw_rows :: "(string \<times> sql_value) list list"

record index =
  ix_table :: string
  ix_columns :: "string list"

record raw_db =
  raw_tables :: "(string \<times> raw_table) list"
  raw_indexes :: "(string \<times> index) list"

record schema_connection =
  raw :: raw_db
  pragmas :: "(string \<times> string) list"
  os_engine :: "string option list"
  engine_error :: string

definition column_names :: "raw_db \<Rightarrow> string \<Rightarrow> string list" where
  "column_names d t = (case map_of (raw_tables d) t of None \<Rightarrow> [] | Some tab \<Rightarrow> map col_name (columns tab))"

section \<open>Statements\<close>

datatype statement =
    CREATE_TABLE string "column list" "string list"
  | CREATE_INDEX string bool string "string list"
  | ADD_COLUMN string column
  | DROP_COLUMN string string

definition has_duplicates :: "string list \<Rightarrow> (string \<times> sql_value) list list \<Rightarrow> bool" where
  "has_duplicates cs rs =
     (\<not> distinct (filter (\<lambda>vs. \<not> list_ex (\<lambda>v. v = Some Null) vs) (map (\<lambda>r. map (map_of r) cs) rs)))"

fun perform :: "statement \<Rightarrow> raw_db \<Rightarrow> raw_db option" where
  "perform (CREATE_TABLE t cs keys) d =
     (case map_of (raw_tables d) t of
        Some _ \<Rightarrow> Some d
      | None \<Rightarrow> Some (d\<lparr>raw_tables := raw_tables d @ [(t, \<lparr>columns = cs, key_columns = keys, raw_rows = []\<rparr>)]\<rparr>))"
| "perform (CREATE_INDEX i unique t cs) d =
     (case map_of (raw_indexes d) i of
        Some _ \<Rightarrow> Some d
      | None \<Rightarrow>
          (case map_of (raw_tables d) t of
             None \<Rightarrow> None
           | Some tab \<Rightarrow>
               if \<not> list_all (\<lambda>c. c \<in> set (map col_name (columns tab))) cs then None
               else if unique \<and> has_duplicates cs (raw_rows tab) then None
               else Some (d\<lparr>raw_indexes := raw_indexes d @ [(i, \<lparr>ix_table = t, ix_columns = cs\<rparr>)]\<rparr>)))"
| "perform (ADD_COLUMN t c) d =
     (case map_of (raw_tables d) t of
        None \<Rightarrow> None
      | Some tab \<Rightarrow>
          if col_name c \<in> set (map col_name (columns tab)) then None
          else Some (d\<lparr>raw_tables := AList.update t
            (tab\<lparr>columns := columns tab @ [c], raw_rows := map (\<lambda>r. r @ [(col_name c, Null)]) (raw_rows tab)\<rparr>)
            (raw_tables d)\<rparr>))"
| "perform (DROP_COLUMN t c) d =
     (case map_of (raw_tables d) t of
        None \<Rightarrow> None
      | Some tab \<Rightarrow>
          if c \<notin> set (map col_name (columns tab)) \<or> c \<in> set (key_columns tab) \<or>
             list_ex (\<lambda>(_, ix). ix_table ix = t \<and> c \<in> set (ix_columns ix)) (raw_indexes d) then None
          else Some (d\<lparr>raw_tables := AList.update t
            (tab\<lparr>columns := filter (\<lambda>x. col_name x \<noteq> c) (columns tab), raw_rows := map (AList.delete c) (raw_rows tab)\<rparr>)
            (raw_tables d)\<rparr>))"

section \<open>The driver\<close>

text \<open>A statement, or another call of the driver, that the engine may fail.\<close>

definition engine_call :: "(raw_db \<Rightarrow> raw_db option) \<Rightarrow> (schema_connection, unit) sop" where
  "engine_call f c =
     (let rest = c\<lparr>os_engine := drop 1 (os_engine c)\<rparr> in
      case os_engine c of
        Some msg # _ \<Rightarrow> (Inl (Backend msg), rest)
      | _ \<Rightarrow> (case f (raw c) of
          None \<Rightarrow> (Inl (Backend (engine_error c)), rest)
        | Some d \<Rightarrow> (Inr (), rest\<lparr>raw := d\<rparr>)))"

fun execute_batch :: "statement list \<Rightarrow> (schema_connection, unit) sop" where
  "execute_batch [] = sreturn ()"
| "execute_batch (s # ss) = sbind (engine_call (perform s)) (\<lambda>_. execute_batch ss)"

definition set_pragma :: "string \<Rightarrow> string \<Rightarrow> (schema_connection, unit) sop" where
  "set_pragma name v = sbind (engine_call Some) (\<lambda>_ c. (Inr (), c\<lparr>pragmas := AList.update name v (pragmas c)\<rparr>))"

fun fetch_names :: "string list \<Rightarrow> string list \<Rightarrow> (schema_connection, string list) sop" where
  "fetch_names [] out = sreturn out"
| "fetch_names (n # ns) out = sbind (engine_call Some) (\<lambda>_. fetch_names ns (out @ [n]))"

definition table_columns :: "string \<Rightarrow> (schema_connection, string list) sop" where
  "table_columns t =
     sbind (engine_call Some) (\<lambda>_. sbind (engine_call Some) (\<lambda>_ c. fetch_names (column_names (raw c) t) [] c))"

definition has_column :: "string \<Rightarrow> string \<Rightarrow> (schema_connection, bool) sop" where
  "has_column t c = sbind (table_columns t) (\<lambda>names. sreturn (c \<in> set names))"

section \<open>The schema\<close>

abbreviation not_null :: "string \<Rightarrow> sql_type \<Rightarrow> column" where
  "not_null n ty \<equiv> \<lparr>col_name = n, col_type = ty, col_not_null = True\<rparr>"

abbreviation nullable :: "string \<Rightarrow> sql_type \<Rightarrow> column" where
  "nullable n ty \<equiv> \<lparr>col_name = n, col_type = ty, col_not_null = False\<rparr>"

definition KEY_PACKAGE_WELCOME_JOIN_SCHEMA_SQL :: "statement list" where
  "KEY_PACKAGE_WELCOME_JOIN_SCHEMA_SQL =
     [CREATE_TABLE ''key_packages''
        [nullable ''id'' INTEGER, not_null ''stable_pubkey'' TEXT, not_null ''key_package_ref'' TEXT,
         not_null ''key_package_bytes'' BLOB, not_null ''is_last_resort'' INTEGER, not_null ''published_at'' INTEGER,
         not_null ''publication_event_json'' TEXT] [''id'', ''key_package_ref''],
      CREATE_INDEX ''idx_key_packages_identity_order'' False ''key_packages'' [''stable_pubkey'', ''id''],
      CREATE_INDEX ''idx_key_packages_identity_last_resort_order'' False ''key_packages''
        [''stable_pubkey'', ''is_last_resort'', ''id''],
      CREATE_TABLE ''welcomes''
        [nullable ''id'' INTEGER, not_null ''target_stable_pubkey'' TEXT, not_null ''key_package_reference'' TEXT,
         not_null ''welcome_bytes'' BLOB, not_null ''created_at'' INTEGER] [''id''],
      CREATE_INDEX ''idx_welcomes_target_order'' False ''welcomes'' [''target_stable_pubkey'', ''id''],
      CREATE_TABLE ''join_requests''
        [nullable ''id'' INTEGER, not_null ''group_id'' TEXT, not_null ''requester_stable_pubkey'' TEXT,
         not_null ''key_package_ref'' TEXT, not_null ''created_at'' INTEGER] [''id''],
      CREATE_INDEX ''idx_join_requests_group_order'' False ''join_requests'' [''group_id'', ''id'']]"

definition GROUP_SCHEMA_SQL :: "statement list" where
  "GROUP_SCHEMA_SQL =
     [CREATE_TABLE ''group_routing''
        [nullable ''group_id'' TEXT, not_null ''last_message_cursor'' INTEGER] [''group_id''],
      CREATE_TABLE ''group_messages''
        [nullable ''id'' INTEGER, not_null ''cursor'' INTEGER, not_null ''group_id'' TEXT,
         not_null ''opaque_message'' BLOB, not_null ''created_at'' INTEGER] [''id''],
      CREATE_INDEX ''idx_group_messages_group_cursor_unique'' True ''group_messages'' [''group_id'', ''cursor''],
      CREATE_INDEX ''idx_group_messages_group_cursor'' False ''group_messages'' [''group_id'', ''cursor'']]"

section \<open>Opening a database\<close>

definition add_column_if_missing :: "string \<Rightarrow> column \<Rightarrow> (schema_connection, unit) sop" where
  "add_column_if_missing t c =
     sbind (has_column t (col_name c)) (\<lambda>there.
       if there then sreturn () else engine_call (perform (ADD_COLUMN t c)))"

definition drop_column_if_there :: "string \<Rightarrow> string \<Rightarrow> (schema_connection, unit) sop" where
  "drop_column_if_there t c =
     sbind (has_column t c) (\<lambda>there. if there then engine_call (perform (DROP_COLUMN t c)) else sreturn ())"

definition schema_init :: "Synchronous \<Rightarrow> (schema_connection, unit) sop" where
  "schema_init synchronous =
     sbind (set_pragma ''journal_mode'' ''WAL'') (\<lambda>_.
     sbind (set_pragma ''foreign_keys'' ''ON'') (\<lambda>_.
     sbind (set_pragma ''busy_timeout'' ''5000'') (\<lambda>_.
     sbind (set_pragma ''synchronous'' (Synchronous_pragma synchronous)) (\<lambda>_.
     sbind (execute_batch KEY_PACKAGE_WELCOME_JOIN_SCHEMA_SQL) (\<lambda>_.
     sbind (add_column_if_missing ''welcomes'' (nullable ''join_after_cursor'' INTEGER)) (\<lambda>_.
     sbind (execute_batch GROUP_SCHEMA_SQL) (\<lambda>_.
     sbind (drop_column_if_there ''group_messages'' ''ephemeral_sender_pubkey'') (\<lambda>_.
     sbind (drop_column_if_there ''group_messages'' ''epoch'') (\<lambda>_.
     drop_column_if_there ''group_routing'' ''latest_handshake_epoch'')))))))))"

text \<open>
  \<^verbatim>\<open>Connection::open\<close>: \<open>files\<close> is what the database files hold (a missing one is empty), and no path or
  \<^verbatim>\<open>:memory:\<close> opens an empty database. The first outcome is that of opening.
\<close>

definition empty_raw :: raw_db where
  "empty_raw = \<lparr>raw_tables = [], raw_indexes = []\<rparr>"

definition connection_open :: "(string \<Rightarrow> raw_db) \<Rightarrow> string \<Rightarrow> string option list \<Rightarrow> string \<Rightarrow> schema_connection" where
  "connection_open files path os err =
     \<lparr>raw = (if path = '':memory:'' then empty_raw else files path), pragmas = [], os_engine = os, engine_error = err\<rparr>"

definition storage_open :: "(string \<Rightarrow> raw_db) \<Rightarrow> string option \<Rightarrow> Synchronous \<Rightarrow> string option list \<Rightarrow> string \<Rightarrow>
    (StorageError + unit) \<times> schema_connection" where
  "storage_open files path synchronous os err =
     sbind (engine_call Some) (\<lambda>_. schema_init synchronous) (connection_open files (unwrap_or '':memory:'' path) os err)"

definition open_in_memory :: "string option list \<Rightarrow> string \<Rightarrow> (StorageError + unit) \<times> schema_connection" where
  "open_in_memory os err = storage_open (\<lambda>_. empty_raw) None Normal os err"

end
