(* ===== verification/Sqlite_Migration.thy ===== *)
theory Sqlite_Migration
  imports Sqlite_Schema
begin

text \<open>
  Why opening a database is safe to repeat and to interrupt. \<open>ensured_steps\<close> is the interface of a
  sequence of steps that each establish a fact, do nothing where the fact holds, and never undo a
  fact of another; the steps of \<open>schema_init\<close> are an instance. \<open>does m is\<close> says that \<open>m\<close> performs a
  first part of the steps \<open>is\<close>, all of them when it succeeds.
\<close>

section \<open>Steps that can be repeated\<close>

fun run_steps :: "('i \<Rightarrow> 'd \<Rightarrow> 'd option) \<Rightarrow> 'i list \<Rightarrow> 'd \<Rightarrow> 'd option" where
  "run_steps step [] d = Some d"
| "run_steps step (i # is) d = Option.bind (step i d) (run_steps step is)"

lemma run_steps_append: "run_steps step (is @ js) d = Option.bind (run_steps step is d) (run_steps step js)"
  by (induction "is" arbitrary: d) (auto split: Option.bind_splits)

locale ensured_steps =
  fixes step :: "'i \<Rightarrow> 'd \<Rightarrow> 'd option" and met :: "'i \<Rightarrow> 'd \<Rightarrow> bool" and steps :: "'i list"
  assumes achieves: "i \<in> set steps \<Longrightarrow> step i d = Some d' \<Longrightarrow> met i d'"
    and skips: "i \<in> set steps \<Longrightarrow> met i d \<Longrightarrow> step i d = Some d"
    and stable: "i \<in> set steps \<Longrightarrow> j \<in> set steps \<Longrightarrow> met i d \<Longrightarrow> step j d = Some d' \<Longrightarrow> met i d'"
begin

lemma stays_met:
  "i \<in> set steps \<Longrightarrow> set is \<subseteq> set steps \<Longrightarrow> met i d \<Longrightarrow> run_steps step is d = Some d' \<Longrightarrow> met i d'"
proof (induction "is" arbitrary: d)
  case (Cons j "is")
  from Cons.prems(4) obtain d1 where d1: "step j d = Some d1" "run_steps step is d1 = Some d'"
    by (auto simp: bind_eq_Some_conv)
  have "met i d1" by (rule stable [OF Cons.prems(1) _ Cons.prems(3) d1(1)]) (use Cons.prems(2) in simp)
  with Cons.IH [OF Cons.prems(1)] Cons.prems(2) d1(2) show ?case by simp
qed simp

lemma run_met:
  "set is \<subseteq> set steps \<Longrightarrow> run_steps step is d = Some d' \<Longrightarrow> i \<in> set is \<Longrightarrow> met i d'"
proof (induction "is" arbitrary: d)
  case (Cons j "is")
  from Cons.prems(2) obtain d1 where d1: "step j d = Some d1" "run_steps step is d1 = Some d'"
    by (auto simp: bind_eq_Some_conv)
  have sub: "j \<in> set steps" "set is \<subseteq> set steps" using Cons.prems(1) by simp_all
  show ?case
  proof (cases "i = j")
    case True
    then show ?thesis using stays_met [OF sub(1,2) achieves [OF sub(1) d1(1)] d1(2)] by simp
  next
    case False
    with Cons.prems(3) Cons.IH [OF sub(2) d1(2)] show ?thesis by simp
  qed
qed simp

lemma run_skips: "set is \<subseteq> set steps \<Longrightarrow> (\<And>i. i \<in> set is \<Longrightarrow> met i d) \<Longrightarrow> run_steps step is d = Some d"
  by (induction "is") (auto simp: skips)

text \<open>What a run that got as far as \<open>d1\<close> left behind, a full run completes, and to the same result.\<close>

lemma resumes:
  assumes "steps = pre @ post" "run_steps step pre d = Some d1"
  shows "run_steps step steps d1 = run_steps step steps d"
proof -
  have "run_steps step pre d1 = Some d1"
    by (rule run_skips) (use assms run_met [OF _ assms(2)] in auto)
  then show ?thesis unfolding assms(1) run_steps_append using assms(2) by simp
qed

lemma settled: "run_steps step steps d = Some d' \<Longrightarrow> run_steps step steps d' = Some d'"
  using run_met [OF _ _, of steps d d'] by (intro run_skips) auto

end

section \<open>The steps of opening a database\<close>

datatype schema_step = Ensure statement | Column string column | NoColumn string string

fun ensure_step :: "schema_step \<Rightarrow> raw_db \<Rightarrow> raw_db option" where
  "ensure_step (Ensure s) d = perform s d"
| "ensure_step (Column t c) d =
     (if col_name c \<in> set (column_names d t) then Some d else perform (ADD_COLUMN t c) d)"
| "ensure_step (NoColumn t c) d = (if c \<in> set (column_names d t) then perform (DROP_COLUMN t c) d else Some d)"

fun step_met :: "schema_step \<Rightarrow> raw_db \<Rightarrow> bool" where
  "step_met (Ensure (CREATE_TABLE t _ _)) d \<longleftrightarrow> map_of (raw_tables d) t \<noteq> None"
| "step_met (Ensure (CREATE_INDEX i _ _ _)) d \<longleftrightarrow> map_of (raw_indexes d) i \<noteq> None"
| "step_met (Ensure _) d \<longleftrightarrow> False"
| "step_met (Column t c) d \<longleftrightarrow> col_name c \<in> set (column_names d t)"
| "step_met (NoColumn t c) d \<longleftrightarrow> c \<notin> set (column_names d t)"

definition schema_steps :: "schema_step list" where
  "schema_steps = map Ensure KEY_PACKAGE_WELCOME_JOIN_SCHEMA_SQL @
     [Column ''welcomes'' (nullable ''join_after_cursor'' INTEGER)] @ map Ensure GROUP_SCHEMA_SQL @
     [NoColumn ''group_messages'' ''ephemeral_sender_pubkey'', NoColumn ''group_messages'' ''epoch'',
      NoColumn ''group_routing'' ''latest_handshake_epoch'']"

text \<open>The columns a step can bring and take away.\<close>

fun brings :: "schema_step \<Rightarrow> (string \<times> string) list" where
  "brings (Ensure (CREATE_TABLE t cs _)) = map (\<lambda>c. (t, col_name c)) cs"
| "brings (Column t c) = [(t, col_name c)]"
| "brings _ = []"

fun takes :: "schema_step \<Rightarrow> (string \<times> string) list" where
  "takes (NoColumn t c) = [(t, c)]"
| "takes _ = []"

fun creates_only :: "schema_step \<Rightarrow> bool" where
  "creates_only (Ensure (ADD_COLUMN _ _)) = False"
| "creates_only (Ensure (DROP_COLUMN _ _)) = False"
| "creates_only _ = True"

lemma step_tables:
  assumes "ensure_step j d = Some d'" "creates_only j" "map_of (raw_tables d) t = Some tab"
  shows "\<exists>tab'. map_of (raw_tables d') t = Some tab'"
  using assms
  by (cases j rule: creates_only.cases) (auto simp: update_conv' map_add_def split: option.splits if_splits)

lemma step_indexes:
  assumes "ensure_step j d = Some d'" "creates_only j" "map_of (raw_indexes d) i = Some ix"
  shows "map_of (raw_indexes d') i = Some ix"
  using assms
  by (cases j rule: creates_only.cases) (auto simp: map_add_def split: option.splits if_splits)

lemma column_names_frame:
  "column_names (d\<lparr>raw_tables := AList.update t tab (raw_tables d)\<rparr>) u =
     (if u = t then map col_name (columns tab) else column_names d u)"
  "map_of (raw_tables d) t = None \<Longrightarrow> column_names (d\<lparr>raw_tables := raw_tables d @ [(t, tab)]\<rparr>) u =
     (if u = t then map col_name (columns tab) else column_names d u)"
  "column_names (d\<lparr>raw_indexes := is\<rparr>) u = column_names d u"
  by (auto simp: column_names_def update_conv' map_add_def split: option.splits)

lemma column_names_some: "map_of (raw_tables d) t = Some tab \<Longrightarrow> column_names d t = map col_name (columns tab)"
  "map_of (raw_tables d) t = None \<Longrightarrow> column_names d t = []"
  by (simp_all add: column_names_def)

lemma step_columns:
  assumes "ensure_step j d = Some d'" "creates_only j"
  shows "set (column_names d' t) \<subseteq> set (column_names d t) \<union> {c. (t, c) \<in> set (brings j)}"
    "set (column_names d t) - {c. (t, c) \<in> set (takes j)} \<subseteq> set (column_names d' t)"
  using assms
  by (cases j rule: creates_only.cases;
      auto simp: column_names_frame column_names_some split: option.splits if_splits)+

lemma creates_indexed: "creates_only (Ensure s) \<Longrightarrow> perform s d = Some d' \<Longrightarrow> step_met (Ensure s) d'"
  by (cases s) (auto simp: map_add_def split: option.splits if_splits)

lemma step_achieves:
  assumes "creates_only i" "ensure_step i d = Some d'"
  shows "step_met i d'"
proof (cases i)
  case (Ensure s)
  with assms creates_indexed show ?thesis by simp
next
  case (Column t c)
  with assms show ?thesis by (auto simp: column_names_def update_conv' split: option.splits if_splits)
next
  case (NoColumn t c)
  with assms show ?thesis by (auto simp: column_names_def update_conv' split: option.splits if_splits)
qed

lemma step_skips: "creates_only i \<Longrightarrow> step_met i d \<Longrightarrow> ensure_step i d = Some d"
  by (cases i rule: creates_only.cases) (auto split: option.splits)

lemma step_stable:
  assumes "creates_only i" "creates_only j" "set (brings j) \<inter> set (takes i) = {}" "set (brings i) \<inter> set (takes j) = {}"
    and "step_met i d" "ensure_step j d = Some d'"
  shows "step_met i d'"
proof (cases i)
  case (Ensure s)
  with assms step_tables [OF assms(6,2)] step_indexes [OF assms(6,2)] show ?thesis by (cases s) auto
next
  case (Column t c)
  with assms(4,5) step_columns(2) [OF assms(6,2), of t] show ?thesis by auto
next
  case (NoColumn t c)
  with assms(3,5) step_columns(1) [OF assms(6,2), of t] show ?thesis by auto
qed

lemma schema_steps_compatible:
  "list_all creates_only schema_steps"
  "set (concat (map brings schema_steps)) \<inter> set (concat (map takes schema_steps)) = {}"
  by code_simp+

interpretation schema: ensured_steps ensure_step step_met schema_steps
proof
  fix i j :: schema_step and d d' :: raw_db
  have only: "creates_only k" if "k \<in> set schema_steps" for k
    using that schema_steps_compatible(1) by (simp add: list_all_iff)
  show "step_met i d'" if "i \<in> set schema_steps" "ensure_step i d = Some d'"
    using step_achieves only that by blast
  show "ensure_step i d = Some d" if "i \<in> set schema_steps" "step_met i d"
    using step_skips only that by blast
  show "step_met i d'" if "i \<in> set schema_steps" "j \<in> set schema_steps" "step_met i d" "ensure_step j d = Some d'"
  proof (rule step_stable [OF only [OF that(1)] only [OF that(2)] _ _ that(3,4)])
    show "set (brings j) \<inter> set (takes i) = {}" "set (brings i) \<inter> set (takes j) = {}"
      using schema_steps_compatible(2) that(1,2) by fastforce+
  qed
qed

end
