(* ===== verification/Sqlite_Migration_Properties.thy ===== *)
theory Sqlite_Migration_Properties
  imports Sqlite_Migration
begin

text \<open>
  What \<open>schema_init\<close> promises: it can fail anywhere and be run again, running it again changes
  nothing, a legacy database keeps its rows, and a new one has exactly the schema of the source.
\<close>

section \<open>The driver calls perform the steps\<close>

definition does :: "(schema_connection, 'a) sop \<Rightarrow> schema_step list \<Rightarrow> bool" where
  "does m is \<longleftrightarrow> (\<forall>c r c'. m c = (r, c') \<longrightarrow>
     (\<exists>pre post. is = pre @ post \<and> run_steps ensure_step pre (raw c) = Some (raw c') \<and> (\<forall>x. r = Inr x \<longrightarrow> post = [])) \<and>
     (os_engine c = [] \<longrightarrow> os_engine c' = [] \<and> ((\<exists>x. r = Inr x) \<longleftrightarrow> run_steps ensure_step is (raw c) \<noteq> None)))"

lemma doesD:
  assumes "does m is" "m c = (r, c')"
  shows "\<exists>pre post. is = pre @ post \<and> run_steps ensure_step pre (raw c) = Some (raw c') \<and> (\<forall>x. r = Inr x \<longrightarrow> post = [])"
    "os_engine c = [] \<Longrightarrow> os_engine c' = []"
    "os_engine c = [] \<Longrightarrow> (\<exists>x. r = Inr x) \<longleftrightarrow> run_steps ensure_step is (raw c) \<noteq> None"
  using assms unfolding does_def by metis+

lemma doesD_Inr: "does m is \<Longrightarrow> m c = (Inr x, c') \<Longrightarrow> run_steps ensure_step is (raw c) = Some (raw c')"
  using doesD(1) by fastforce

lemma does_bind:
  assumes "does m is" "\<And>x. does (f x) js"
  shows "does (sbind m f) (is @ js)"
  unfolding does_def
proof (intro allI impI)
  fix c r c' assume run: "sbind m f c = (r, c')"
  obtain r1 c1 where m: "m c = (r1, c1)" by force
  show "(\<exists>pre post. is @ js = pre @ post \<and> run_steps ensure_step pre (raw c) = Some (raw c') \<and> (\<forall>x. r = Inr x \<longrightarrow> post = [])) \<and>
     (os_engine c = [] \<longrightarrow> os_engine c' = [] \<and> ((\<exists>x. r = Inr x) \<longleftrightarrow> run_steps ensure_step (is @ js) (raw c) \<noteq> None))"
  proof (cases r1)
    case (Inl e)
    with run m have eq: "r = Inl e" "c' = c1" by (auto simp: sbind_def)
    from doesD(1) [OF assms(1) m] obtain pre post where "is = pre @ post"
      "run_steps ensure_step pre (raw c) = Some (raw c1)" by blast
    then have "is @ js = pre @ (post @ js)" "run_steps ensure_step pre (raw c) = Some (raw c')" by (simp_all add: eq)
    moreover have "os_engine c = [] \<longrightarrow> os_engine c' = [] \<and> run_steps ensure_step (is @ js) (raw c) = None"
      using doesD(2,3) [OF assms(1) m] by (auto simp: Inl eq run_steps_append)
    ultimately show ?thesis by (auto simp: eq)
  next
    case (Inr x)
    with run m have f: "f x c1 = (r, c')" by (simp add: sbind_def)
    have first: "run_steps ensure_step is (raw c) = Some (raw c1)" using doesD_Inr [OF assms(1)] m Inr by simp
    from doesD(1) [OF assms(2) f] obtain pre post where second: "js = pre @ post"
      "run_steps ensure_step pre (raw c1) = Some (raw c')" "\<forall>x. r = Inr x \<longrightarrow> post = []" by blast
    have "is @ js = (is @ pre) @ post" "run_steps ensure_step (is @ pre) (raw c) = Some (raw c')"
      using first second by (simp_all add: run_steps_append)
    moreover have "os_engine c = [] \<longrightarrow> os_engine c' = [] \<and> ((\<exists>x. r = Inr x) \<longleftrightarrow> run_steps ensure_step (is @ js) (raw c) \<noteq> None)"
      using doesD(2) [OF assms(1) m] doesD(2,3) [OF assms(2) f] first by (simp add: run_steps_append)
    ultimately show ?thesis using second(3) by blast
  qed
qed

lemma does_return: "does (sreturn x) []"
  by (auto simp: does_def sreturn_def)

lemma does_call: "does (engine_call Some) []"
  by (auto simp: does_def engine_call_def Let_def split: list.splits option.splits)

lemma does_step:
  assumes "\<And>d. f d = ensure_step i d"
  shows "does (engine_call f) [i]"
proof -
  have split: "(\<exists>pre post. [i] = pre @ post \<and> P pre post) \<longleftrightarrow> P [] [i] \<or> P [i] []" for P
    by (auto simp: Cons_eq_append_conv)
  show ?thesis
    unfolding does_def split
    by (auto simp: engine_call_def Let_def assms split: list.splits option.splits)
qed

lemma does_batch: "does (execute_batch ss) (map Ensure ss)"
proof (induction ss)
  case (Cons s ss)
  have "does (engine_call (perform s)) [Ensure s]" by (rule does_step) simp
  from does_bind [OF this Cons] show ?case by simp
qed (simp add: does_return)

lemma does_pragma: "does (set_pragma n v) []"
proof -
  have "does (\<lambda>c. (Inr (), c\<lparr>pragmas := AList.update n v (pragmas c)\<rparr>)) []" by (auto simp: does_def)
  from does_bind [OF does_call this] show ?thesis by (simp add: set_pragma_def)
qed

text \<open>Reading the columns leaves the database alone.\<close>

definition reads :: "(schema_connection, 'a) sop \<Rightarrow> (raw_db \<Rightarrow> 'a) \<Rightarrow> bool" where
  "reads m v \<longleftrightarrow> (\<forall>c r c'. m c = (r, c') \<longrightarrow> raw c' = raw c \<and> (\<forall>x. r = Inr x \<longrightarrow> x = v (raw c)) \<and>
     (os_engine c = [] \<longrightarrow> os_engine c' = [] \<and> r = Inr (v (raw c))))"

lemma readsD:
  assumes "reads m v" "m c = (r, c')"
  shows "raw c' = raw c" "r = Inr x \<Longrightarrow> x = v (raw c)" "os_engine c = [] \<Longrightarrow> os_engine c' = [] \<and> r = Inr (v (raw c))"
  using assms unfolding reads_def by metis+

lemma reads_return: "reads (sreturn x) (\<lambda>_. x)"
  by (simp add: reads_def sreturn_def)

lemma reads_call: "reads (engine_call Some) (\<lambda>_. ())"
  by (auto simp: reads_def engine_call_def Let_def split: list.splits option.splits)

lemma reads_bind:
  assumes "reads m v" "\<And>x. reads (f x) (w x)"
  shows "reads (sbind m f) (\<lambda>d. w (v d) d)"
  unfolding reads_def
proof (intro allI impI)
  fix c r c' assume run: "sbind m f c = (r, c')"
  obtain r1 c1 where m: "m c = (r1, c1)" by force
  note m' = readsD [OF assms(1) m]
  show "raw c' = raw c \<and> (\<forall>x. r = Inr x \<longrightarrow> x = w (v (raw c)) (raw c)) \<and>
     (os_engine c = [] \<longrightarrow> os_engine c' = [] \<and> r = Inr (w (v (raw c)) (raw c)))"
  proof (cases r1)
    case (Inl e)
    with run m m' show ?thesis by (auto simp: sbind_def)
  next
    case (Inr x)
    with run m have f: "f x c1 = (r, c')" by (simp add: sbind_def)
    have x: "x = v (raw c)" by (rule m'(2) [OF Inr])
    have "raw c' = raw c" using readsD(1) [OF assms(2) f] m'(1) by simp
    moreover have "y = w (v (raw c)) (raw c)" if "r = Inr y" for y
      using readsD(2) [OF assms(2) f that] m'(1) x by simp
    moreover have "os_engine c' = [] \<and> r = Inr (w (v (raw c)) (raw c))" if "os_engine c = []"
      using readsD(3) [OF assms(2) f] m'(1,3) x that by simp
    ultimately show ?thesis by blast
  qed
qed

lemma reads_names: "reads (fetch_names ns out) (\<lambda>_. out @ ns)"
proof (induction ns arbitrary: out)
  case (Cons n ns)
  have "reads (fetch_names ns (out @ [n])) (\<lambda>_. out @ n # ns)" using Cons.IH [of "out @ [n]"] by simp
  from reads_bind [OF reads_call this] show ?case by simp
qed (simp add: reads_return)

lemma reads_columns: "reads (table_columns t) (\<lambda>d. column_names d t)"
proof -
  have "reads (\<lambda>c. fetch_names (column_names (raw c) t) [] c) (\<lambda>d. column_names d t)"
    using reads_names unfolding reads_def by fastforce
  from reads_bind [OF reads_call reads_bind [OF reads_call this]] show ?thesis by (simp add: table_columns_def)
qed

lemma reads_has_column: "reads (has_column t n) (\<lambda>d. n \<in> set (column_names d t))"
  using reads_bind [OF reads_columns reads_return] unfolding has_column_def .

text \<open>A migration: a look at the columns, and a statement where it is needed.\<close>

lemma does_if:
  assumes "reads m v" "\<And>d. ensure_step i d = (if v d = b then Some d else f d)"
  shows "does (sbind m (\<lambda>there. if there = b then sreturn () else engine_call f)) [i]"
  unfolding does_def
proof (intro allI impI)
  fix c r c' assume run: "sbind m (\<lambda>there. if there = b then sreturn () else engine_call f) c = (r, c')"
  obtain r1 c1 where m: "m c = (r1, c1)" by force
  note m' = readsD [OF assms(1) m]
  have split: "(\<exists>pre post. [i] = pre @ post \<and> P pre post) \<longleftrightarrow> P [] [i] \<or> P [i] []" for P
    by (auto simp: Cons_eq_append_conv)
  show "(\<exists>pre post. [i] = pre @ post \<and> run_steps ensure_step pre (raw c) = Some (raw c') \<and> (\<forall>x. r = Inr x \<longrightarrow> post = [])) \<and>
     (os_engine c = [] \<longrightarrow> os_engine c' = [] \<and> ((\<exists>x. r = Inr x) \<longleftrightarrow> run_steps ensure_step [i] (raw c) \<noteq> None))"
  proof (cases r1)
    case (Inl e)
    with run m m' show ?thesis unfolding split by (auto simp: sbind_def)
  next
    case (Inr x)
    show ?thesis
    proof (cases "x = b")
      case True
      with run m m' Inr show ?thesis unfolding split by (auto simp: sbind_def sreturn_def assms(2))
    next
      case False
      with run m Inr have "engine_call f c1 = (r, c')" by (simp add: sbind_def)
      with False m' Inr show ?thesis
        unfolding split by (auto simp: engine_call_def Let_def assms(2) split: list.splits option.splits)
    qed
  qed
qed

lemma does_add: "does (add_column_if_missing t c) [Column t c]"
  using does_if [OF reads_has_column, where b = True and i = "Column t c" and f = "perform (ADD_COLUMN t c)"]
  by (simp add: add_column_if_missing_def)

lemma does_drop: "does (drop_column_if_there t n) [NoColumn t n]"
proof -
  have "(\<lambda>there. if there = False then sreturn () else engine_call (perform (DROP_COLUMN t n))) =
      (\<lambda>there. if there then engine_call (perform (DROP_COLUMN t n)) else sreturn ())" by auto
  with does_if [OF reads_has_column [of t n], where b = False and i = "NoColumn t n" and f = "perform (DROP_COLUMN t n)"]
  show ?thesis by (simp add: drop_column_if_there_def)
qed

lemma does_init: "does (schema_init synchronous) schema_steps"
proof -
  have "does (schema_init synchronous) ([] @ [] @ [] @ [] @ map Ensure KEY_PACKAGE_WELCOME_JOIN_SCHEMA_SQL @
      [Column ''welcomes'' (nullable ''join_after_cursor'' INTEGER)] @ map Ensure GROUP_SCHEMA_SQL @
      [NoColumn ''group_messages'' ''ephemeral_sender_pubkey''] @ [NoColumn ''group_messages'' ''epoch''] @
      [NoColumn ''group_routing'' ''latest_handshake_epoch''])"
    unfolding schema_init_def by (intro does_bind does_pragma does_batch does_add does_drop)
  then show ?thesis by (simp add: schema_steps_def)
qed

section \<open>What the steps keep\<close>

definition legacy_columns :: "(string \<times> string) set" where
  "legacy_columns = {(''group_messages'', ''ephemeral_sender_pubkey''), (''group_messages'', ''epoch''),
     (''group_routing'', ''latest_handshake_epoch'')}"

text \<open>Every table of \<open>d\<close> is in \<open>d'\<close> with the rows it had, value by value, but for the legacy columns.\<close>

definition data_kept :: "raw_db \<Rightarrow> raw_db \<Rightarrow> bool" where
  "data_kept d d' \<longleftrightarrow> (\<forall>t tab. map_of (raw_tables d) t = Some tab \<longrightarrow>
     (\<exists>tab'. map_of (raw_tables d') t = Some tab' \<and> length (raw_rows tab') = length (raw_rows tab) \<and>
       (\<forall>c. (t, c) \<notin> legacy_columns \<and> c \<in> set (map col_name (columns tab)) \<longrightarrow>
          c \<in> set (map col_name (columns tab')) \<and>
          map (\<lambda>r. map_of r c) (raw_rows tab') = map (\<lambda>r. map_of r c) (raw_rows tab))))"

lemma data_kept_refl: "data_kept d d"
  by (auto simp: data_kept_def)

lemma data_kept_trans:
  assumes "data_kept d d'" "data_kept d' d''"
  shows "data_kept d d''"
  unfolding data_kept_def
proof (intro allI impI)
  fix t tab assume "map_of (raw_tables d) t = Some tab"
  with assms(1) obtain tab' where t1: "map_of (raw_tables d') t = Some tab'" "length (raw_rows tab') = length (raw_rows tab)"
    "\<And>c. (t, c) \<notin> legacy_columns \<Longrightarrow> c \<in> set (map col_name (columns tab)) \<Longrightarrow> c \<in> set (map col_name (columns tab')) \<and>
       map (\<lambda>r. map_of r c) (raw_rows tab') = map (\<lambda>r. map_of r c) (raw_rows tab)"
    unfolding data_kept_def by blast
  with assms(2) obtain tab'' where t2: "map_of (raw_tables d'') t = Some tab''" "length (raw_rows tab'') = length (raw_rows tab')"
    "\<And>c. (t, c) \<notin> legacy_columns \<Longrightarrow> c \<in> set (map col_name (columns tab')) \<Longrightarrow> c \<in> set (map col_name (columns tab'')) \<and>
       map (\<lambda>r. map_of r c) (raw_rows tab'') = map (\<lambda>r. map_of r c) (raw_rows tab')"
    unfolding data_kept_def by blast
  show "\<exists>tab'. map_of (raw_tables d'') t = Some tab' \<and> length (raw_rows tab') = length (raw_rows tab) \<and>
     (\<forall>c. (t, c) \<notin> legacy_columns \<and> c \<in> set (map col_name (columns tab)) \<longrightarrow>
        c \<in> set (map col_name (columns tab')) \<and>
        map (\<lambda>r. map_of r c) (raw_rows tab') = map (\<lambda>r. map_of r c) (raw_rows tab))"
  proof (intro exI [of _ tab''] conjI allI impI)
    show "map_of (raw_tables d'') t = Some tab''" by (rule t2(1))
    show "length (raw_rows tab'') = length (raw_rows tab)" using t1(2) t2(2) by (rule trans [rotated])
    fix c assume "(t, c) \<notin> legacy_columns \<and> c \<in> set (map col_name (columns tab))"
    then have c: "(t, c) \<notin> legacy_columns" "c \<in> set (map col_name (columns tab))" by simp_all
    note c1 = t1(3) [OF c]
    note c2 = t2(3) [OF c(1) c1 [THEN conjunct1]]
    show "c \<in> set (map col_name (columns tab''))" by (rule c2 [THEN conjunct1])
    show "map (\<lambda>r. map_of r c) (raw_rows tab'') = map (\<lambda>r. map_of r c) (raw_rows tab)"
      by (rule trans [OF c2 [THEN conjunct2] c1 [THEN conjunct2]])
  qed
qed

lemma data_kept_update:
  assumes "map_of (raw_tables d) t = Some tab" "length (raw_rows tab') = length (raw_rows tab)"
    and "\<And>c. (t, c) \<notin> legacy_columns \<Longrightarrow> c \<in> set (map col_name (columns tab)) \<Longrightarrow>
      c \<in> set (map col_name (columns tab')) \<and> map (\<lambda>r. map_of r c) (raw_rows tab') = map (\<lambda>r. map_of r c) (raw_rows tab)"
  shows "data_kept d (d\<lparr>raw_tables := AList.update t tab' (raw_tables d)\<rparr>)"
  unfolding data_kept_def
proof (intro allI impI)
  fix u tb assume u: "map_of (raw_tables d) u = Some tb"
  show "\<exists>tb'. map_of (raw_tables (d\<lparr>raw_tables := AList.update t tab' (raw_tables d)\<rparr>)) u = Some tb' \<and>
      length (raw_rows tb') = length (raw_rows tb) \<and>
      (\<forall>c. (u, c) \<notin> legacy_columns \<and> c \<in> set (map col_name (columns tb)) \<longrightarrow> c \<in> set (map col_name (columns tb')) \<and>
        map (\<lambda>r. map_of r c) (raw_rows tb') = map (\<lambda>r. map_of r c) (raw_rows tb))"
  proof (cases "u = t")
    case True
    with u assms(1) have "tb = tab" by simp
    with True assms(2,3) show ?thesis by (intro exI [of _ tab'] conjI allI impI) (simp_all add: update_conv')
  next
    case False
    with u show ?thesis by (intro exI [of _ tb]) (simp add: update_conv')
  qed
qed

lemma step_keeps_data:
  assumes "ensure_step i d = Some d'" "creates_only i" "set (takes i) \<subseteq> legacy_columns"
  shows "data_kept d d'"
proof (cases i)
  case (Ensure s)
  with assms show ?thesis
    by (cases s) (auto simp: data_kept_def map_add_def split: option.splits if_splits)
next
  case (Column t c)
  show ?thesis
  proof (cases "col_name c \<in> set (column_names d t)")
    case True
    with assms(1) Column show ?thesis by (simp add: data_kept_refl)
  next
    case False
    with assms(1) Column obtain tab where t: "map_of (raw_tables d) t = Some tab" "col_name c \<notin> set (map col_name (columns tab))"
      "d' = d\<lparr>raw_tables := AList.update t (tab\<lparr>columns := columns tab @ [c],
          raw_rows := map (\<lambda>r. r @ [(col_name c, Null)]) (raw_rows tab)\<rparr>) (raw_tables d)\<rparr>"
      by (auto split: option.splits if_splits)
    show ?thesis
      unfolding t(3)
    proof (rule data_kept_update [OF t(1)])
      fix n assume n: "n \<in> set (map col_name (columns tab))"
      with t(2) have "n \<noteq> col_name c" by blast
      with n show "n \<in> set (map col_name (columns (tab\<lparr>columns := columns tab @ [c],
            raw_rows := map (\<lambda>r. r @ [(col_name c, Null)]) (raw_rows tab)\<rparr>))) \<and>
          map (\<lambda>r. map_of r n) (raw_rows (tab\<lparr>columns := columns tab @ [c],
            raw_rows := map (\<lambda>r. r @ [(col_name c, Null)]) (raw_rows tab)\<rparr>)) = map (\<lambda>r. map_of r n) (raw_rows tab)"
        by (auto simp: map_add_def split: option.split)
    qed simp
  qed
next
  case (NoColumn t n)
  show ?thesis
  proof (cases "n \<in> set (column_names d t)")
    case False
    with assms(1) NoColumn show ?thesis by (simp add: data_kept_refl)
  next
    case True
    with assms(1) NoColumn obtain tab where t: "map_of (raw_tables d) t = Some tab"
      "d' = d\<lparr>raw_tables := AList.update t (tab\<lparr>columns := filter (\<lambda>x. col_name x \<noteq> n) (columns tab),
          raw_rows := map (AList.delete n) (raw_rows tab)\<rparr>) (raw_tables d)\<rparr>"
      by (auto split: option.splits if_splits)
    show ?thesis
      unfolding t(2)
    proof (rule data_kept_update [OF t(1)])
      fix c assume c: "(t, c) \<notin> legacy_columns" "c \<in> set (map col_name (columns tab))"
      then have "c \<noteq> n" using assms(3) NoColumn by auto
      with c(2) show "c \<in> set (map col_name (columns (tab\<lparr>columns := filter (\<lambda>x. col_name x \<noteq> n) (columns tab),
            raw_rows := map (AList.delete n) (raw_rows tab)\<rparr>))) \<and>
          map (\<lambda>r. map_of r c) (raw_rows (tab\<lparr>columns := filter (\<lambda>x. col_name x \<noteq> n) (columns tab),
            raw_rows := map (AList.delete n) (raw_rows tab)\<rparr>)) = map (\<lambda>r. map_of r c) (raw_rows tab)"
        by (auto simp: delete_conv')
    qed simp
  qed
qed

lemma steps_keep_data:
  "list_all creates_only is \<Longrightarrow> set (concat (map takes is)) \<subseteq> legacy_columns \<Longrightarrow>
     run_steps ensure_step is d = Some d' \<Longrightarrow> data_kept d d'"
proof (induction "is" arbitrary: d)
  case (Cons i "is")
  from Cons.prems(3) obtain d1 where "ensure_step i d = Some d1" "run_steps ensure_step is d1 = Some d'"
    by (auto simp: bind_eq_Some_conv)
  with Cons step_keeps_data [of i d d1] data_kept_trans [of d d1 d'] show ?case by simp
qed (simp add: data_kept_refl)

lemma schema_takes: "set (concat (map takes schema_steps)) \<subseteq> legacy_columns"
  by (simp add: schema_steps_def KEY_PACKAGE_WELCOME_JOIN_SCHEMA_SQL_def GROUP_SCHEMA_SQL_def legacy_columns_def)

section \<open>Properties\<close>

text \<open>A legacy database: two rows, and columns that later versions dropped.\<close>

definition legacy_db :: raw_db where
  "legacy_db = \<lparr>raw_tables =
     [(''group_routing'', \<lparr>columns = [nullable ''group_id'' TEXT, not_null ''last_message_cursor'' INTEGER,
         nullable ''latest_handshake_epoch'' INTEGER], key_columns = [''group_id''],
         raw_rows = [[(''group_id'', Text ''g''), (''last_message_cursor'', Integer 2), (''latest_handshake_epoch'', Integer 7)]]\<rparr>),
      (''group_messages'', \<lparr>columns = [nullable ''id'' INTEGER, not_null ''cursor'' INTEGER, not_null ''group_id'' TEXT,
         not_null ''opaque_message'' BLOB, not_null ''created_at'' INTEGER, nullable ''epoch'' INTEGER,
         nullable ''ephemeral_sender_pubkey'' TEXT], key_columns = [''id''],
         raw_rows = [[(''id'', Integer 1), (''cursor'', Integer 1), (''group_id'', Text ''g''), (''opaque_message'', Blob [9]),
             (''created_at'', Integer 5), (''epoch'', Integer 3), (''ephemeral_sender_pubkey'', Null)],
           [(''id'', Integer 2), (''cursor'', Integer 2), (''group_id'', Text ''g''), (''opaque_message'', Blob [8]),
             (''created_at'', Integer 6), (''epoch'', Integer 4), (''ephemeral_sender_pubkey'', Text ''p'')]]\<rparr>)],
     raw_indexes = []\<rparr>"

definition legacy_connection :: "string option list \<Rightarrow> schema_connection" where
  "legacy_connection os = \<lparr>raw = legacy_db, pragmas = [], os_engine = os, engine_error = ''error''\<rparr>"

lemma legacy_connection_fields: "raw (legacy_connection os) = legacy_db" "os_engine (legacy_connection os) = os"
  by (simp_all add: legacy_connection_def)

text \<open>
  C15. Opening is resumable. However an attempt to open a database ended, with success or with a failure
  at any of its statements, the next attempt that meets no failure of the engine succeeds exactly
  when it would have succeeded on the database as it was before, and ends with the same database.
\<close>

theorem opening_is_resumable:
  assumes "schema_init s1 c = (r1, c1)"
    and "schema_init s2 c2 = (r2, c2')" "raw c2 = raw c1" "os_engine c2 = []"
    and "schema_init s3 c3 = (r3, c3')" "raw c3 = raw c" "os_engine c3 = []"
  shows "(r2 = Inr () \<longleftrightarrow> r3 = Inr ()) \<and> (r2 = Inr () \<longrightarrow> raw c2' = raw c3')"
proof -
  from doesD(1) [OF does_init assms(1)] obtain pre post where "schema_steps = pre @ post"
    "run_steps ensure_step pre (raw c) = Some (raw c1)" by blast
  then have eq: "run_steps ensure_step schema_steps (raw c2) = run_steps ensure_step schema_steps (raw c3)"
    unfolding assms(3,6) by (rule schema.resumes)
  have ok: "r2 = Inr () \<longleftrightarrow> r3 = Inr ()"
    using doesD(3) [OF does_init assms(2,4)] doesD(3) [OF does_init assms(5,7)] eq by auto
  moreover have "raw c2' = raw c3'" if "r2 = Inr ()"
    using doesD_Inr [OF does_init assms(2) [unfolded that]] doesD_Inr [OF does_init assms(5) [unfolded ok [THEN iffD1, OF that]]] eq
    by simp
  ultimately show ?thesis by blast
qed

theorem opening_is_resumable_witness:
  "fst (schema_init Full (legacy_connection (replicate 30 None @ [Some ''disk full'']))) = Inl (Backend ''disk full'') \<and>
   fst (schema_init Full ((snd (schema_init Full (legacy_connection (replicate 30 None @ [Some ''disk full'']))))\<lparr>os_engine := []\<rparr>)) = Inr ()"
proof -
  let ?first = "schema_init Full (legacy_connection (replicate 30 None @ [Some ''disk full'']))"
  let ?again = "schema_init Full ((snd ?first)\<lparr>os_engine := []\<rparr>)" and ?clean = "schema_init Full (legacy_connection [])"
  have "fst ?first = Inl (Backend ''disk full'')" "fst ?clean = Inr ()" by code_simp+
  moreover have "raw ((snd ?first)\<lparr>os_engine := []\<rparr>) = raw (snd ?first)" "os_engine ((snd ?first)\<lparr>os_engine := []\<rparr>) = []"
    by simp_all
  moreover have "raw (legacy_connection []) = raw (legacy_connection (replicate 30 None @ [Some ''disk full'']))"
    by (simp only: legacy_connection_fields)
  moreover have "os_engine (legacy_connection []) = []" by (rule legacy_connection_fields)
  moreover note opening_is_resumable [OF prod.collapse [symmetric] prod.collapse [symmetric] calculation(3,4) prod.collapse [symmetric] calculation(5,6), of Full]
  ultimately show ?thesis by blast
qed

text \<open>
  A database that was opened stays as it is: opening it again, under any setting, succeeds when
  the engine does and changes nothing.
\<close>

theorem opening_again_changes_nothing:
  assumes "schema_init s1 c = (Inr (), c1)" "raw c2 = raw c1" "schema_init s2 c2 = (r, c2')"
  shows "(\<forall>x. r = Inr x \<longrightarrow> raw c2' = raw c1) \<and> (os_engine c2 = [] \<longrightarrow> r = Inr ())"
proof -
  have "run_steps ensure_step schema_steps (raw c2) = Some (raw c1)"
    unfolding assms(2) by (rule schema.settled [OF doesD_Inr [OF does_init assms(1)]])
  then show ?thesis
    using doesD_Inr [OF does_init, of s2 c2 _ c2'] doesD(3) [OF does_init assms(3)] assms(3) by auto
qed

text \<open>
  C26. Migration keeps the data. When opening succeeds, the columns that were retired are gone, the one
  that was added is there, and every other value of every row of every table is what it was.
\<close>

theorem migration_keeps_data:
  assumes "schema_init synchronous c = (Inr (), c')"
  shows "data_kept (raw c) (raw c') \<and> ''join_after_cursor'' \<in> set (column_names (raw c') ''welcomes'') \<and>
    (\<forall>(t, n) \<in> legacy_columns. n \<notin> set (column_names (raw c') t))"
proof -
  note run = doesD_Inr [OF does_init assms]
  note met = schema.run_met [OF order_refl run]
  have "data_kept (raw c) (raw c')"
    by (rule steps_keep_data [OF schema_steps_compatible(1) schema_takes run])
  moreover have "''join_after_cursor'' \<in> set (column_names (raw c') ''welcomes'')"
    using met [of "Column ''welcomes'' (nullable ''join_after_cursor'' INTEGER)"] by (simp add: schema_steps_def)
  moreover have "n \<notin> set (column_names (raw c') t)" if "(t, n) \<in> legacy_columns" for t n
    using met [of "NoColumn t n"] that by (auto simp: schema_steps_def legacy_columns_def)
  ultimately show ?thesis by blast
qed

theorem migration_keeps_data_witness:
  "data_kept legacy_db (raw (snd (schema_init Full (legacy_connection [])))) \<and>
   ''epoch'' \<notin> set (column_names (raw (snd (schema_init Full (legacy_connection [])))) ''group_messages'')"
proof -
  let ?run = "schema_init Full (legacy_connection [])"
  have run: "?run = (Inr (), snd ?run)" by (simp add: prod_eq_iff) code_simp
  from migration_keeps_data [OF run] show ?thesis by (auto simp: legacy_columns_def legacy_connection_fields)
qed

text \<open>
  A new database has the tables, columns and indexes the operations rely on, with the statement
  that reads a record naming columns of its table only.
\<close>

theorem fresh_schema:
  "(case open_in_memory [] err of (r, c) \<Rightarrow> r = Inr () \<and>
     map (\<lambda>(t, tab). (t, map col_name (columns tab), raw_rows tab)) (raw_tables (raw c)) =
       [(''key_packages'', [''id'', ''stable_pubkey'', ''key_package_ref'', ''key_package_bytes'', ''is_last_resort'',
           ''published_at'', ''publication_event_json''], []),
        (''welcomes'', [''id'', ''target_stable_pubkey'', ''key_package_reference'', ''welcome_bytes'', ''created_at'',
           ''join_after_cursor''], []),
        (''join_requests'', [''id'', ''group_id'', ''requester_stable_pubkey'', ''key_package_ref'', ''created_at''], []),
        (''group_routing'', [''group_id'', ''last_message_cursor''], []),
        (''group_messages'', [''id'', ''cursor'', ''group_id'', ''opaque_message'', ''created_at''], [])] \<and>
     map_of (pragmas c) ''synchronous'' = Some ''NORMAL'' \<and> length (raw_indexes (raw c)) = 6)"
  by code_simp

end
