(* ===== verification/Sqlite_View.thy ===== *)
theory Sqlite_View
  imports Sqlite_Migration_Properties "HOL-Library.Monad_Syntax"
begin

text \<open>
  What the operations see of a database file: the typed tables of \<open>Sqlite\<close>, read out of a database with
  any schema by the column names and types the statements of \<^verbatim>\<open>storage/sqlite.rs\<close> use. A table or
  the nullable column that is not there yet reads as it will once it has been created. Opening a
  file changes nothing of this view, and a file whose values have the types of the schema has one.
  These readers are the model's; those of the source are in \<open>Sqlite_Typing\<close>.
\<close>

section \<open>Reading rows\<close>

type_synonym lookup = "string \<Rightarrow> sql_value option"

definition int_at :: "string \<Rightarrow> lookup \<Rightarrow> i64 option" where
  "int_at n r = (case r n of Some (Integer i) \<Rightarrow> Some i | _ \<Rightarrow> None)"

definition text_at :: "string \<Rightarrow> lookup \<Rightarrow> string option" where
  "text_at n r = (case r n of Some (Text s) \<Rightarrow> Some s | _ \<Rightarrow> None)"

definition blob_at :: "string \<Rightarrow> lookup \<Rightarrow> bytes option" where
  "blob_at n r = (case r n of Some (Blob b) \<Rightarrow> Some b | _ \<Rightarrow> None)"

definition nullable_int_at :: "string \<Rightarrow> lookup \<Rightarrow> i64 option option" where
  "nullable_int_at n r = (case r n of Some (Integer i) \<Rightarrow> Some (Some i) | Some Null \<Rightarrow> Some None | None \<Rightarrow> Some None | _ \<Rightarrow> None)"

definition read_kp_row :: "lookup \<Rightarrow> kp_row option" where
  "read_kp_row r = do {
     i \<leftarrow> int_at ''id'' r; pk \<leftarrow> text_at ''stable_pubkey'' r; x \<leftarrow> text_at ''key_package_ref'' r;
     b \<leftarrow> blob_at ''key_package_bytes'' r; lr \<leftarrow> int_at ''is_last_resort'' r;
     p \<leftarrow> int_at ''published_at'' r; j \<leftarrow> text_at ''publication_event_json'' r;
     Some \<lparr>kr_id = i, kr_stable_pubkey = pk, kr_key_package_ref = x, kr_key_package_bytes = b,
       kr_is_last_resort = lr, kr_published_at = p, kr_publication_event_json = j\<rparr> }"

definition read_welcome_row :: "lookup \<Rightarrow> welcome_row option" where
  "read_welcome_row r = do {
     i \<leftarrow> int_at ''id'' r; pk \<leftarrow> text_at ''target_stable_pubkey'' r; x \<leftarrow> text_at ''key_package_reference'' r;
     b \<leftarrow> blob_at ''welcome_bytes'' r; c \<leftarrow> int_at ''created_at'' r; after \<leftarrow> nullable_int_at ''join_after_cursor'' r;
     Some \<lparr>wr_id = i, wr_target_stable_pubkey = pk, wr_key_package_reference = x, wr_welcome_bytes = b,
       wr_created_at = c, wr_join_after_cursor = after\<rparr> }"

definition read_join_row :: "lookup \<Rightarrow> join_row option" where
  "read_join_row r = do {
     i \<leftarrow> int_at ''id'' r; g \<leftarrow> text_at ''group_id'' r; pk \<leftarrow> text_at ''requester_stable_pubkey'' r;
     x \<leftarrow> text_at ''key_package_ref'' r; c \<leftarrow> int_at ''created_at'' r;
     Some \<lparr>jw_id = i, jw_group_id = g, jw_requester_stable_pubkey = pk, jw_key_package_ref = x, jw_created_at = c\<rparr> }"

definition read_routing_row :: "lookup \<Rightarrow> (string \<times> i64) option" where
  "read_routing_row r = do { g \<leftarrow> text_at ''group_id'' r; c \<leftarrow> int_at ''last_message_cursor'' r; Some (g, c) }"

definition read_message_row :: "lookup \<Rightarrow> message_row option" where
  "read_message_row r = do {
     i \<leftarrow> int_at ''id'' r; n \<leftarrow> int_at ''cursor'' r; g \<leftarrow> text_at ''group_id'' r;
     b \<leftarrow> blob_at ''opaque_message'' r; c \<leftarrow> int_at ''created_at'' r;
     Some \<lparr>mr_id = i, mr_cursor = n, mr_group_id = g, mr_opaque_message = b, mr_created_at = c\<rparr> }"

section \<open>Reading a database\<close>

definition rows_of :: "raw_db \<Rightarrow> string \<Rightarrow> (string \<times> sql_value) list list" where
  "rows_of d t = (case map_of (raw_tables d) t of None \<Rightarrow> [] | Some tab \<Rightarrow> raw_rows tab)"

text \<open>\<open>seq\<close> is SQLite's record of the largest id that each \<^verbatim>\<open>AUTOINCREMENT\<close> table has given out.\<close>

definition read_table :: "(lookup \<Rightarrow> 'r option) \<Rightarrow> string \<Rightarrow> (string \<Rightarrow> int) \<Rightarrow> raw_db \<Rightarrow> 'r table option" where
  "read_table f t seq d = do { rs \<leftarrow> those (map (\<lambda>r. f (map_of r)) (rows_of d t)); Some \<lparr>rows = rs, last_id = seq t\<rparr> }"

definition database_of :: "(string \<Rightarrow> int) \<Rightarrow> raw_db \<Rightarrow> database option" where
  "database_of seq d = do {
     ks \<leftarrow> read_table read_kp_row ''key_packages'' seq d;
     ws \<leftarrow> read_table read_welcome_row ''welcomes'' seq d;
     js \<leftarrow> read_table read_join_row ''join_requests'' seq d;
     gs \<leftarrow> those (map (\<lambda>r. read_routing_row (map_of r)) (rows_of d ''group_routing''));
     ms \<leftarrow> read_table read_message_row ''group_messages'' seq d;
     Some \<lparr>t_key_packages = ks, t_welcomes = ws, t_join_requests = js, t_group_routing = gs, t_group_messages = ms\<rparr> }"

section \<open>Opening leaves the view alone\<close>

text \<open>A row without the retired columns, and with the new one where it is missing.\<close>

definition migrated :: "string \<Rightarrow> lookup \<Rightarrow> lookup" where
  "migrated t r = (\<lambda>n. if (t, n) \<in> legacy_columns then None
     else if (t, n) = (''welcomes'', ''join_after_cursor'') \<and> r n = None then Some Null else r n)"

definition view_rows :: "string \<Rightarrow> raw_db \<Rightarrow> lookup list" where
  "view_rows t d = map (\<lambda>r. migrated t (map_of r)) (rows_of d t)"

lemma read_migrated:
  "read_kp_row (migrated ''key_packages'' r) = read_kp_row r"
  "read_welcome_row (migrated ''welcomes'' r) = read_welcome_row r"
  "read_join_row (migrated ''join_requests'' r) = read_join_row r"
  "read_routing_row (migrated ''group_routing'' r) = read_routing_row r"
  "read_message_row (migrated ''group_messages'' r) = read_message_row r"
  by (simp_all add: read_kp_row_def read_welcome_row_def read_join_row_def read_routing_row_def read_message_row_def
      int_at_def text_at_def blob_at_def nullable_int_at_def migrated_def legacy_columns_def)

lemma read_rows:
  assumes "\<And>r. f (migrated t r) = f r"
  shows "map (\<lambda>r. f (map_of r)) (rows_of d t) = map f (view_rows t d)"
  by (simp add: view_rows_def assms)

lemma database_of_view:
  assumes "\<And>t. view_rows t d' = view_rows t d"
  shows "database_of seq d' = database_of seq d"
  by (simp only: database_of_def read_table_def read_rows [where f = read_kp_row, OF read_migrated(1)]
      read_rows [where f = read_welcome_row, OF read_migrated(2)] read_rows [where f = read_join_row, OF read_migrated(3)]
      read_rows [where f = read_routing_row, OF read_migrated(4)] read_rows [where f = read_message_row, OF read_migrated(5)] assms)

lemma view_update:
  assumes "map_of (raw_tables d) t = Some tab" "\<And>r. migrated t (map_of (f r)) = migrated t (map_of r)"
    "raw_rows tab' = map f (raw_rows tab)"
  shows "view_rows u (d\<lparr>raw_tables := AList.update t tab' (raw_tables d)\<rparr>) = view_rows u d"
  by (simp add: view_rows_def rows_of_def update_conv' assms)

fun migrates :: "schema_step \<Rightarrow> bool" where
  "migrates (Ensure _) = True"
| "migrates (Column t c) \<longleftrightarrow> (t, col_name c) = (''welcomes'', ''join_after_cursor'')"
| "migrates (NoColumn t n) \<longleftrightarrow> (t, n) \<in> legacy_columns"

lemma step_view:
  assumes "ensure_step i d = Some d'" "creates_only i" "migrates i"
  shows "view_rows u d' = view_rows u d"
proof (cases i)
  case (Ensure s)
  with assms show ?thesis
    by (cases s) (auto simp: view_rows_def rows_of_def map_add_def split: option.splits if_splits)
next
  case (Column t c)
  show ?thesis
  proof (cases "col_name c \<in> set (column_names d t)")
    case True
    with assms(1) Column show ?thesis by simp
  next
    case False
    with assms(1) Column obtain tab where t: "map_of (raw_tables d) t = Some tab"
      "d' = d\<lparr>raw_tables := AList.update t (tab\<lparr>columns := columns tab @ [c],
          raw_rows := map (\<lambda>r. r @ [(col_name c, Null)]) (raw_rows tab)\<rparr>) (raw_tables d)\<rparr>"
      by (auto split: option.splits if_splits)
    show ?thesis
      unfolding t(2)
    proof (rule view_update [OF t(1)])
      show "migrated t (map_of (r @ [(col_name c, Null)])) = migrated t (map_of r)" for r
        using assms(3) by (auto simp: Column migrated_def map_add_def fun_eq_iff legacy_columns_def split: option.split)
    qed simp
  qed
next
  case (NoColumn t n)
  show ?thesis
  proof (cases "n \<in> set (column_names d t)")
    case False
    with assms(1) NoColumn show ?thesis by simp
  next
    case True
    with assms(1) NoColumn obtain tab where t: "map_of (raw_tables d) t = Some tab"
      "d' = d\<lparr>raw_tables := AList.update t (tab\<lparr>columns := filter (\<lambda>x. col_name x \<noteq> n) (columns tab),
          raw_rows := map (AList.delete n) (raw_rows tab)\<rparr>) (raw_tables d)\<rparr>"
      by (auto split: option.splits if_splits)
    show ?thesis
      unfolding t(2)
    proof (rule view_update [OF t(1)])
      show "migrated t (map_of (AList.delete n r)) = migrated t (map_of r)" for r
        using assms(3) by (auto simp: NoColumn migrated_def delete_conv' fun_eq_iff legacy_columns_def)
    qed simp
  qed
qed

lemma schema_migrates: "list_all migrates schema_steps"
  by (simp add: schema_steps_def KEY_PACKAGE_WELCOME_JOIN_SCHEMA_SQL_def GROUP_SCHEMA_SQL_def legacy_columns_def)

lemma steps_view:
  "list_all creates_only is \<Longrightarrow> list_all migrates is \<Longrightarrow> run_steps ensure_step is d = Some d' \<Longrightarrow>
     view_rows t d' = view_rows t d"
proof (induction "is" arbitrary: d)
  case (Cons i "is")
  from Cons.prems(3) obtain d1 where d1: "ensure_step i d = Some d1" "run_steps ensure_step is d1 = Some d'"
    by (auto simp: bind_eq_Some_conv)
  with Cons.prems(1,2) Cons.IH [of d1] step_view [OF d1(1)] show ?case by simp
qed simp

lemma opening_keeps_view:
  assumes "schema_init synchronous c = (r, c')"
  shows "view_rows t (raw c') = view_rows t (raw c)"
proof -
  from doesD(1) [OF does_init assms] obtain pre post where steps: "schema_steps = pre @ post"
    and run: "run_steps ensure_step pre (raw c) = Some (raw c')" by blast
  have "list_all creates_only pre" "list_all migrates pre"
    using schema_steps_compatible(1) schema_migrates by (simp_all add: steps)
  from steps_view [OF this run] show ?thesis .
qed

section \<open>The types of the schema\<close>

fun has_type :: "sql_value \<Rightarrow> sql_type \<Rightarrow> bool" where
  "has_type (Integer _) ty \<longleftrightarrow> ty = INTEGER"
| "has_type (Text _) ty \<longleftrightarrow> ty = TEXT"
| "has_type (Blob _) ty \<longleftrightarrow> ty = BLOB"
| "has_type Null ty \<longleftrightarrow> False"

text \<open>A row has a value of the column's type in every column that is a key or \<^verbatim>\<open>NOT NULL\<close>.\<close>

definition conforms :: "string list \<Rightarrow> lookup \<Rightarrow> column \<Rightarrow> bool" where
  "conforms keys r c \<longleftrightarrow> (case r (col_name c) of
     Some v \<Rightarrow> has_type v (col_type c) \<or> v = Null \<and> \<not> col_not_null c \<and> col_name c \<notin> set keys
   | None \<Rightarrow> \<not> col_not_null c \<and> col_name c \<notin> set keys)"

fun step_typed :: "raw_db \<Rightarrow> schema_step \<Rightarrow> bool" where
  "step_typed d (Ensure (CREATE_TABLE t cs keys)) \<longleftrightarrow> list_all (\<lambda>r. list_all (conforms keys (map_of r)) cs) (rows_of d t)"
| "step_typed d (Column t c) \<longleftrightarrow> list_all (\<lambda>r. conforms [] (map_of r) c) (rows_of d t)"
| "step_typed d _ \<longleftrightarrow> True"

definition well_typed :: "raw_db \<Rightarrow> bool" where
  "well_typed d \<longleftrightarrow> list_all (step_typed d) schema_steps"

lemma conforms_reads:
  "conforms ks r (not_null n INTEGER) \<longleftrightarrow> int_at n r \<noteq> None"
  "n \<in> set ks \<Longrightarrow> conforms ks r (nullable n INTEGER) \<longleftrightarrow> int_at n r \<noteq> None"
  "conforms ks r (not_null n TEXT) \<longleftrightarrow> text_at n r \<noteq> None"
  "n \<in> set ks \<Longrightarrow> conforms ks r (nullable n TEXT) \<longleftrightarrow> text_at n r \<noteq> None"
  "conforms ks r (not_null n BLOB) \<longleftrightarrow> blob_at n r \<noteq> None"
  "conforms [] r (nullable n INTEGER) \<longleftrightarrow> nullable_int_at n r \<noteq> None"
  by (auto simp: int_at_def text_at_def blob_at_def nullable_int_at_def conforms_def split: option.splits sql_value.splits)

lemma bind_defined: "Option.bind m f \<noteq> None \<longleftrightarrow> m \<noteq> None \<and> f (the m) \<noteq> None"
  by (cases m) auto

lemma read_defined:
  "read_kp_row r \<noteq> None \<longleftrightarrow> int_at ''id'' r \<noteq> None \<and> text_at ''stable_pubkey'' r \<noteq> None \<and> text_at ''key_package_ref'' r \<noteq> None \<and>
     blob_at ''key_package_bytes'' r \<noteq> None \<and> int_at ''is_last_resort'' r \<noteq> None \<and> int_at ''published_at'' r \<noteq> None \<and>
     text_at ''publication_event_json'' r \<noteq> None"
  "read_welcome_row r \<noteq> None \<longleftrightarrow> int_at ''id'' r \<noteq> None \<and> text_at ''target_stable_pubkey'' r \<noteq> None \<and>
     text_at ''key_package_reference'' r \<noteq> None \<and> blob_at ''welcome_bytes'' r \<noteq> None \<and> int_at ''created_at'' r \<noteq> None \<and>
     nullable_int_at ''join_after_cursor'' r \<noteq> None"
  "read_join_row r \<noteq> None \<longleftrightarrow> int_at ''id'' r \<noteq> None \<and> text_at ''group_id'' r \<noteq> None \<and>
     text_at ''requester_stable_pubkey'' r \<noteq> None \<and> text_at ''key_package_ref'' r \<noteq> None \<and> int_at ''created_at'' r \<noteq> None"
  "read_routing_row r \<noteq> None \<longleftrightarrow> text_at ''group_id'' r \<noteq> None \<and> int_at ''last_message_cursor'' r \<noteq> None"
  "read_message_row r \<noteq> None \<longleftrightarrow> int_at ''id'' r \<noteq> None \<and> int_at ''cursor'' r \<noteq> None \<and> text_at ''group_id'' r \<noteq> None \<and>
     blob_at ''opaque_message'' r \<noteq> None \<and> int_at ''created_at'' r \<noteq> None"
  by (simp_all only: read_kp_row_def read_welcome_row_def read_join_row_def read_routing_row_def read_message_row_def
      bind_defined option.distinct simp_thms)

lemma those_defined: "those xs \<noteq> None \<longleftrightarrow> list_all (\<lambda>x. x \<noteq> None) xs"
  by (induction xs) (auto split: option.splits)

lemma read_table_defined: "read_table f t seq d \<noteq> None \<longleftrightarrow> list_all (\<lambda>r. f (map_of r) \<noteq> None) (rows_of d t)"
  by (simp only: read_table_def bind_defined those_defined list.pred_map o_def option.distinct simp_thms)

lemma list_all_both: "list_all P xs \<and> list_all Q xs \<longleftrightarrow> list_all (\<lambda>x. P x \<and> Q x) xs"
  by (auto simp: list_all_iff)

lemma database_of_defined: "database_of seq d \<noteq> None \<longleftrightarrow>
   list_all (\<lambda>r. read_kp_row (map_of r) \<noteq> None) (rows_of d ''key_packages'') \<and>
   list_all (\<lambda>r. read_welcome_row (map_of r) \<noteq> None) (rows_of d ''welcomes'') \<and>
   list_all (\<lambda>r. read_join_row (map_of r) \<noteq> None) (rows_of d ''join_requests'') \<and>
   list_all (\<lambda>r. read_routing_row (map_of r) \<noteq> None) (rows_of d ''group_routing'') \<and>
   list_all (\<lambda>r. read_message_row (map_of r) \<noteq> None) (rows_of d ''group_messages'')"
  by (simp only: database_of_def bind_defined read_table_defined those_defined list.pred_map o_def option.distinct simp_thms)

lemma well_typed_rows: "well_typed d \<longleftrightarrow>
   list_all (\<lambda>r. read_kp_row (map_of r) \<noteq> None) (rows_of d ''key_packages'') \<and>
   list_all (\<lambda>r. read_welcome_row (map_of r) \<noteq> None) (rows_of d ''welcomes'') \<and>
   list_all (\<lambda>r. read_join_row (map_of r) \<noteq> None) (rows_of d ''join_requests'') \<and>
   list_all (\<lambda>r. read_routing_row (map_of r) \<noteq> None) (rows_of d ''group_routing'') \<and>
   list_all (\<lambda>r. read_message_row (map_of r) \<noteq> None) (rows_of d ''group_messages'')"
  unfolding read_defined well_typed_def
  by (simp add: schema_steps_def KEY_PACKAGE_WELCOME_JOIN_SCHEMA_SQL_def GROUP_SCHEMA_SQL_def conforms_reads
      del: not_None_eq) (simp only: list_all_iff ball_conj_distrib conj_ac)

lemma opening_view:
  assumes "schema_init synchronous c = (r, c')"
  shows "database_of seq (raw c') = database_of seq (raw c)"
  by (rule database_of_view) (rule opening_keeps_view [OF assms])

lemma typed_view: "well_typed d \<longleftrightarrow> database_of seq d \<noteq> None"
  by (simp only: database_of_defined well_typed_rows)

end
