(* ===== verification/Sqlite_Restart.thy ===== *)
theory Sqlite_Restart
  imports Sqlite_View Storage_Properties
begin

text \<open>
  Databases between two runs of the server. \<open>raw_of d\<close> is the file that the statements of the
  operations leave behind for a database \<open>d\<close>: the schema of a new file, and a row for each record, with the
  values that the \<^verbatim>\<open>INSERT\<close> statements of \<^verbatim>\<open>storage/sqlite.rs\<close> bind to the column names.
\<close>

section \<open>Rows as they are written\<close>

definition row_of_key_package :: "kp_row \<Rightarrow> (string \<times> sql_value) list" where
  "row_of_key_package k =
     [(''id'', Integer (kr_id k)), (''stable_pubkey'', Text (kr_stable_pubkey k)), (''key_package_ref'', Text (kr_key_package_ref k)),
      (''key_package_bytes'', Blob (kr_key_package_bytes k)), (''is_last_resort'', Integer (kr_is_last_resort k)),
      (''published_at'', Integer (kr_published_at k)), (''publication_event_json'', Text (kr_publication_event_json k))]"

definition row_of_welcome :: "welcome_row \<Rightarrow> (string \<times> sql_value) list" where
  "row_of_welcome w =
     [(''id'', Integer (wr_id w)), (''target_stable_pubkey'', Text (wr_target_stable_pubkey w)),
      (''key_package_reference'', Text (wr_key_package_reference w)), (''welcome_bytes'', Blob (wr_welcome_bytes w)),
      (''created_at'', Integer (wr_created_at w)),
      (''join_after_cursor'', case wr_join_after_cursor w of None \<Rightarrow> Null | Some n \<Rightarrow> Integer n)]"

definition row_of_join_request :: "join_row \<Rightarrow> (string \<times> sql_value) list" where
  "row_of_join_request j =
     [(''id'', Integer (jw_id j)), (''group_id'', Text (jw_group_id j)),
      (''requester_stable_pubkey'', Text (jw_requester_stable_pubkey j)), (''key_package_ref'', Text (jw_key_package_ref j)),
      (''created_at'', Integer (jw_created_at j))]"

definition row_of_routing :: "string \<times> i64 \<Rightarrow> (string \<times> sql_value) list" where
  "row_of_routing = (\<lambda>(g, n). [(''group_id'', Text g), (''last_message_cursor'', Integer n)])"

definition row_of_message :: "message_row \<Rightarrow> (string \<times> sql_value) list" where
  "row_of_message m =
     [(''id'', Integer (mr_id m)), (''cursor'', Integer (mr_cursor m)), (''group_id'', Text (mr_group_id m)),
      (''opaque_message'', Blob (mr_opaque_message m)), (''created_at'', Integer (mr_created_at m))]"

lemma read_written:
  "read_kp_row (map_of (row_of_key_package k)) = Some k" "read_welcome_row (map_of (row_of_welcome w)) = Some w"
  "read_join_row (map_of (row_of_join_request j)) = Some j" "read_routing_row (map_of (row_of_routing g)) = Some g"
  "read_message_row (map_of (row_of_message m)) = Some m"
  by (simp_all add: read_kp_row_def row_of_key_package_def read_welcome_row_def row_of_welcome_def read_join_row_def
      row_of_join_request_def read_routing_row_def row_of_routing_def read_message_row_def row_of_message_def int_at_def
      text_at_def blob_at_def nullable_int_at_def split: option.split prod.split)

section \<open>Files\<close>

definition fresh_schema_db :: raw_db where
  "fresh_schema_db = raw (snd (open_in_memory [] []))"

definition stored_rows :: "database \<Rightarrow> string \<Rightarrow> (string \<times> sql_value) list list" where
  "stored_rows d t =
     (if t = ''key_packages'' then map row_of_key_package (rows (t_key_packages d))
      else if t = ''welcomes'' then map row_of_welcome (rows (t_welcomes d))
      else if t = ''join_requests'' then map row_of_join_request (rows (t_join_requests d))
      else if t = ''group_routing'' then map row_of_routing (t_group_routing d)
      else if t = ''group_messages'' then map row_of_message (rows (t_group_messages d))
      else [])"

definition raw_of :: "database \<Rightarrow> raw_db" where
  "raw_of d = fresh_schema_db\<lparr>raw_tables :=
     map (\<lambda>(t, tab). (t, tab\<lparr>raw_rows := stored_rows d t\<rparr>)) (raw_tables fresh_schema_db)\<rparr>"

definition sequences_of :: "database \<Rightarrow> string \<Rightarrow> int" where
  "sequences_of d t =
     (if t = ''key_packages'' then last_id (t_key_packages d)
      else if t = ''welcomes'' then last_id (t_welcomes d)
      else if t = ''join_requests'' then last_id (t_join_requests d)
      else last_id (t_group_messages d))"

lemma fresh_schema_steps: "run_steps ensure_step schema_steps empty_raw = Some fresh_schema_db"
proof -
  have "fst (open_in_memory [] []) = Inr ()" by code_simp
  moreover have "open_in_memory [] [] = schema_init Normal (connection_open (\<lambda>_. empty_raw) '':memory:'' [] [])"
    by (simp add: open_in_memory_def storage_open_def sbind_def engine_call_def connection_open_def unwrap_or_def Let_def)
  ultimately have "schema_init Normal (connection_open (\<lambda>_. empty_raw) '':memory:'' [] []) = (Inr (), snd (open_in_memory [] []))"
    by (simp only: prod_eq_iff fst_conv snd_conv)
  from doesD_Inr [OF does_init this] show ?thesis by (simp add: connection_open_def fresh_schema_db_def)
qed

lemma raw_of_tables: "map_of (raw_tables (raw_of d)) t =
    map_option (\<lambda>tab. tab\<lparr>raw_rows := stored_rows d t\<rparr>) (map_of (raw_tables fresh_schema_db) t)"
proof -
  have "map_of (map (\<lambda>(t, tab). (t, tab\<lparr>raw_rows := stored_rows d t\<rparr>)) xs) t =
    map_option (\<lambda>tab. tab\<lparr>raw_rows := stored_rows d t\<rparr>) (map_of xs t)" for xs :: "(string \<times> raw_table) list"
    by (induction xs) auto
  then show ?thesis by (simp add: raw_of_def)
qed

lemma raw_of_met:
  assumes "step_met i fresh_schema_db"
  shows "step_met i (raw_of d)"
proof -
  have "column_names (raw_of d) t = column_names fresh_schema_db t" for t
    by (simp add: column_names_def raw_of_tables split: option.split)
  moreover have "raw_indexes (raw_of d) = raw_indexes fresh_schema_db" by (simp add: raw_of_def)
  ultimately show ?thesis using assms by (cases i rule: creates_only.cases) (auto simp: raw_of_tables)
qed

lemma raw_of_settled: "run_steps ensure_step schema_steps (raw_of d) = Some (raw_of d)"
  using schema.run_met [OF order_refl fresh_schema_steps] raw_of_met by (intro schema.run_skips) auto

text \<open>Any part of the steps leaves it alone.\<close>

lemma raw_of_part:
  assumes "schema_steps = pre @ post" "run_steps ensure_step pre (raw_of d) = Some d'"
  shows "d' = raw_of d"
proof -
  have "run_steps ensure_step pre (raw_of d) = Some (raw_of d)"
  proof (rule schema.run_skips)
    show sub: "set pre \<subseteq> set schema_steps" by (simp add: assms(1))
    fix i assume "i \<in> set pre"
    with sub show "step_met i (raw_of d)"
      using schema.run_met [OF order_refl fresh_schema_steps] raw_of_met by blast
  qed
  with assms(2) show ?thesis by simp
qed

lemma rows_of_raw_of:
  assumes "Ensure (CREATE_TABLE t cs ks) \<in> set schema_steps"
  shows "rows_of (raw_of d) t = stored_rows d t"
  using schema.run_met [OF order_refl fresh_schema_steps assms] by (auto simp: rows_of_def raw_of_tables)

lemma those_Some: "those (map Some xs) = Some xs"
  by (induction xs) simp_all

fun creates :: "string \<Rightarrow> schema_step \<Rightarrow> bool" where
  "creates t (Ensure (CREATE_TABLE u _ _)) \<longleftrightarrow> u = t"
| "creates t _ \<longleftrightarrow> False"

lemma createsD: "creates t i \<Longrightarrow> \<exists>cs ks. i = Ensure (CREATE_TABLE t cs ks)"
  by (cases "(t, i)" rule: creates.cases) auto

lemma tables_of_raw_of:
  "rows_of (raw_of d) ''key_packages'' = map row_of_key_package (rows (t_key_packages d))"
  "rows_of (raw_of d) ''welcomes'' = map row_of_welcome (rows (t_welcomes d))"
  "rows_of (raw_of d) ''join_requests'' = map row_of_join_request (rows (t_join_requests d))"
  "rows_of (raw_of d) ''group_routing'' = map row_of_routing (t_group_routing d)"
  "rows_of (raw_of d) ''group_messages'' = map row_of_message (rows (t_group_messages d))"
proof -
  have created: "list_all (\<lambda>t. list_ex (creates t) schema_steps)
    [''key_packages'', ''welcomes'', ''join_requests'', ''group_routing'', ''group_messages'']" by code_simp
  have eq: "rows_of (raw_of d) t = stored_rows d t"
    if "list_ex (creates t) schema_steps" for t
  proof -
    from that obtain cs ks where "Ensure (CREATE_TABLE t cs ks) \<in> set schema_steps"
      by (auto simp: list_ex_iff dest: createsD)
    then show ?thesis by (rule rows_of_raw_of)
  qed
  show "rows_of (raw_of d) ''key_packages'' = map row_of_key_package (rows (t_key_packages d))"
    "rows_of (raw_of d) ''welcomes'' = map row_of_welcome (rows (t_welcomes d))"
    "rows_of (raw_of d) ''join_requests'' = map row_of_join_request (rows (t_join_requests d))"
    "rows_of (raw_of d) ''group_routing'' = map row_of_routing (t_group_routing d)"
    "rows_of (raw_of d) ''group_messages'' = map row_of_message (rows (t_group_messages d))"
    using created by (simp_all only: list.pred_inject simp_thms eq) (simp_all add: stored_rows_def)
qed

lemma read_table_written:
  assumes "rows_of (raw_of d) t = map w rs" "\<And>r. f (map_of (w r)) = Some r" "seq t = last_id tab" "rs = rows tab"
  shows "read_table f t seq (raw_of d) = Some tab"
  by (simp add: read_table_def assms o_def those_Some)

lemma database_of_raw_of: "database_of (sequences_of d) (raw_of d) = Some d"
proof -
  have "read_table read_kp_row ''key_packages'' (sequences_of d) (raw_of d) = Some (t_key_packages d)"
    by (rule read_table_written [OF tables_of_raw_of(1) read_written(1) _ refl]) (simp add: sequences_of_def)
  moreover have "read_table read_welcome_row ''welcomes'' (sequences_of d) (raw_of d) = Some (t_welcomes d)"
    by (rule read_table_written [OF tables_of_raw_of(2) read_written(2) _ refl]) (simp add: sequences_of_def)
  moreover have "read_table read_join_row ''join_requests'' (sequences_of d) (raw_of d) = Some (t_join_requests d)"
    by (rule read_table_written [OF tables_of_raw_of(3) read_written(3) _ refl]) (simp add: sequences_of_def)
  moreover have "read_table read_message_row ''group_messages'' (sequences_of d) (raw_of d) = Some (t_group_messages d)"
    by (rule read_table_written [OF tables_of_raw_of(5) read_written(5) _ refl]) (simp add: sequences_of_def)
  moreover have "those (map (\<lambda>r. read_routing_row (map_of r)) (rows_of (raw_of d) ''group_routing'')) = Some (t_group_routing d)"
    unfolding tables_of_raw_of list.map_comp o_def read_written by (rule those_Some)
  ultimately show ?thesis by (simp only: database_of_def Option.bind.simps) simp
qed

section \<open>Opening a file\<close>

lemma storage_open_does:
  assumes "storage_open files path synchronous os err = (r, c')"
  shows "\<exists>pre post. schema_steps = pre @ post \<and>
      run_steps ensure_step pre (raw (connection_open files (unwrap_or '':memory:'' path) os err)) = Some (raw c') \<and>
      (\<forall>x. r = Inr x \<longrightarrow> post = [])"
    "os = [] \<Longrightarrow> os_engine c' = []"
    "os = [] \<Longrightarrow> (\<exists>x. r = Inr x) \<longleftrightarrow>
      run_steps ensure_step schema_steps (raw (connection_open files (unwrap_or '':memory:'' path) os err)) \<noteq> None"
proof -
  have "does (sbind (engine_call Some) (\<lambda>_. schema_init synchronous)) ([] @ schema_steps)"
    by (rule does_bind [OF does_call does_init])
  then have "does (sbind (engine_call Some) (\<lambda>_. schema_init synchronous)) schema_steps" by simp
  note performed = doesD [OF this assms [unfolded storage_open_def]]
  from performed(1) show "\<exists>pre post. schema_steps = pre @ post \<and>
      run_steps ensure_step pre (raw (connection_open files (unwrap_or '':memory:'' path) os err)) = Some (raw c') \<and>
      (\<forall>x. r = Inr x \<longrightarrow> post = [])" .
  have os: "os_engine (connection_open files (unwrap_or '':memory:'' path) os err) = os" by (simp add: connection_open_def)
  from performed(2,3) show "os = [] \<Longrightarrow> os_engine c' = []"
    "os = [] \<Longrightarrow> (\<exists>x. r = Inr x) \<longleftrightarrow>
      run_steps ensure_step schema_steps (raw (connection_open files (unwrap_or '':memory:'' path) os err)) \<noteq> None"
    unfolding os by blast+
qed

lemma raw_of_empty: "raw_of empty_database = fresh_schema_db"
  by code_simp

lemma open_new_ok:
  assumes "storage_open files (Some path) synchronous os err = (Inr x, c')" "path \<noteq> '':memory:'' \<Longrightarrow> files path = empty_raw"
  shows "raw c' = raw_of empty_database"
proof -
  have start: "raw (connection_open files (unwrap_or '':memory:'' (Some path)) os err) = empty_raw"
    using assms(2) by (simp add: connection_open_def unwrap_or_def)
  from storage_open_does(1) [OF assms(1), unfolded start] show ?thesis by (auto simp: fresh_schema_steps raw_of_empty)
qed

lemma open_new:
  assumes "storage_open files (Some path) synchronous [] err = (r, c')" "path \<noteq> '':memory:'' \<Longrightarrow> files path = empty_raw"
  shows "r = Inr () \<and> raw c' = raw_of empty_database \<and> os_engine c' = []"
proof -
  have start: "raw (connection_open files (unwrap_or '':memory:'' (Some path)) [] err) = empty_raw"
    using assms(2) by (simp add: connection_open_def unwrap_or_def)
  note opened = storage_open_does(2,3) [OF assms(1) refl, unfolded start]
  from opened(2) have ok: "r = Inr ()" by (auto simp: fresh_schema_steps)
  with open_new_ok [OF assms(1) [unfolded ok] assms(2)] opened(1) show ?thesis by simp
qed

section \<open>Properties\<close>

text \<open>
  A restart finds the database it left. Opening the file that holds the records of a database reads exactly
  these records, in their order and with the ids to give out next; nothing of the file is changed, not
  even by an attempt that fails, and an attempt that meets no failure of the engine succeeds.
\<close>

theorem restart_finds_database:
  assumes "storage_open files (Some path) synchronous os err = (r, c')" "files path = raw_of d" "path \<noteq> '':memory:''"
  shows "raw c' = raw_of d \<and> database_of (sequences_of d) (raw c') = Some d \<and> (os = [] \<longrightarrow> r = Inr ())"
proof -
  have start: "raw (connection_open files (unwrap_or '':memory:'' (Some path)) os err) = raw_of d"
    using assms(2,3) by (simp add: connection_open_def unwrap_or_def)
  note opened = storage_open_does [OF assms(1), unfolded start]
  from opened(1) raw_of_part have "raw c' = raw_of d" by blast
  moreover have "r = Inr ()" if "os = []" using opened(3) [OF that] by (auto simp: raw_of_settled)
  ultimately show ?thesis by (simp add: database_of_raw_of)
qed

definition demo_database :: database where
  "demo_database = db (snd (run (sql_ops text_env) sample_calls (fresh_connection [])))"

end
