(* ===== verification/Server_Storage.thy ===== *)
theory Server_Storage
  imports Server Sqlite_Restart
begin

text \<open>
  How \<^verbatim>\<open>main\<close> of \<^verbatim>\<open>crates/cordn-server/src/main.rs\<close> chooses the storage. An
  \<^verbatim>\<open>Arc<dyn CoordinatorStorage>\<close> is a value of either backend with a method table that calls the backend's own
  method; it keeps the storage contract when both backends do. \<open>files\<close> is what the database files hold,
  \<open>seq\<close> the ids that SQLite recorded as given out, \<open>os\<close> what the engine does with the next driver calls and
  \<open>err\<close> the text of a statement's own failure.
\<close>

section \<open>A backend behind the trait\<close>

definition dispatch :: "('s, 'x) sop \<Rightarrow> ('t, 'x) sop \<Rightarrow> ('s + 't, 'x) sop" where
  "dispatch m n st = (case st of Inl s \<Rightarrow> apsnd Inl (m s) | Inr t \<Rightarrow> apsnd Inr (n t))"

definition dyn_storage :: "('s, 'j) CoordinatorStorage \<Rightarrow> ('t, 'j) CoordinatorStorage \<Rightarrow> ('s + 't, 'j) CoordinatorStorage" where
  "dyn_storage o1 o2 = \<lparr>
     so_publish_key_package = (\<lambda>r. dispatch (so_publish_key_package o1 r) (so_publish_key_package o2 r)),
     so_list_key_packages_for_identity =
       (\<lambda>pk. dispatch (so_list_key_packages_for_identity o1 pk) (so_list_key_packages_for_identity o2 pk)),
     so_list_all_key_packages = dispatch (so_list_all_key_packages o1) (so_list_all_key_packages o2),
     so_get_key_package = (\<lambda>x. dispatch (so_get_key_package o1 x) (so_get_key_package o2 x)),
     so_remove_key_package = (\<lambda>x. dispatch (so_remove_key_package o1 x) (so_remove_key_package o2 x)),
     so_consume_key_package = (\<lambda>x. dispatch (so_consume_key_package o1 x) (so_consume_key_package o2 x)),
     so_store_welcome = (\<lambda>w. dispatch (so_store_welcome o1 w) (so_store_welcome o2 w)),
     so_fetch_pending_welcomes = (\<lambda>t c. dispatch (so_fetch_pending_welcomes o1 t c) (so_fetch_pending_welcomes o2 t c)),
     so_delete_expired_welcomes = (\<lambda>th. dispatch (so_delete_expired_welcomes o1 th) (so_delete_expired_welcomes o2 th)),
     so_store_join_request = (\<lambda>r. dispatch (so_store_join_request o1 r) (so_store_join_request o2 r)),
     so_fetch_pending_join_requests =
       (\<lambda>g c. dispatch (so_fetch_pending_join_requests o1 g c) (so_fetch_pending_join_requests o2 g c)),
     so_fetch_many_pending_join_requests =
       (\<lambda>gs c. dispatch (so_fetch_many_pending_join_requests o1 gs c) (so_fetch_many_pending_join_requests o2 gs c)),
     so_delete_expired_join_requests =
       (\<lambda>th. dispatch (so_delete_expired_join_requests o1 th) (so_delete_expired_join_requests o2 th)),
     so_append_group_message = (\<lambda>p. dispatch (so_append_group_message o1 p) (so_append_group_message o2 p)),
     so_fetch_group_messages = (\<lambda>g after. dispatch (so_fetch_group_messages o1 g after) (so_fetch_group_messages o2 g after)),
     so_fetch_many_group_messages =
       (\<lambda>fs. dispatch (so_fetch_many_group_messages o1 fs) (so_fetch_many_group_messages o2 fs))\<rparr>"

lemma refines_dispatch:
  assumes "case_sum r1 r2 st a"
    and "\<And>s. r1 s a \<Longrightarrow> refines eq r1 b1 m f s a" "\<And>t. r2 t a \<Longrightarrow> refines eq r2 b2 n f t a"
  shows "refines eq (case_sum r1 r2) (case_sum b1 b2) (dispatch m n) f st a"
proof (cases st)
  case (Inl s)
  with assms(1) assms(2) [of s] show ?thesis by (simp add: refines_def dispatch_def)
next
  case (Inr t)
  with assms(1) assms(3) [of t] show ?thesis by (simp add: refines_def dispatch_def)
qed

lemma dyn_contract:
  assumes one: "coordinator_storage o1 r1 b1" and two: "coordinator_storage o2 r2 b2"
  shows "coordinator_storage (dyn_storage o1 o2) (case_sum r1 r2) (case_sum b1 b2)"
proof -
  have "spec_inv a" if "case_sum r1 r2 st a" for st a
    using that coordinator_storage.rel_inv [OF one] coordinator_storage.rel_inv [OF two] by (cases st) auto
  then show ?thesis
    by unfold_locales
      (auto simp: dyn_storage_def intro!: refines_dispatch
        intro: one [THEN coordinator_storage.publish_key_package] two [THEN coordinator_storage.publish_key_package]
          one [THEN coordinator_storage.list_key_packages_for_identity] two [THEN coordinator_storage.list_key_packages_for_identity]
          one [THEN coordinator_storage.list_all_key_packages] two [THEN coordinator_storage.list_all_key_packages]
          one [THEN coordinator_storage.get_key_package] two [THEN coordinator_storage.get_key_package]
          one [THEN coordinator_storage.remove_key_package] two [THEN coordinator_storage.remove_key_package]
          one [THEN coordinator_storage.consume_key_package] two [THEN coordinator_storage.consume_key_package]
          one [THEN coordinator_storage.store_welcome] two [THEN coordinator_storage.store_welcome]
          one [THEN coordinator_storage.fetch_pending_welcomes] two [THEN coordinator_storage.fetch_pending_welcomes]
          one [THEN coordinator_storage.delete_expired_welcomes] two [THEN coordinator_storage.delete_expired_welcomes]
          one [THEN coordinator_storage.store_join_request] two [THEN coordinator_storage.store_join_request]
          one [THEN coordinator_storage.fetch_pending_join_requests] two [THEN coordinator_storage.fetch_pending_join_requests]
          one [THEN coordinator_storage.fetch_many_pending_join_requests] two [THEN coordinator_storage.fetch_many_pending_join_requests]
          one [THEN coordinator_storage.delete_expired_join_requests] two [THEN coordinator_storage.delete_expired_join_requests]
          one [THEN coordinator_storage.append_group_message] two [THEN coordinator_storage.append_group_message]
          one [THEN coordinator_storage.fetch_group_messages] two [THEN coordinator_storage.fetch_group_messages]
          one [THEN coordinator_storage.fetch_many_group_messages] two [THEN coordinator_storage.fetch_many_group_messages])
qed

section \<open>What main starts\<close>

definition opened_connection :: "(string \<Rightarrow> int) \<Rightarrow> schema_connection \<Rightarrow> connection option" where
  "opened_connection seq c = map_option (\<lambda>d. \<lparr>db = d, outcomes = os_engine c\<rparr>) (database_of seq (raw c))"

text \<open>
  An error is the context that \<^verbatim>\<open>main\<close> adds with the storage error below it. No value is a file whose
  rows do not have the types of the schema: the server starts on it, but the typed tables cannot describe it.
\<close>

definition main_storage :: "(string \<Rightarrow> raw_db) \<Rightarrow> (string \<Rightarrow> int) \<Rightarrow> string option list \<Rightarrow> string \<Rightarrow> ServerConfig \<Rightarrow>
    (string \<times> StorageError) + ('j InMemoryInner + connection) option" where
  "main_storage files seq os err cfg =
     (case sc_backend (storage_config cfg) of
        Memory \<Rightarrow> Inr (Some (Inl InMemoryInner_default))
      | Sqlite \<Rightarrow>
          let path = unwrap_or ''./cordn.sqlite'' (sc_sqlite_path (storage_config cfg)) in
          case storage_open files (Some path) (sc_sqlite_synchronous (storage_config cfg)) os err of
            (Inl e, c) \<Rightarrow> Inl (''opening sqlite store at '' @ path, e)
          | (Inr _, c) \<Rightarrow> Inr (map_option Inr (opened_connection seq c)))"

definition main_server :: "(string \<Rightarrow> raw_db) \<Rightarrow> (string \<Rightarrow> int) \<Rightarrow> string option list \<Rightarrow> string \<Rightarrow> ServerConfig \<Rightarrow>
    (string \<times> StorageError) + ('j InMemoryInner + connection) CoordinatorAdapter option" where
  "main_server files seq os err cfg =
     map_sum id (map_option (\<lambda>st. main_adapter st cfg)) (main_storage files seq os err cfg)"

text \<open>The database file a configuration names, if it names one.\<close>

definition database_path :: "ServerConfig \<Rightarrow> string option" where
  "database_path cfg =
     (if sc_backend (storage_config cfg) = Memory then None
      else let path = unwrap_or ''./cordn.sqlite'' (sc_sqlite_path (storage_config cfg)) in
           if path = '':memory:'' then None else Some path)"

definition starts_new :: "(string \<Rightarrow> raw_db) \<Rightarrow> (string \<Rightarrow> int) \<Rightarrow> ServerConfig \<Rightarrow> bool" where
  "starts_new files seq cfg \<longleftrightarrow> seq = sequences_of empty_database \<and> (case database_path cfg of None \<Rightarrow> True | Some path \<Rightarrow> files path = empty_raw)"

lemma main_storage_new:
  assumes "starts_new files seq cfg"
  shows "main_storage files seq [] err cfg =
    Inr (Some (if sc_backend (storage_config cfg) = Memory then Inl InMemoryInner_default else Inr (fresh_connection [])))"
proof (cases "sc_backend (storage_config cfg)")
  case Sqlite
  let ?path = "unwrap_or ''./cordn.sqlite'' (sc_sqlite_path (storage_config cfg))"
  obtain r c where run: "storage_open files (Some ?path) (sc_sqlite_synchronous (storage_config cfg)) [] err = (r, c)" by force
  have "?path \<noteq> '':memory:'' \<Longrightarrow> files ?path = empty_raw"
    using assms Sqlite by (simp add: starts_new_def database_path_def Let_def)
  from open_new [OF run this] assms Sqlite show ?thesis
    by (simp add: main_storage_def run opened_connection_def starts_new_def database_of_raw_of)
qed (simp add: main_storage_def)

end
