(* ===== verification/Server_Properties.thy ===== *)
theory Server_Properties
  imports Adapter_Properties Server_Storage
begin

text \<open>
  What the configured server promises: its tools answer alike whatever storage the configuration chooses, and a
  server that is started again on its database file has the storage of the one before.
\<close>

lemma dyn_sqlite: "json_round_trip env \<Longrightarrow> coordinator_storage (dyn_storage mem_ops (sql_ops env))
    (case_sum mem_rel (sql_rel env)) (case_sum (\<lambda>_. True) sql_reliable)"
  by (rule dyn_contract [OF mem.coordinator_storage_axioms sql_storage])

interpretation dyn_text: coordinator_storage "dyn_storage mem_ops (sql_ops text_env)"
    "case_sum mem_rel (sql_rel text_env)" "case_sum (\<lambda>_. True) sql_reliable"
  by (rule dyn_sqlite [OF text_env_round_trip])

lemma new_server_related:
  assumes "starts_new files seq cfg"
  shows "\<exists>ad. main_server files seq [] err cfg = Inr (Some ad) \<and>
    related (case_sum mem_rel (sql_rel env)) (case_sum (\<lambda>_. True) sql_reliable) ad (main_adapter spec_empty cfg)"
  by (simp add: main_server_def main_storage_new [OF assms] related_def mem_rel_default sql_rel_fresh sql_reliable_def)

lemma main_adapter_cong:
  assumes "abuse_protection cfg = abuse_protection cfg'" "max_age_ms cfg = max_age_ms cfg'"
  shows "main_adapter st cfg = main_adapter st cfg'"
  by (simp add: main_adapter_def main_coordinator_def assms)

text \<open>
  C1. A server answers the same whichever storage it was configured with. Two configurations that agree on the
  limits and the retention, each on a new database where it uses one, start, and over every run of tool calls
  that publishes no reference twice, with an engine that does not fail, the two servers give the same answers and
  errors, call by call; only the order of \<^verbatim>\<open>kp_list\<close> may differ.
\<close>

theorem server_parity:
  assumes "starts_new files seq cfg" "starts_new files' seq' cfg'"
    and "abuse_protection cfg' = abuse_protection cfg" "max_age_ms cfg' = max_age_ms cfg"
    and "json_round_trip env" "distinct (request_refs calls)" "int (length calls) + 2 \<le> 2 ^ 63"
  shows "\<exists>ad ad'. main_server files seq [] err cfg = Inr (Some ad) \<and> main_server files' seq' [] err' cfg' = Inr (Some ad') \<and>
    list_all2 (rel_sum (=) same_output) (fst (serve_all (dyn_storage mem_ops (sql_ops env)) sv calls ad))
      (fst (serve_all (dyn_storage mem_ops (sql_ops env)) sv calls ad'))"
proof -
  have start: "logged no_queues {} (store_of (main_adapter spec_empty cfg))" "{} \<inter> set (request_refs calls) = {}"
    "log_room no_queues (length calls)"
    using assms(7) by (simp_all add: logged_def queues_of_def no_queues_def spec_empty_def log_room_def)
  obtain ad where ad: "main_server files seq [] err cfg = Inr (Some ad)"
    "related (case_sum mem_rel (sql_rel env)) (case_sum (\<lambda>_. True) sql_reliable) ad (main_adapter spec_empty cfg)"
    using new_server_related [OF assms(1)] by blast
  obtain ad' where ad': "main_server files' seq' [] err' cfg' = Inr (Some ad')"
    "related (case_sum mem_rel (sql_rel env)) (case_sum (\<lambda>_. True) sql_reliable) ad' (main_adapter spec_empty cfg)"
    using new_server_related [OF assms(2)] main_adapter_cong [OF assms(3,4)] by metis
  note refines = coordinator_storage.serve_all_refines [OF dyn_sqlite [OF assms(5)] _ start(1) assms(6) start(2,3), of _ sv]
  from same_answers_join [OF refines [OF ad(2)] refines [OF ad'(2)]] ad(1) ad'(1) show ?thesis by blast
qed

definition demo_sqlite_config :: ServerConfig where
  "demo_sqlite_config = ServerConfig_default\<lparr>storage_config :=
     \<lparr>sc_backend = Sqlite, sc_sqlite_path = None, sc_sqlite_synchronous = Full\<rparr>\<rparr>"

theorem server_parity_witness:
  "\<exists>ad ad'. main_server (\<lambda>_. empty_raw) (sequences_of empty_database) [] ''error'' ServerConfig_default = Inr (Some ad) \<and>
     main_server (\<lambda>_. empty_raw) (sequences_of empty_database) [] ''error'' demo_sqlite_config = Inr (Some ad') \<and>
     list_all2 (rel_sum (=) same_output) (fst (serve_all (dyn_storage mem_ops (sql_ops text_env)) demo_services demo_posts ad))
       (fst (serve_all (dyn_storage mem_ops (sql_ops text_env)) demo_services demo_posts ad'))"
  by (rule server_parity [OF _ _ _ _ text_env_round_trip])
    (simp_all add: starts_new_def database_path_def demo_sqlite_config_def ServerConfig_default_def demo_posts_def request_refs_def
      unwrap_or_def Let_def)

lemma started_again:
  assumes "database_path cfg = Some path" "files path = raw_of d"
  shows "case main_server files (sequences_of d) os err cfg of
       Inl (context, e) \<Rightarrow> context = ''opening sqlite store at '' @ path \<and> os \<noteq> []
     | Inr server \<Rightarrow> \<exists>os'. server = Some (main_adapter (Inr \<lparr>db = d, outcomes = os'\<rparr>) cfg) \<and> (os = [] \<longrightarrow> os' = [])"
proof -
  have path: "sc_backend (storage_config cfg) = Sqlite" "unwrap_or ''./cordn.sqlite'' (sc_sqlite_path (storage_config cfg)) = path"
    "path \<noteq> '':memory:''"
    using assms(1) by (cases "sc_backend (storage_config cfg)"; simp add: database_path_def Let_def split: if_splits)+
  obtain r c where run: "storage_open files (Some path) (sc_sqlite_synchronous (storage_config cfg)) os err = (r, c)" by force
  from restart_finds_database [OF run assms(2) path(3)] storage_open_does(2) [OF run] show ?thesis
    by (auto simp: main_server_def main_storage_def path run opened_connection_def split: sum.split)
qed

lemma restart_started:
  assumes "database_path cfg = Some path" "files path = raw_of d"
  shows "main_server files (sequences_of d) [] err cfg = Inr (Some (main_adapter (Inr \<lparr>db = d, outcomes = []\<rparr> :: 'j InMemoryInner + connection) cfg))"
  using started_again [where files = files and d = d and os = "[]" and err = err and 'a = 'j, OF assms] by (simp split: sum.splits prod.splits)

text \<open>
  C16. A server that is started again on its database file has the storage it was left with, even though
  it opens the file anew; only what lives in memory, the subscriptions and the rate limiter, starts over. If the
  engine fails while it opens the file, the server does not start and names the path.
\<close>

theorem restart_keeps_storage:
  assumes "database_path cfg = Some path" "files path = raw_of d"
  shows "main_server files (sequences_of d) [] err cfg = Inr (Some (main_adapter (Inr \<lparr>db = d, outcomes = []\<rparr> :: 'j InMemoryInner + connection) cfg)) \<and>
    (case main_server files (sequences_of d) os err cfg of
       Inl (context, e) \<Rightarrow> context = ''opening sqlite store at '' @ path \<and> os \<noteq> []
     | Inr server \<Rightarrow> \<exists>os'. server = Some (main_adapter (Inr \<lparr>db = d, outcomes = os'\<rparr> :: 'j InMemoryInner + connection) cfg))"
proof -
  note again = started_again [where files = files and d = d and 'a = 'j, OF assms]
  have "main_server files (sequences_of d) [] err cfg = Inr (Some (main_adapter (Inr \<lparr>db = d, outcomes = []\<rparr> :: 'j InMemoryInner + connection) cfg))"
    by (rule restart_started [where files = files, OF assms])
  moreover from again [of os err] have "case main_server files (sequences_of d) os err cfg of
       Inl (context, e) \<Rightarrow> context = ''opening sqlite store at '' @ path \<and> os \<noteq> []
     | Inr server \<Rightarrow> \<exists>os'. server = Some (main_adapter (Inr \<lparr>db = d, outcomes = os'\<rparr> :: 'j InMemoryInner + connection) cfg)"
    by (simp split: sum.splits prod.splits) metis
  ultimately show ?thesis ..
qed

theorem restart_keeps_storage_witness:
  "main_server (\<lambda>_. raw_of demo_database) (sequences_of demo_database) [] ''error'' demo_sqlite_config =
     Inr (Some (main_adapter (Inr \<lparr>db = demo_database, outcomes = []\<rparr>) demo_sqlite_config))"
  by (rule restart_keeps_storage [where path = "''./cordn.sqlite''" and os = "[]", THEN conjunct1])
    (simp_all add: database_path_def demo_sqlite_config_def unwrap_or_def Let_def)

end
