(* ===== verification/Delivery_Properties.thy ===== *)
theory Delivery_Properties
  imports Server_Properties
begin

text \<open>
  What callers get back through the tools of a started server over whole runs of calls: messages, welcomes, join
  requests and key packages, end to end. The lemmas hold of every backend that keeps the storage
  contract; the properties are about the server that \<open>main\<close> starts on a new store, in memory or on SQLite, with an
  engine (\<open>os\<close>) that may fail at any driver call.
\<close>

section \<open>Any backend\<close>

context coordinator_storage
begin

lemma messages_delivered:
  assumes "rel (store_of ad) spec_empty" "\<And>s b. b64_decode sv s = Some b \<Longrightarrow> b64_encode sv b = s"
    and "distinct (request_refs calls)" "int (length calls) + 2 < 2 ^ 63" "serve_all ops sv calls ad = (rs, ad1)"
    and "handle ops sv now stored (MsgFetchMany \<lparr>fmg_groups = [\<lparr>fgi_gid = g, fgi_after = None\<rparr>]\<rparr>) client event ad1 =
      (Inr (MsgFetched out), ad2)"
  shows "map (\<lambda>m. (gmw_cursor m, gmw_gid m, gmw_msg_64 m)) (fgo_messages out) =
    map (\<lambda>(i, t). (i, g, t)) (zip (map int [1..<Suc (length (posted_texts g calls rs))]) (posted_texts g calls rs))"
proof -
  obtain q q' where q: "queue_run sv calls rs no_queues q" "contiguous (q_messages q)"
    "queue_call sv client stored (MsgFetchMany \<lparr>fmg_groups = [\<lparr>fgi_gid = g, fgi_after = None\<rparr>]\<rparr>) q (MsgFetched out) q'"
    using run_then_call [OF assms(1,3-5) _ assms(6)] by auto
  have "fgo_messages out = map (wire_message_struct sv) (log_after g None (q_messages q))"
    using q(3) by (simp add: queue_call_def map_group_messages_def)
  with log_texts_numbered [OF q(2), of sv g] queue_run_views(1) [OF q(1) assms(2), of g] show ?thesis by simp
qed

lemma welcomes_delivered:
  assumes "rel (store_of ad) spec_empty" "\<And>s b. b64_decode sv s = Some b \<Longrightarrow> b64_encode sv b = s"
    and "distinct (request_refs calls)" "int (length calls) + 2 < 2 ^ 63" "serve_all ops sv calls ad = (rs, ad1)"
    and "handle ops sv now stored (WelcomeTake input) client event ad1 = (Inr (WelcomesTaken out), ad2)"
  shows "fwo_welcomes out = unacknowledged input (inbox client calls rs)"
proof -
  have "set (call_refs (WelcomeTake input)) \<inter> set (request_refs calls) = {}" by simp
  from run_then_call [OF assms(1,3-5) this assms(6)] obtain q q' where
    q: "queue_run sv calls rs no_queues q" "queue_call sv client stored (WelcomeTake input) q (WelcomesTaken out) q'" by blast
  from q(2) have "fwo_welcomes out = welcomes_of sv client (q\<lparr>q_welcomes := kept_welcomes client input (q_welcomes q)\<rparr>)"
    by (simp add: queue_call_def)
  then show ?thesis
    unfolding kept_welcomes_view using queue_run_views(2) [OF q(1) assms(2), of client] by simp
qed

lemma join_requests_delivered:
  assumes "rel (store_of ad) spec_empty" "distinct (request_refs calls)" "int (length calls) + 2 < 2 ^ 63"
    and "serve_all ops sv calls ad = (rs, ad1)"
    and "handle ops sv now stored (JoinRequestTakeMany input) client event ad1 = (Inr (JoinRequestsTaken out), ad2)"
  shows "fmo_requests out = concat (map (\<lambda>g. unresolved input (fji_gid g) (lobby (fji_gid g) calls rs)) (fmj_groups input))"
proof -
  have "set (call_refs (JoinRequestTakeMany input)) \<inter> set (request_refs calls) = {}" by simp
  from run_then_call [OF assms(1-4) this assms(5)] obtain q q' where
    q: "queue_run sv calls rs no_queues q" "queue_call sv client stored (JoinRequestTakeMany input) q (JoinRequestsTaken out) q'"
    by blast
  from q(2) have "fmo_requests out =
      concat (map (\<lambda>g. requests_of (fji_gid g) (q\<lparr>q_requests := kept_requests input (q_requests q)\<rparr>)) (fmj_groups input))"
    by (simp add: queue_call_def map_concat comp_def)
  then show ?thesis unfolding kept_requests_view queue_run_views(3) [OF q(1)] .
qed

lemma key_packages_offered:
  assumes "rel (store_of ad) spec_empty" "distinct (request_refs calls)" "int (length calls) + 2 \<le> 2 ^ 63"
    and "serve_all ops sv calls ad = (rs, ad1)" "j < length rs" "x \<in> set (offered_by (rs ! j))"
  shows "(\<exists>i<j. x \<in> set (published_by (rs ! i))) \<and> (\<forall>i<j. x \<notin> set (retired_by (rs ! i)))"
proof -
  have start: "logged no_queues {} spec_empty" "log_room no_queues (length calls)"
    using assms(3) by (simp_all add: logged_def queues_of_def no_queues_def spec_empty_def log_room_def)
  from serve_all_log [OF assms(1) start(1) assms(2) _ start(2) assms(4)]
  have run: "refs_run {} rs"
    "list_all2 (\<lambda>(_, _, _, _, call) r. set (published_by r) \<subseteq> set (call_refs call)) calls rs" by auto
  from refs_run_offered [OF run(1) assms(5,6)] refs_run_retired [OF run assms(2) _ _ assms(5)] assms(6)
  show ?thesis by blast
qed

end

section \<open>The started server\<close>

lemma started_empty:
  assumes "starts_new files seq cfg" "main_server files seq os err cfg = Inr (Some ad)"
  shows "case_sum mem_rel (sql_rel env) (store_of ad) spec_empty"
proof (cases "sc_backend (storage_config cfg)")
  case Memory
  with assms(2) show ?thesis by (auto simp: main_server_def main_storage_def mem_rel_default)
next
  case Sqlite
  let ?path = "unwrap_or ''./cordn.sqlite'' (sc_sqlite_path (storage_config cfg))"
  obtain r c where run: "storage_open files (Some ?path) (sc_sqlite_synchronous (storage_config cfg)) os err = (r, c)" by force
  have new: "?path \<noteq> '':memory:'' \<Longrightarrow> files ?path = empty_raw" "seq = sequences_of empty_database"
    using assms(1) Sqlite by (simp_all add: starts_new_def database_path_def Let_def)
  from assms(2) run Sqlite obtain x st where ok: "r = Inr x" "opened_connection seq c = Some st" "store_of ad = Inr st"
    by (auto simp: main_server_def main_storage_def Let_def split: sum.splits)
  from open_new_ok [OF run [unfolded ok(1)] new(1)] ok(2,3) new(2) sql_rel_fresh [of env "os_engine c"] show ?thesis
    by (simp add: opened_connection_def database_of_raw_of)
qed

text \<open>What the demonstrations run on: SQLite on a new file, without a rate limit.\<close>

definition demo_config :: ServerConfig where
  "demo_config = demo_sqlite_config\<lparr>abuse_protection := demo_abuse False 0 0\<rparr>"

definition demo_server :: "(string InMemoryInner + connection) CoordinatorAdapter" where
  "demo_server = main_adapter (Inr (fresh_connection [])) demo_config"

abbreviation demo_ops :: "(string InMemoryInner + connection, string) CoordinatorStorage" where
  "demo_ops \<equiv> dyn_storage mem_ops (sql_ops text_env)"

lemma demo_starts:
  "starts_new (\<lambda>_. empty_raw) (sequences_of empty_database) demo_config"
  "main_server (\<lambda>_. empty_raw) (sequences_of empty_database) [] err demo_config = Inr (Some demo_server)"
proof -
  show new: "starts_new (\<lambda>_. empty_raw) (sequences_of empty_database) demo_config"
    by (simp add: starts_new_def split: option.split)
  have "sc_backend (storage_config demo_config) = Sqlite" by (simp add: demo_config_def demo_sqlite_config_def)
  then show "main_server (\<lambda>_. empty_raw) (sequences_of empty_database) [] err demo_config = Inr (Some demo_server)"
    by (simp add: main_server_def demo_server_def main_storage_new [OF new])
qed

text \<open>The same in memory.\<close>

definition demo_memory_config :: ServerConfig where
  "demo_memory_config = ServerConfig_default\<lparr>abuse_protection := demo_abuse False 0 0\<rparr>"

definition demo_memory_server :: "(string InMemoryInner + connection) CoordinatorAdapter" where
  "demo_memory_server = main_adapter (Inl InMemoryInner_default) demo_memory_config"

lemma demo_memory_starts:
  "starts_new (\<lambda>_. empty_raw) (sequences_of empty_database) demo_memory_config"
  "main_server (\<lambda>_. empty_raw) (sequences_of empty_database) [] err demo_memory_config = Inr (Some demo_memory_server)"
proof -
  show new: "starts_new (\<lambda>_. empty_raw) (sequences_of empty_database) demo_memory_config"
    by (simp add: starts_new_def split: option.split)
  have "sc_backend (storage_config demo_memory_config) = Memory" by (simp add: demo_memory_config_def ServerConfig_default_def)
  then show "main_server (\<lambda>_. empty_raw) (sequences_of empty_database) [] err demo_memory_config = Inr (Some demo_memory_server)"
    by (simp add: main_server_def demo_memory_server_def main_storage_new [OF new])
qed

text \<open>
  C2. End to end, messages are neither lost, altered, reordered nor invented. After any run of tool
  calls by any callers from a new store, on either backend and whatever calls fail, a fetch of a
  group's log returns exactly the texts of the posts to it that succeeded, in order, under the
  cursors 1, 2, 3 and so on. Base64 must decode only what it encodes, and a reference is published once.
\<close>

theorem message_log_round_trip:
  assumes "starts_new files seq cfg" "main_server files seq os err cfg = Inr (Some ad)" "json_round_trip env"
    and "\<And>s b. b64_decode sv s = Some b \<Longrightarrow> b64_encode sv b = s"
    and "distinct (request_refs calls)" "int (length calls) + 2 < 2 ^ 63"
    and "serve_all (dyn_storage mem_ops (sql_ops env)) sv calls ad = (rs, ad1)"
    and "handle (dyn_storage mem_ops (sql_ops env)) sv now stored (MsgFetchMany \<lparr>fmg_groups = [\<lparr>fgi_gid = g, fgi_after = None\<rparr>]\<rparr>)
      client event ad1 = (Inr (MsgFetched out), ad2)"
  shows "map (\<lambda>m. (gmw_cursor m, gmw_gid m, gmw_msg_64 m)) (fgo_messages out) =
    map (\<lambda>(i, t). (i, g, t)) (zip (map int [1..<Suc (length (posted_texts g calls rs))]) (posted_texts g calls rs))"
  by (rule coordinator_storage.messages_delivered [OF dyn_sqlite [OF assms(3)] started_empty [OF assms(1,2)] assms(4-8)])

theorem message_log_round_trip_witness:
  "\<exists>out. fst (handle demo_ops demo_services 0 0 demo_fetch ''eve'' None (snd (serve_all demo_ops demo_services demo_posts demo_server))) =
     Inr (MsgFetched out) \<and>
   map (\<lambda>m. (gmw_cursor m, gmw_gid m, gmw_msg_64 m)) (fgo_messages out) = [(1, ''g'', ''hi''), (2, ''g'', ''yo'')]"
proof -
  let ?run = "serve_all demo_ops demo_services demo_posts demo_server"
  let ?fetch = "handle demo_ops demo_services 0 0 demo_fetch ''eve'' None (snd ?run)"
  have refs: "distinct (request_refs demo_posts)" "int (length demo_posts) + 2 < 2 ^ 63"
    by (simp_all add: demo_posts_def request_refs_def)
  have "case ?run of (rs, ad) \<Rightarrow>
      (case fst (handle demo_ops demo_services 0 0 demo_fetch ''eve'' None ad) of Inr (MsgFetched out) \<Rightarrow> True | _ \<Rightarrow> False) \<and>
      posted_texts ''g'' demo_posts rs = [''hi'', ''yo'']" by code_simp
  then have both: "case fst ?fetch of Inr (MsgFetched out) \<Rightarrow> True | _ \<Rightarrow> False"
    "posted_texts ''g'' demo_posts (fst ?run) = [''hi'', ''yo'']" by (simp_all only: split_def)
  from both(1) obtain out ad2 where fetch: "?fetch = (Inr (MsgFetched out), ad2)"
    by (cases ?fetch) (auto split: sum.splits tool_output.splits)
  from message_log_round_trip [OF demo_starts text_env_round_trip demo_codec refs prod.collapse [symmetric] fetch] both(2)
  have "map (\<lambda>m. (gmw_cursor m, gmw_gid m, gmw_msg_64 m)) (fgo_messages out) = [(1, ''g'', ''hi''), (2, ''g'', ''yo'')]"
    by simp
  with fetch show ?thesis by simp
qed

text \<open>
  C4. A welcome stored for an identity is delivered to it, unaltered and with the others in the order
  of arrival, at every fetch until the identity acknowledges it, and nothing else is delivered to it:
  a fetch after any run of calls answers the welcomes that were stored for the caller and
  not acknowledged by it since. Base64 must decode only what it encodes, and a reference is
  published once.
\<close>

theorem welcome_round_trip:
  assumes "starts_new files seq cfg" "main_server files seq os err cfg = Inr (Some ad)" "json_round_trip env"
    and "\<And>s b. b64_decode sv s = Some b \<Longrightarrow> b64_encode sv b = s"
    and "distinct (request_refs calls)" "int (length calls) + 2 < 2 ^ 63"
    and "serve_all (dyn_storage mem_ops (sql_ops env)) sv calls ad = (rs, ad1)"
    and "handle (dyn_storage mem_ops (sql_ops env)) sv now stored (WelcomeTake input) client event ad1 =
      (Inr (WelcomesTaken out), ad2)"
  shows "fwo_welcomes out = unacknowledged input (inbox client calls rs)"
  by (rule coordinator_storage.welcomes_delivered [OF dyn_sqlite [OF assms(3)] started_empty [OF assms(1,2)] assms(4-8)])

definition demo_welcomes :: "request list" where
  "demo_welcomes =
     [(''ab'', None, 0, 5, WelcomeStore \<lparr>swi_target_pk = ''bob'', swi_kp_ref = ''r1'', swi_welcome_64 = ''hi'', swi_after = None\<rparr>),
      (''ab'', None, 0, 6, WelcomeStore \<lparr>swi_target_pk = ''bob'', swi_kp_ref = [], swi_welcome_64 = ''no'', swi_after = None\<rparr>),
      (''eve'', None, 0, 7, WelcomeStore \<lparr>swi_target_pk = ''bob'', swi_kp_ref = ''r2'', swi_welcome_64 = ''yo'', swi_after = Some 3\<rparr>),
      (''eve'', None, 0, 8, WelcomeTake \<lparr>fwi_consumed = Some [\<lparr>cwr_kp_ref = ''r2'', cwr_at = 7\<rparr>]\<rparr>),
      (''bob'', None, 0, 9, WelcomeTake \<lparr>fwi_consumed = Some [\<lparr>cwr_kp_ref = ''r1'', cwr_at = 5\<rparr>]\<rparr>)]"

theorem welcome_round_trip_witness:
  "\<exists>out. fst (handle demo_ops demo_services 0 0 (WelcomeTake \<lparr>fwi_consumed = None\<rparr>) ''bob'' None
       (snd (serve_all demo_ops demo_services demo_welcomes demo_server))) = Inr (WelcomesTaken out) \<and>
     fwo_welcomes out = [\<lparr>pw_kp_ref = ''r2'', pw_welcome_64 = ''yo'', pw_at = 7, pw_after = Some 3\<rparr>]"
proof -
  let ?run = "serve_all demo_ops demo_services demo_welcomes demo_server"
  let ?take = "handle demo_ops demo_services 0 0 (WelcomeTake \<lparr>fwi_consumed = None\<rparr>) ''bob'' None (snd ?run)"
  have calls: "distinct (request_refs demo_welcomes)" "int (length demo_welcomes) + 2 < 2 ^ 63"
    by (simp_all add: demo_welcomes_def request_refs_def)
  have "case ?run of (rs, ad) \<Rightarrow>
      (case fst (handle demo_ops demo_services 0 0 (WelcomeTake \<lparr>fwi_consumed = None\<rparr>) ''bob'' None ad) of
         Inr (WelcomesTaken out) \<Rightarrow> True | _ \<Rightarrow> False) \<and>
      unacknowledged \<lparr>fwi_consumed = None\<rparr> (inbox ''bob'' demo_welcomes rs) =
        [\<lparr>pw_kp_ref = ''r2'', pw_welcome_64 = ''yo'', pw_at = 7, pw_after = Some 3\<rparr>]" by code_simp
  then have both: "case fst ?take of Inr (WelcomesTaken out) \<Rightarrow> True | _ \<Rightarrow> False"
    "unacknowledged \<lparr>fwi_consumed = None\<rparr> (inbox ''bob'' demo_welcomes (fst ?run)) =
      [\<lparr>pw_kp_ref = ''r2'', pw_welcome_64 = ''yo'', pw_at = 7, pw_after = Some 3\<rparr>]" by (simp_all only: split_def)
  from both(1) obtain out ad2 where take: "?take = (Inr (WelcomesTaken out), ad2)"
    by (cases ?take) (auto split: sum.splits tool_output.splits)
  from both(2) welcome_round_trip [OF demo_starts text_env_round_trip demo_codec calls prod.collapse [symmetric] take]
  show ?thesis by (intro exI [of _ out] conjI) (simp_all only: take fst_conv)
qed

text \<open>
  C6. A join request reaches whoever fetches the requests of its group. After any run of tool calls a fetch
  answers, group by group, one request for each identity that asked, with what it asked last, in
  the order in which the identities first asked, and without those that were resolved since.
\<close>

theorem join_request_round_trip:
  assumes "starts_new files seq cfg" "main_server files seq os err cfg = Inr (Some ad)" "json_round_trip env"
    and "distinct (request_refs calls)" "int (length calls) + 2 < 2 ^ 63"
    and "serve_all (dyn_storage mem_ops (sql_ops env)) sv calls ad = (rs, ad1)"
    and "handle (dyn_storage mem_ops (sql_ops env)) sv now stored (JoinRequestTakeMany input) client event ad1 =
      (Inr (JoinRequestsTaken out), ad2)"
  shows "fmo_requests out = concat (map (\<lambda>g. unresolved input (fji_gid g) (lobby (fji_gid g) calls rs)) (fmj_groups input))"
  by (rule coordinator_storage.join_requests_delivered [OF dyn_sqlite [OF assms(3)] started_empty [OF assms(1,2)] assms(4-7)])

definition demo_requests :: "request list" where
  "demo_requests =
     [(''ab'', Some (demo_event ''ab''), 0, 1, demo_publish ''r1'' True),
      (''ab'', None, 0, 5, JoinRequestStore \<lparr>sji_gid = ''g'', sji_kp_ref = ''r1''\<rparr>),
      (''eve'', None, 0, 6, JoinRequestStore \<lparr>sji_gid = ''g'', sji_kp_ref = ''r1''\<rparr>),
      (''ab'', None, 0, 7, JoinRequestStore \<lparr>sji_gid = ''g'', sji_kp_ref = ''r1''\<rparr>),
      (''ab'', None, 0, 8, JoinRequestStore \<lparr>sji_gid = ''h'', sji_kp_ref = ''r1''\<rparr>)]"

abbreviation demo_take :: FetchManyPendingJoinRequestsInput where
  "demo_take \<equiv> \<lparr>fmj_groups = [\<lparr>fji_gid = ''g''\<rparr>, \<lparr>fji_gid = ''h''\<rparr>],
     fmj_consumed = Some [\<lparr>cjg_pk = ''ab'', cjg_at = 8, cjg_gid = ''h''\<rparr>]\<rparr>"

theorem join_request_round_trip_witness:
  "\<exists>out. fst (handle demo_ops demo_services 0 0 (JoinRequestTakeMany demo_take) ''bob'' None
       (snd (serve_all demo_ops demo_services demo_requests demo_memory_server))) = Inr (JoinRequestsTaken out) \<and>
     fmo_requests out = [\<lparr>jrg_pk = ''ab'', jrg_kp_ref = ''r1'', jrg_at = 7, jrg_gid = ''g''\<rparr>]"
proof -
  let ?run = "serve_all demo_ops demo_services demo_requests demo_memory_server"
  let ?take = "handle demo_ops demo_services 0 0 (JoinRequestTakeMany demo_take) ''bob'' None (snd ?run)"
  have calls: "distinct (request_refs demo_requests)" "int (length demo_requests) + 2 < 2 ^ 63"
    by (simp_all add: demo_requests_def request_refs_def demo_publish_def)
  have "case ?run of (rs, ad) \<Rightarrow>
      (case fst (handle demo_ops demo_services 0 0 (JoinRequestTakeMany demo_take) ''bob'' None ad) of
         Inr (JoinRequestsTaken out) \<Rightarrow> True | _ \<Rightarrow> False) \<and>
      concat (map (\<lambda>g. unresolved demo_take (fji_gid g) (lobby (fji_gid g) demo_requests rs)) (fmj_groups demo_take)) =
        [\<lparr>jrg_pk = ''ab'', jrg_kp_ref = ''r1'', jrg_at = 7, jrg_gid = ''g''\<rparr>]" by code_simp
  then have both: "case fst ?take of Inr (JoinRequestsTaken out) \<Rightarrow> True | _ \<Rightarrow> False"
    "concat (map (\<lambda>g. unresolved demo_take (fji_gid g) (lobby (fji_gid g) demo_requests (fst ?run))) (fmj_groups demo_take)) =
      [\<lparr>jrg_pk = ''ab'', jrg_kp_ref = ''r1'', jrg_at = 7, jrg_gid = ''g''\<rparr>]" by (simp_all only: split_def)
  from both(1) obtain out ad2 where take: "?take = (Inr (JoinRequestsTaken out), ad2)"
    by (cases ?take) (auto split: sum.splits tool_output.splits)
  from both(2) join_request_round_trip [OF demo_memory_starts text_env_round_trip calls prod.collapse [symmetric] take]
  show ?thesis by (intro exI [of _ out] conjI) (simp_all only: take fst_conv)
qed




end
