(* ===== verification/Restart_Properties.thy ===== *)
theory Restart_Properties
  imports Delivery_Properties
begin

text \<open>
  What survives a restart of the server on its database file: two runs of tool calls, one before
  and one after, are for the callers a single run over the messages of a group.
\<close>

lemma queue_run_append:
  "queue_run sv calls rs q q1 \<Longrightarrow> queue_run sv calls' rs' q1 q2 \<Longrightarrow> queue_run sv (calls @ calls') (rs @ rs') q q2"
  by (induction sv calls rs q q1 rule: queue_run.induct) auto

lemma request_refs_append: "request_refs (calls @ calls') = request_refs calls @ request_refs calls'"
  by (simp add: request_refs_def)

lemma log_room_mono:
  assumes "log_room q m" "n \<le> m"
  shows "log_room q n"
  unfolding log_room_def
proof
  fix g
  have "int (length (group_log g (q_messages q))) + int m + 2 \<le> 2 ^ 63" using assms(1) by (simp only: log_room_def)
  with assms(2) show "int (length (group_log g (q_messages q))) + int n + 2 \<le> 2 ^ 63" by linarith
qed

context coordinator_storage
begin

text \<open>The second run starts from any state that stands for what the first one left.\<close>

lemma two_runs_then_call:
  assumes "rel (store_of ad) spec_empty" "distinct (request_refs (calls @ calls'))"
    and "int (length (calls @ calls')) + 2 < 2 ^ 63" "serve_all ops sv calls ad = (rs, ad1)"
    and "\<And>a. rel (store_of ad1) a \<Longrightarrow> rel (store_of ad2) a" "serve_all ops sv calls' ad2 = (rs', ad3)"
    and "set (call_refs call) \<inter> set (request_refs (calls @ calls')) = {}"
    and "handle ops sv now stored call client event ad3 = (Inr out, ad4)"
  obtains q q' where "queue_run sv (calls @ calls') (rs @ rs') no_queues q" "contiguous (q_messages q)"
    "queue_call sv client stored call q out q'"
proof -
  have start: "logged no_queues {} spec_empty" "log_room no_queues (length calls + Suc (length calls'))"
    using assms(3) by (simp_all add: logged_def queues_of_def no_queues_def spec_empty_def log_room_def)
  have refs: "distinct (request_refs calls)" "distinct (request_refs calls')"
    "set (request_refs calls) \<inter> set (request_refs calls') = {}"
    using assms(2) by (simp_all add: request_refs_append)
  have room: "log_room no_queues (length calls)" by (rule log_room_mono [OF start(2)]) simp
  obtain a q R where a: "rel (store_of ad1) a" "logged q R a" "queue_run sv calls rs no_queues q"
    "R \<subseteq> {} \<union> set (request_refs calls)"
    using serve_all_log [OF assms(1) start(1) refs(1) _ room assms(4)] by auto
  have after: "log_room q (Suc (length calls'))" by (rule queue_run_room [OF a(3) start(2)])
  then have room': "log_room q (length calls')" by (rule log_room_mono) simp
  have free: "R \<inter> set (request_refs calls') = {}" using a(4) refs(3) by auto
  obtain a' q' R' where a': "rel (store_of ad3) a'" "logged q' R' a'" "queue_run sv calls' rs' q q'"
    "R' \<subseteq> R \<union> set (request_refs calls')"
    using serve_all_log [OF assms(5) [OF a(1)] a(2) refs(2) free room' assms(6)] by blast
  have last: "log_room q' (Suc 0)" by (rule queue_run_room [OF a'(3)]) (use after in simp)
  have "set (call_refs call) \<inter> R' = {}" using assms(7) a(4) a'(4) by (auto simp: request_refs_append)
  from handle_log [OF a'(1,2) this last assms(8)] obtain q'' where "queue_call sv client stored call q' out q''"
    by (auto simp: answered_def)
  moreover have "contiguous (q_messages q')" using rel_inv [OF a'(1)] a'(2) by (auto simp: spec_inv_def logged_def queues_of_def)
  ultimately show thesis using that queue_run_append [OF a(3) a'(3)] by blast
qed

end

lemma restarted:
  fixes ad :: "('j InMemoryInner + connection) CoordinatorAdapter"
  assumes "database_path cfg = Some path" "files path = raw_of d"
    and "main_server files (sequences_of d) os err cfg = Inr (Some ad)"
  shows "\<exists>os'. store_of ad = Inr \<lparr>db = d, outcomes = os'\<rparr>"
proof -
  from started_again [where files = files and d = d and 'a = 'j, OF assms(1,2), of os err] assms(3) show ?thesis by auto
qed

text \<open>
  C3. The messages of a group survive a restart. A server over SQLite serves a run of calls and stops; a
  second one is started on the file it left, under any configuration that names it, and serves
  another run. A fetch then returns exactly the texts successfully posted to the group in either
  run, in order and numbered without a gap, whatever calls failed on the way.
\<close>

theorem messages_survive_restart:
  assumes "starts_new files seq cfg" "main_server files seq os err cfg = Inr (Some ad)" "json_round_trip env"
    and "\<And>s b. b64_decode sv s = Some b \<Longrightarrow> b64_encode sv b = s"
    and "distinct (request_refs (calls @ calls'))" "int (length (calls @ calls')) + 2 < 2 ^ 63"
    and "serve_all (dyn_storage mem_ops (sql_ops env)) sv calls ad = (rs, ad1)" "store_of ad1 = Inr conn"
    and "database_path cfg' = Some path" "files' path = raw_of (db conn)"
    and "main_server files' (sequences_of (db conn)) os' err' cfg' = Inr (Some ad2)"
    and "serve_all (dyn_storage mem_ops (sql_ops env)) sv calls' ad2 = (rs', ad3)"
    and "handle (dyn_storage mem_ops (sql_ops env)) sv now stored (MsgFetchMany \<lparr>fmg_groups = [\<lparr>fgi_gid = g, fgi_after = None\<rparr>]\<rparr>)
      client event ad3 = (Inr (MsgFetched out), ad4)"
  shows "map (\<lambda>m. (gmw_cursor m, gmw_gid m, gmw_msg_64 m)) (fgo_messages out) =
    map (\<lambda>(i, t). (i, g, t)) (zip (map int [1..<Suc (length (posted_texts g (calls @ calls') (rs @ rs')))])
      (posted_texts g (calls @ calls') (rs @ rs')))"
proof -
  from restarted [where files = files' and d = "db conn", OF assms(9-11)] assms(8)
  have same: "case_sum mem_rel (sql_rel env) (store_of ad1) a \<Longrightarrow> case_sum mem_rel (sql_rel env) (store_of ad2) a" for a
    by (auto simp: sql_rel_def)
  obtain q q' where q: "queue_run sv (calls @ calls') (rs @ rs') no_queues q" "contiguous (q_messages q)"
    "queue_call sv client stored (MsgFetchMany \<lparr>fmg_groups = [\<lparr>fgi_gid = g, fgi_after = None\<rparr>]\<rparr>) q (MsgFetched out) q'"
    using coordinator_storage.two_runs_then_call [OF dyn_sqlite [OF assms(3)] started_empty [OF assms(1,2)] assms(5-7) same assms(12) _ assms(13)]
    by auto
  have "fgo_messages out = map (wire_message_struct sv) (log_after g None (q_messages q))"
    using q(3) by (simp add: queue_call_def map_group_messages_def)
  with log_texts_numbered [OF q(2), of sv g] queue_run_views(1) [OF q(1) assms(4), of g] show ?thesis by simp
qed

definition demo_more :: "request list" where
  "demo_more = [(''ab'', None, 0, 9, MsgPost \<lparr>pmi_msg_64 = ''zz'', pmi_gid = ''g''\<rparr>)]"

definition left_behind :: database where
  "left_behind = (case store_of (snd (serve_all demo_ops demo_services demo_posts demo_server)) of
     Inr conn \<Rightarrow> db conn | Inl _ \<Rightarrow> empty_database)"

definition demo_restarted :: "(string InMemoryInner + connection) CoordinatorAdapter" where
  "demo_restarted = main_adapter (Inr \<lparr>db = left_behind, outcomes = []\<rparr>) demo_config"

theorem messages_survive_restart_witness:
  "\<exists>out. fst (handle demo_ops demo_services 0 0 demo_fetch ''eve'' None
       (snd (serve_all demo_ops demo_services demo_more demo_restarted))) = Inr (MsgFetched out) \<and>
     main_server (\<lambda>_. raw_of left_behind) (sequences_of left_behind) [] ''error'' demo_config = Inr (Some demo_restarted) \<and>
     map (\<lambda>m. (gmw_cursor m, gmw_gid m, gmw_msg_64 m)) (fgo_messages out) = [(1, ''g'', ''hi''), (2, ''g'', ''yo''), (3, ''g'', ''zz'')]"
proof -
  let ?run = "serve_all demo_ops demo_services demo_posts demo_server"
  let ?more = "serve_all demo_ops demo_services demo_more demo_restarted"
  let ?fetch = "handle demo_ops demo_services 0 0 demo_fetch ''eve'' None (snd ?more)"
  have refs: "distinct (request_refs (demo_posts @ demo_more))" "int (length (demo_posts @ demo_more)) + 2 < 2 ^ 63"
    by (simp_all add: demo_posts_def demo_more_def request_refs_def)
  have "(case store_of (snd ?run) of Inr _ \<Rightarrow> True | Inl _ \<Rightarrow> False)" by code_simp
  then obtain conn where conn: "store_of (snd ?run) = Inr conn" by (cases "store_of (snd ?run)") auto
  then have left: "left_behind = db conn" by (simp add: left_behind_def)
  have path: "database_path demo_config = Some ''./cordn.sqlite''"
    by (simp add: database_path_def demo_config_def demo_sqlite_config_def unwrap_or_def Let_def)
  have again: "main_server (\<lambda>_. raw_of left_behind) (sequences_of left_behind) [] ''error'' demo_config = Inr (Some demo_restarted)"
    using restart_started [where files = "\<lambda>_. raw_of left_behind", OF path refl] by (simp add: demo_restarted_def)
  have "(case fst ?fetch of Inr (MsgFetched out) \<Rightarrow> True | _ \<Rightarrow> False)" by code_simp
  then obtain out ad2 where fetch: "?fetch = (Inr (MsgFetched out), ad2)"
    by (cases ?fetch) (auto split: sum.splits tool_output.splits)
  have posted: "posted_texts ''g'' (demo_posts @ demo_more) (fst ?run @ fst ?more) = [''hi'', ''yo'', ''zz'']" by code_simp
  have "map (\<lambda>m. (gmw_cursor m, gmw_gid m, gmw_msg_64 m)) (fgo_messages out) = [(1, ''g'', ''hi''), (2, ''g'', ''yo''), (3, ''g'', ''zz'')]"
    using messages_survive_restart [where files' = "\<lambda>_. raw_of (db conn)", OF demo_starts text_env_round_trip demo_codec refs
        prod.collapse [symmetric] conn path refl again [unfolded left] prod.collapse [symmetric] fetch] posted
    by simp
  with fetch again show ?thesis by simp
qed

end
