(* ===== verification/Sqlite_Typing.thy ===== *)
theory Sqlite_Typing
  imports Sqlite_View
begin

text \<open>
  The row readers of \<^verbatim>\<open>storage/sqlite.rs\<close> on the rows of a file, where a column may be missing or hold a value
  of another type: \<^verbatim>\<open>row.get\<close> then fails. After an opening that succeeded, rows with the types of the schema
  are read without such an error, and to the records that the typed tables of \<open>Sqlite\<close> give.
\<close>

section \<open>Reading a column\<close>

datatype read_error = InvalidColumnName string | InvalidColumnType string | FromSqlConversionFailure string

text \<open>\<^verbatim>\<open>row.get\<close> at the types \<^verbatim>\<open>i64\<close>, \<^verbatim>\<open>String\<close>, \<^verbatim>\<open>Vec<u8>\<close> and \<^verbatim>\<open>Option<i64>\<close>.\<close>

definition get_column :: "(sql_value \<Rightarrow> 'a option) \<Rightarrow> string \<Rightarrow> lookup \<Rightarrow> read_error + 'a" where
  "get_column as n r = (case r n of
     None \<Rightarrow> Inl (InvalidColumnName n)
   | Some v \<Rightarrow> (case as v of None \<Rightarrow> Inl (InvalidColumnType n) | Some x \<Rightarrow> Inr x))"

definition get_i64 :: "string \<Rightarrow> lookup \<Rightarrow> read_error + i64" where
  "get_i64 = get_column (\<lambda>v. case v of Integer i \<Rightarrow> Some i | _ \<Rightarrow> None)"

definition get_string :: "string \<Rightarrow> lookup \<Rightarrow> read_error + string" where
  "get_string = get_column (\<lambda>v. case v of Text s \<Rightarrow> Some s | _ \<Rightarrow> None)"

definition get_bytes :: "string \<Rightarrow> lookup \<Rightarrow> read_error + bytes" where
  "get_bytes = get_column (\<lambda>v. case v of Blob b \<Rightarrow> Some b | _ \<Rightarrow> None)"

definition get_optional_i64 :: "string \<Rightarrow> lookup \<Rightarrow> read_error + i64 option" where
  "get_optional_i64 = get_column (\<lambda>v. case v of Integer i \<Rightarrow> Some (Some i) | Null \<Rightarrow> Some None | _ \<Rightarrow> None)"

definition then_get :: "read_error + 'a \<Rightarrow> ('a \<Rightarrow> read_error + 'b) \<Rightarrow> read_error + 'b" where
  "then_get m f = (case m of Inl e \<Rightarrow> Inl e | Inr x \<Rightarrow> f x)"

section \<open>The readers of the source\<close>

definition raw_row_to_key_package :: "'j sqlite_env \<Rightarrow> lookup \<Rightarrow> read_error + 'j PublishedKeyPackageRecord" where
  "raw_row_to_key_package env r =
     then_get (get_string ''publication_event_json'' r) (\<lambda>pub_json.
     then_get (map_sum FromSqlConversionFailure id (json_from_str env pub_json)) (\<lambda>event.
     then_get (get_string ''stable_pubkey'' r) (\<lambda>pk.
     then_get (get_string ''key_package_ref'' r) (\<lambda>x.
     then_get (get_bytes ''key_package_bytes'' r) (\<lambda>b.
     then_get (get_i64 ''is_last_resort'' r) (\<lambda>lr.
     then_get (get_i64 ''published_at'' r) (\<lambda>p.
     Inr \<lparr>stable_pubkey = pk, key_package_bytes = b, key_package_ref = x, is_last_resort = (lr \<noteq> 0), published_at = p,
       publication_event = event\<rparr>)))))))"

definition raw_row_to_welcome :: "lookup \<Rightarrow> read_error + WelcomeQueueRecord" where
  "raw_row_to_welcome r =
     then_get (get_string ''target_stable_pubkey'' r) (\<lambda>pk.
     then_get (get_string ''key_package_reference'' r) (\<lambda>x.
     then_get (get_bytes ''welcome_bytes'' r) (\<lambda>b.
     then_get (get_i64 ''created_at'' r) (\<lambda>c.
     then_get (get_optional_i64 ''join_after_cursor'' r) (\<lambda>after.
     Inr \<lparr>target_stable_pubkey = pk, key_package_reference = x, welcome_bytes = b, w_created_at = c, join_after_cursor = after\<rparr>)))))"

definition raw_row_to_join_request :: "lookup \<Rightarrow> read_error + JoinRequestRecord" where
  "raw_row_to_join_request r =
     then_get (get_string ''group_id'' r) (\<lambda>g.
     then_get (get_string ''requester_stable_pubkey'' r) (\<lambda>pk.
     then_get (get_string ''key_package_ref'' r) (\<lambda>x.
     then_get (get_i64 ''created_at'' r) (\<lambda>c.
     Inr \<lparr>jr_group_id = g, requester_stable_pubkey = pk, jr_key_package_ref = x, jr_created_at = c\<rparr>))))"

definition raw_row_to_group_message :: "lookup \<Rightarrow> read_error + GroupMessageRecord" where
  "raw_row_to_group_message r =
     then_get (get_i64 ''cursor'' r) (\<lambda>n.
     then_get (get_string ''group_id'' r) (\<lambda>g.
     then_get (get_bytes ''opaque_message'' r) (\<lambda>b.
     then_get (get_i64 ''created_at'' r) (\<lambda>c.
     Inr \<lparr>cursor = n, gm_group_id = g, opaque_message = b, gm_created_at = c\<rparr>))))"

section \<open>Well-typed rows do not get stuck\<close>

text \<open>The columns that the schema declares for a table, each with the keys of its statement.\<close>

fun declared_in :: "string \<Rightarrow> schema_step \<Rightarrow> (column \<times> string list) list" where
  "declared_in t (Ensure (CREATE_TABLE u cs ks)) = (if u = t then map (\<lambda>c. (c, ks)) cs else [])"
| "declared_in t (Column u c) = (if u = t then [(c, [])] else [])"
| "declared_in t _ = []"

text \<open>
  A row whose values have the declared types, \<^verbatim>\<open>id\<close> aside, which only the SQL statements use. A column that may
  be null must still be there.
\<close>

definition holds_typed :: "string list \<Rightarrow> lookup \<Rightarrow> column \<Rightarrow> bool" where
  "holds_typed ks r c \<longleftrightarrow> conforms ks r c \<and> r (col_name c) \<noteq> None"

definition row_typed :: "string \<Rightarrow> lookup \<Rightarrow> bool" where
  "row_typed t r \<longleftrightarrow> list_all (\<lambda>(c, ks). col_name c = ''id'' \<or> holds_typed ks r c) (concat (map (declared_in t) schema_steps))"

definition column_error :: "read_error + 'a \<Rightarrow> bool" where
  "column_error res \<longleftrightarrow> (\<exists>n. res = Inl (InvalidColumnName n) \<or> res = Inl (InvalidColumnType n))"

lemma holds_typed_get:
  "holds_typed ks r (not_null n INTEGER) \<longleftrightarrow> (\<exists>i. get_i64 n r = Inr i)"
  "holds_typed ks r (not_null n TEXT) \<longleftrightarrow> (\<exists>s. get_string n r = Inr s)"
  "holds_typed ks r (not_null n BLOB) \<longleftrightarrow> (\<exists>b. get_bytes n r = Inr b)"
  "holds_typed [] r (nullable n INTEGER) \<longleftrightarrow> (\<exists>x. get_optional_i64 n r = Inr x)"
  by (auto simp: holds_typed_def conforms_def get_i64_def get_string_def get_bytes_def get_optional_i64_def get_column_def
      split: option.splits sql_value.splits)

lemma row_typed_columns:
  "row_typed ''key_packages'' r \<longleftrightarrow> (\<exists>pk. get_string ''stable_pubkey'' r = Inr pk) \<and> (\<exists>x. get_string ''key_package_ref'' r = Inr x) \<and>
     (\<exists>b. get_bytes ''key_package_bytes'' r = Inr b) \<and> (\<exists>lr. get_i64 ''is_last_resort'' r = Inr lr) \<and>
     (\<exists>p. get_i64 ''published_at'' r = Inr p) \<and> (\<exists>j. get_string ''publication_event_json'' r = Inr j)"
  "row_typed ''welcomes'' r \<longleftrightarrow> (\<exists>pk. get_string ''target_stable_pubkey'' r = Inr pk) \<and>
     (\<exists>x. get_string ''key_package_reference'' r = Inr x) \<and> (\<exists>b. get_bytes ''welcome_bytes'' r = Inr b) \<and>
     (\<exists>c. get_i64 ''created_at'' r = Inr c) \<and> (\<exists>after. get_optional_i64 ''join_after_cursor'' r = Inr after)"
  "row_typed ''join_requests'' r \<longleftrightarrow> (\<exists>g. get_string ''group_id'' r = Inr g) \<and> (\<exists>pk. get_string ''requester_stable_pubkey'' r = Inr pk) \<and>
     (\<exists>x. get_string ''key_package_ref'' r = Inr x) \<and> (\<exists>c. get_i64 ''created_at'' r = Inr c)"
  "row_typed ''group_messages'' r \<longleftrightarrow> (\<exists>n. get_i64 ''cursor'' r = Inr n) \<and> (\<exists>g. get_string ''group_id'' r = Inr g) \<and>
     (\<exists>b. get_bytes ''opaque_message'' r = Inr b) \<and> (\<exists>c. get_i64 ''created_at'' r = Inr c)"
  by (simp_all add: row_typed_def schema_steps_def KEY_PACKAGE_WELCOME_JOIN_SCHEMA_SQL_def GROUP_SCHEMA_SQL_def holds_typed_get)

lemma then_get_Inr: "then_get m f = Inr y \<longleftrightarrow> (\<exists>x. m = Inr x \<and> f x = Inr y)"
  by (auto simp: then_get_def split: sum.splits)

text \<open>A reader that succeeds has seen the types of the schema, and the types of the schema rule out a failure to read a column.\<close>

lemma reader_typed:
  "(\<exists>x. raw_row_to_welcome r = Inr x) \<longleftrightarrow> row_typed ''welcomes'' r"
  "(\<exists>x. raw_row_to_join_request r = Inr x) \<longleftrightarrow> row_typed ''join_requests'' r"
  "(\<exists>x. raw_row_to_group_message r = Inr x) \<longleftrightarrow> row_typed ''group_messages'' r"
  "raw_row_to_key_package env r = Inr k \<Longrightarrow> row_typed ''key_packages'' r"
  by (auto simp: raw_row_to_welcome_def raw_row_to_join_request_def raw_row_to_group_message_def raw_row_to_key_package_def
      then_get_Inr row_typed_columns)

lemma key_package_reader:
  assumes "row_typed ''key_packages'' r"
  obtains j where "r ''publication_event_json'' = Some (Text j)"
    "\<And>e. json_from_str env j = Inl e \<Longrightarrow> raw_row_to_key_package env r = Inl (FromSqlConversionFailure e)"
    "\<And>v. json_from_str env j = Inr v \<Longrightarrow> \<exists>k. raw_row_to_key_package env r = Inr k"
proof -
  from assms obtain j where j: "get_string ''publication_event_json'' r = Inr j" by (auto simp: row_typed_columns)
  then have "r ''publication_event_json'' = Some (Text j)"
    by (auto simp: get_string_def get_column_def split: option.splits sql_value.splits)
  moreover have "raw_row_to_key_package env r = Inl (FromSqlConversionFailure e)" if "json_from_str env j = Inl e" for e
    using that j by (simp add: raw_row_to_key_package_def then_get_def)
  moreover have "\<exists>k. raw_row_to_key_package env r = Inr k" if "json_from_str env j = Inr v" for v
    using that j assms by (auto simp: raw_row_to_key_package_def row_typed_columns then_get_def)
  ultimately show thesis by (rule that)
qed

section \<open>Rows and their columns\<close>

text \<open>A row has a value for each column of its table, and no other.\<close>

definition table_shaped :: "raw_table \<Rightarrow> bool" where
  "table_shaped tab \<longleftrightarrow> (\<forall>r \<in> set (raw_rows tab). dom (map_of r) = set (map col_name (columns tab)))"

definition shaped :: "raw_db \<Rightarrow> bool" where
  "shaped d \<longleftrightarrow> (\<forall>t tab. map_of (raw_tables d) t = Some tab \<longrightarrow> table_shaped tab)"

lemma shapedD:
  assumes "shaped d" "r \<in> set (rows_of d t)"
  shows "dom (map_of r) = set (column_names d t)"
proof -
  from assms(2) obtain tab where t: "map_of (raw_tables d) t = Some tab" "r \<in> set (raw_rows tab)"
    by (cases "map_of (raw_tables d) t") (auto simp: rows_of_def)
  with assms(1) have "table_shaped tab" by (simp add: shaped_def)
  with t show ?thesis by (simp add: table_shaped_def column_names_some)
qed

lemma shaped_update:
  assumes "shaped d" "table_shaped tab"
  shows "shaped (d\<lparr>raw_tables := AList.update t tab (raw_tables d)\<rparr>)"
  using assms by (auto simp: shaped_def update_conv')

lemma table_shaped_steps:
  "table_shaped \<lparr>columns = cs, key_columns = ks, raw_rows = []\<rparr>"
  "table_shaped tab \<Longrightarrow> table_shaped (tab\<lparr>columns := columns tab @ [c], raw_rows := map (\<lambda>r. r @ [(col_name c, Null)]) (raw_rows tab)\<rparr>)"
  by (simp_all add: table_shaped_def)

lemma table_shaped_drop:
  assumes "table_shaped tab"
  shows "table_shaped (tab\<lparr>columns := filter (\<lambda>x. col_name x \<noteq> n) (columns tab), raw_rows := map (AList.delete n) (raw_rows tab)\<rparr>)"
proof -
  have "col_name ` set (columns tab) - {n} = col_name ` {x \<in> set (columns tab). col_name x \<noteq> n}" by auto
  with assms show ?thesis by (simp add: table_shaped_def delete_conv')
qed

lemma step_shaped:
  assumes "ensure_step i d = Some d'" "creates_only i" "shaped d"
  shows "shaped d'"
proof -
  have old: "map_of (raw_tables d) t = Some tab \<Longrightarrow> table_shaped tab" for t tab using assms(3) by (simp add: shaped_def)
  show ?thesis
  proof (cases i)
    case (Ensure s)
    with assms old show ?thesis
      by (cases s) (auto simp: shaped_def map_add_def table_shaped_steps(1) split: option.splits if_splits)
  qed (use assms(1,3) in \<open>auto intro!: shaped_update table_shaped_steps(2) table_shaped_drop dest: old split: option.splits if_splits\<close>)
qed

lemma steps_shaped:
  "list_all creates_only is \<Longrightarrow> run_steps ensure_step is d = Some d' \<Longrightarrow> shaped d \<Longrightarrow> shaped d'"
proof (induction "is" arbitrary: d)
  case (Cons i "is")
  from Cons.prems(2) obtain d1 where d1: "ensure_step i d = Some d1" "run_steps ensure_step is d1 = Some d'"
    by (auto simp: bind_eq_Some_conv)
  with Cons.prems(1,3) Cons.IH [of d1] step_shaped [OF d1(1)] show ?case by simp
qed simp

section \<open>The typed tables\<close>

text \<open>The readers of the source give, on the rows of a file, the records of the typed tables, in order.\<close>

definition readers_agree :: "'j sqlite_env \<Rightarrow> raw_db \<Rightarrow> database \<Rightarrow> bool" where
  "readers_agree env d dt \<longleftrightarrow>
     map (\<lambda>r. raw_row_to_key_package env (map_of r)) (rows_of d ''key_packages'') =
       map (\<lambda>k. map_sum FromSqlConversionFailure id (row_to_key_package env k)) (rows (t_key_packages dt)) \<and>
     map (\<lambda>r. raw_row_to_welcome (map_of r)) (rows_of d ''welcomes'') = map (\<lambda>w. Inr (row_to_welcome w)) (rows (t_welcomes dt)) \<and>
     map (\<lambda>r. raw_row_to_join_request (map_of r)) (rows_of d ''join_requests'') =
       map (\<lambda>j. Inr (row_to_join_request j)) (rows (t_join_requests dt)) \<and>
     map (\<lambda>r. raw_row_to_group_message (map_of r)) (rows_of d ''group_messages'') =
       map (\<lambda>m. Inr (row_to_group_message m)) (rows (t_group_messages dt))"

lemma at_get:
  "int_at n r = Some i \<Longrightarrow> get_i64 n r = Inr i"
  "text_at n r = Some s \<Longrightarrow> get_string n r = Inr s"
  "blob_at n r = Some b \<Longrightarrow> get_bytes n r = Inr b"
  "nullable_int_at n r = Some x \<Longrightarrow> r n \<noteq> None \<Longrightarrow> get_optional_i64 n r = Inr x"
  by (auto simp: int_at_def text_at_def blob_at_def nullable_int_at_def get_i64_def get_string_def get_bytes_def
      get_optional_i64_def get_column_def split: option.splits sql_value.splits)

lemma reader_of_typed_row:
  "read_kp_row r = Some k \<Longrightarrow> raw_row_to_key_package env r = map_sum FromSqlConversionFailure id (row_to_key_package env k)"
  "read_welcome_row r = Some w \<Longrightarrow> r ''join_after_cursor'' \<noteq> None \<Longrightarrow> raw_row_to_welcome r = Inr (row_to_welcome w)"
  "read_join_row r = Some j \<Longrightarrow> raw_row_to_join_request r = Inr (row_to_join_request j)"
  "read_message_row r = Some m \<Longrightarrow> raw_row_to_group_message r = Inr (row_to_group_message m)"
  by (auto simp: read_kp_row_def read_welcome_row_def read_join_row_def read_message_row_def bind_eq_Some_conv
      raw_row_to_key_package_def raw_row_to_welcome_def raw_row_to_join_request_def raw_row_to_group_message_def then_get_def
      row_to_key_package_def row_to_welcome_def row_to_join_request_def row_to_group_message_def split: sum.split dest!: at_get)

lemma those_map:
  assumes "those (map f xs) = Some ys" "\<And>x y. x \<in> set xs \<Longrightarrow> f x = Some y \<Longrightarrow> g x = h y"
  shows "map g xs = map h ys"
  using assms by (induction xs arbitrary: ys) (auto split: option.splits)

lemma readers_of_database:
  assumes "database_of seq d = Some dt" "\<And>r. r \<in> set (rows_of d ''welcomes'') \<Longrightarrow> map_of r ''join_after_cursor'' \<noteq> None"
  shows "readers_agree env d dt"
proof -
  from assms(1) have rows:
    "those (map (\<lambda>r. read_kp_row (map_of r)) (rows_of d ''key_packages'')) = Some (rows (t_key_packages dt))"
    "those (map (\<lambda>r. read_welcome_row (map_of r)) (rows_of d ''welcomes'')) = Some (rows (t_welcomes dt))"
    "those (map (\<lambda>r. read_join_row (map_of r)) (rows_of d ''join_requests'')) = Some (rows (t_join_requests dt))"
    "those (map (\<lambda>r. read_message_row (map_of r)) (rows_of d ''group_messages'')) = Some (rows (t_group_messages dt))"
    by (auto simp: database_of_def read_table_def bind_eq_Some_conv)
  show ?thesis
    unfolding readers_agree_def
  proof (intro conjI)
    show "map (\<lambda>r. raw_row_to_key_package env (map_of r)) (rows_of d ''key_packages'') =
       map (\<lambda>k. map_sum FromSqlConversionFailure id (row_to_key_package env k)) (rows (t_key_packages dt))"
      by (rule those_map [OF rows(1)]) (rule reader_of_typed_row(1))
    show "map (\<lambda>r. raw_row_to_welcome (map_of r)) (rows_of d ''welcomes'') = map (\<lambda>w. Inr (row_to_welcome w)) (rows (t_welcomes dt))"
      by (rule those_map [OF rows(2)]) (rule reader_of_typed_row(2), simp_all add: assms(2))
    show "map (\<lambda>r. raw_row_to_join_request (map_of r)) (rows_of d ''join_requests'') =
       map (\<lambda>j. Inr (row_to_join_request j)) (rows (t_join_requests dt))"
      by (rule those_map [OF rows(3)]) (rule reader_of_typed_row(3))
    show "map (\<lambda>r. raw_row_to_group_message (map_of r)) (rows_of d ''group_messages'') =
       map (\<lambda>m. Inr (row_to_group_message m)) (rows (t_group_messages dt))"
      by (rule those_map [OF rows(4)]) (rule reader_of_typed_row(4))
  qed
qed

section \<open>Properties\<close>

text \<open>
  C17. Opening a file makes its rows readable, and reads what was there. If every row of the file has a value for
  each column of its table, with the type its schema declares, then after an opening that succeeded the
  same holds, and the source's row readers, which fail on a column that is missing or of another type,
  give on every row the record of the typed tables of the file as it was; only the JSON of a
  publication event may still be refused.
\<close>

theorem opening_is_typed:
  assumes "schema_init synchronous c = (Inr (), c')" "shaped (raw c)" "well_typed (raw c)"
  shows "shaped (raw c') \<and> well_typed (raw c') \<and>
    (\<exists>d. database_of seq (raw c) = Some d \<and> database_of seq (raw c') = Some d \<and> readers_agree env (raw c') d)"
proof -
  note run = doesD_Inr [OF does_init assms(1)] and same = opening_view [OF assms(1), of seq]
  have shaped: "shaped (raw c')" by (rule steps_shaped [OF schema_steps_compatible(1) run assms(2)])
  from assms(3) obtain d where d: "database_of seq (raw c) = Some d" by (auto simp: typed_view [of _ seq])
  have "''join_after_cursor'' \<in> set (column_names (raw c') ''welcomes'')"
    using schema.run_met [OF order_refl run, of "Column ''welcomes'' (nullable ''join_after_cursor'' INTEGER)"]
    by (simp add: schema_steps_def)
  then have "map_of r ''join_after_cursor'' \<noteq> None" if "r \<in> set (rows_of (raw c') ''welcomes'')" for r
    using shapedD [OF shaped that] by blast
  with d same have "readers_agree env (raw c') d" by (intro readers_of_database) simp_all
  with shaped d same show ?thesis by (simp add: typed_view [of _ seq])
qed

text \<open>A file of a version without the cursor to join after, with one welcome.\<close>

definition old_welcome_db :: raw_db where
  "old_welcome_db = \<lparr>raw_tables =
     [(''welcomes'', \<lparr>columns = [nullable ''id'' INTEGER, not_null ''target_stable_pubkey'' TEXT,
         not_null ''key_package_reference'' TEXT, not_null ''welcome_bytes'' BLOB, not_null ''created_at'' INTEGER],
       key_columns = [''id''],
       raw_rows = [[(''id'', Integer 1), (''target_stable_pubkey'', Text ''bob''), (''key_package_reference'', Text ''r1''),
         (''welcome_bytes'', Blob [7]), (''created_at'', Integer 5)]]\<rparr>)], raw_indexes = []\<rparr>"

definition old_welcome_connection :: schema_connection where
  "old_welcome_connection = \<lparr>raw = old_welcome_db, pragmas = [], os_engine = [], engine_error = ''error''\<rparr>"

theorem opening_is_typed_witness:
  "map (\<lambda>r. raw_row_to_welcome (map_of r)) (rows_of old_welcome_db ''welcomes'') = [Inl (InvalidColumnName ''join_after_cursor'')] \<and>
   map (\<lambda>r. raw_row_to_welcome (map_of r)) (rows_of (raw (snd (schema_init Full old_welcome_connection))) ''welcomes'') =
     [Inr \<lparr>target_stable_pubkey = ''bob'', key_package_reference = ''r1'', welcome_bytes = [7], w_created_at = 5, join_after_cursor = None\<rparr>]"
proof -
  let ?run = "schema_init Full old_welcome_connection"
  have raw: "raw old_welcome_connection = old_welcome_db" by (simp add: old_welcome_connection_def)
  have "fst ?run = Inr ()" by code_simp
  then have run: "?run = (Inr (), snd ?run)" by (simp add: prod_eq_iff)
  have "shaped (raw old_welcome_connection)"
    by (auto simp: raw shaped_def table_shaped_def old_welcome_db_def split: if_splits)
  moreover have "well_typed (raw old_welcome_connection)" unfolding raw by code_simp
  ultimately obtain d where d: "database_of (\<lambda>_. 1) old_welcome_db = Some d" "readers_agree undefined (raw (snd ?run)) d"
    using opening_is_typed [OF run, of "\<lambda>_. 1" undefined] unfolding raw by auto
  have "map_option (\<lambda>d. map row_to_welcome (rows (t_welcomes d))) (database_of (\<lambda>_. 1) old_welcome_db) =
      Some [\<lparr>target_stable_pubkey = ''bob'', key_package_reference = ''r1'', welcome_bytes = [7], w_created_at = 5, join_after_cursor = None\<rparr>]"
    by code_simp
  with d(1) have "map row_to_welcome (rows (t_welcomes d)) =
      [\<lparr>target_stable_pubkey = ''bob'', key_package_reference = ''r1'', welcome_bytes = [7], w_created_at = 5, join_after_cursor = None\<rparr>]"
    by simp
  then have "map Inr (map row_to_welcome (rows (t_welcomes d))) = [Inr \<lparr>target_stable_pubkey = ''bob'', key_package_reference = ''r1'',
      welcome_bytes = [7], w_created_at = 5, join_after_cursor = None\<rparr> :: read_error + WelcomeQueueRecord]" by (simp only: list.map)
  with d(2) have "map (\<lambda>r. raw_row_to_welcome (map_of r)) (rows_of (raw (snd ?run)) ''welcomes'') =
      [Inr \<lparr>target_stable_pubkey = ''bob'', key_package_reference = ''r1'', welcome_bytes = [7], w_created_at = 5, join_after_cursor = None\<rparr>]"
    by (simp add: readers_agree_def comp_def)
  moreover have "map (\<lambda>r. raw_row_to_welcome (map_of r)) (rows_of old_welcome_db ''welcomes'') = [Inl (InvalidColumnName ''join_after_cursor'')]"
    by code_simp
  ultimately show ?thesis by (rule conjI [rotated])
qed

end
