(* ===== verification/Spec2Isabelle.thy ===== *)
theory Spec2Isabelle
  imports Coordinator_Properties Rate_Limit_Properties Mls_Parse_Properties Config_Properties
    Restart_Properties Sqlite_Typing
begin

text \<open>
  \<^bold>\<open>A verification of the cordn coordinator\<close>

  cordn is a coordinator for MLS group messaging over Nostr. It stores key packages, welcomes, join
  requests and group messages for its clients, answers their tool calls, and streams new messages to the
  subscribers of a group. This development models the program in the crates \<^verbatim>\<open>crates/cordn-core\<close> and
  \<^verbatim>\<open>crates/cordn-server\<close> as executable functions, and proves what the program promises.

  \<^bold>\<open>The program\<close>

  \<^verbatim>\<open>main\<close> reads a configuration from the environment, opens a storage backend (in memory or SQLite), puts a
  \<^verbatim>\<open>Coordinator\<close> on it, and a \<^verbatim>\<open>CoordinatorAdapter\<close> with a rate limiter on the coordinator. A tool call reaches
  \<^verbatim>\<open>CordnServer\<close>, which takes the injected caller from the request's context and calls a handler of the
  adapter. A handler asks the rate limiter, validates the input, decodes its payload (a key package goes
  through the parser \<^verbatim>\<open>mls_parse.rs\<close>), and calls an operation of the coordinator, which calls the
  storage. Posting a message appends it to the group's log under the storage lock, and then fans it out,
  under the lock of the subscriber registry, to the channels of the group's subscribers; a subscription
  registers, fetches a backlog, merges it with what arrived meanwhile, and the adapter's streaming loop writes
  the channel to the client.

  \<^bold>\<open>Vocabulary\<close>

  \<^item> \<open>Prelude\<close> names the Rust types. A string is its UTF-8 bytes; \<^verbatim>\<open>i64\<close> is an integer whose additions and
    subtractions go through \<open>wrap64\<close>, the wrap-around of a release build (a debug build panics
    there); \<^verbatim>\<open>usize\<close> is a natural number; maps of the source are association lists with distinct keys. An
    operation on a state \<open>'s\<close> is a function \<open>'s \<Rightarrow> (error + result) \<times> 's\<close>.
  \<^item> \<open>Types\<close>: the records of \<^verbatim>\<open>types.rs\<close>, and the trait \<^verbatim>\<open>CoordinatorStorage\<close> of \<^verbatim>\<open>storage/mod.rs\<close> as a record of
    operations. \<open>Contracts\<close>: the shapes and tool names of \<^verbatim>\<open>contracts.rs\<close>. \<open>Rust_Strings\<close> and \<open>F64\<close>: the string
    functions and the IEEE double arithmetic of Rust that the program uses.

  \<^bold>\<open>Storage\<close>

  \<^item> \<open>Storage_Spec\<close> is the abstract specification: four sequences, one operation per trait method, and the
    locale \<open>coordinator_storage\<close> that says what it is for a backend to implement them. Its laws allow a
    backend that is not reliable to fail with a \<open>Backend\<close> error, which must leave the state alone.
    \<open>Storage_Calls\<close> has the sequences of calls and what every backend of the locale guarantees for them.
  \<^item> \<open>In_Memory\<close> models \<^verbatim>\<open>storage/in_memory.rs\<close> (state \<open>InMemoryInner\<close>, operations \<open>mem_\<dots>\<close>) and interprets the
    locale as \<open>mem\<close>.
  \<^item> \<open>Sqlite\<close> models the operations of \<^verbatim>\<open>storage/sqlite.rs\<close> (\<open>sql_\<dots>\<close>) over typed tables, statement by statement and
    driver call by driver call. \<open>Sqlite_Refine\<close> and \<open>Sqlite_Contract\<close> prove the locale's laws
    (\<open>sql_storage\<close>, interpreted as \<open>sql_text\<close>): transactions and single statements are atomic under
    any failure of the engine.
  \<^item> \<open>Sqlite_Schema\<close> models \<^verbatim>\<open>open\<close> and \<^verbatim>\<open>init\<close>: the schema, the migrations and the pragmas, over tables with any
    columns. \<open>Sqlite_Migration\<close> proves in the locale \<open>ensured_steps\<close>, interpreted as \<open>schema\<close>, why it may be
    interrupted and repeated. Names of tables and columns are compared as they are written; SQLite ignores their
    case, which no statement of the source depends on. \<open>Sqlite_View\<close> relates the two pictures: the typed tables are what a
    file holds. \<open>Sqlite_Typing\<close> has the source's row readers with the errors of \<^verbatim>\<open>row.get\<close>, and shows that after
    opening a well-typed file they agree with the typed tables. \<open>Sqlite_Restart\<close> has the file that the operations leave behind.
  \<^item> \<open>Storage_Properties\<close>, \<open>Sqlite_Migration_Properties\<close>, \<open>Sqlite_Typing\<close>: the two backends answer alike over every run
    of calls; calls are atomic; logs are gapless and key packages are taken once; opening is resumable, keeps
    the data and respects the types of the schema.

  \<^bold>\<open>The coordinator\<close>

  \<^item> \<open>Coordinator\<close> models \<^verbatim>\<open>coordinator.rs\<close>: subscribers, the registry with its reference counts, every operation, both
    kinds of subscription, and the body of the clean-up task. A channel is the list of the records
    sent through it.
  \<^item> \<open>Coordinator_Registry\<close> and \<open>Coordinator_Delivery\<close> have the laws of the registry and of one subscriber's
    deduplication. \<open>Coordinator_Interleaving\<close> cuts the operations at their lock sections; its events in any
    order are the executions of concurrent callers.
  \<^item> \<open>Coordinator_Exactly_Once\<close> and \<open>Coordinator_Properties\<close>: in every interleaving the registry leaks nothing and
    cursors are delivered strictly increasing; where posts do not overlap, a subscription gets
    exactly the log above its cursor, once and in order. Where they overlap, it gets the records that are not
    overtaken by a higher cursor. Two executions show what overlapping posts and repeated groups lose.

  \<^bold>\<open>Parser, rate limiter, configuration\<close>

  \<^item> \<open>Mls_Parse\<close> and \<open>Mls_Parse_Properties\<close>: \<^verbatim>\<open>mls_parse.rs\<close> accepts exactly the words of a grammar of the wire format; the two
    loops of the source are interpretations (\<open>dictionary\<close>, \<open>extensions\<close>) of the locale \<open>field_walk\<close>.
  \<^item> \<open>Rate_Limit\<close> and \<open>Rate_Limit_Properties\<close>: \<^verbatim>\<open>ratelimit.rs\<close> over doubles with their rounding; the bounds hold for every sequence
    of checks.
  \<^item> \<open>Config\<close> and \<open>Config_Properties\<close>: \<^verbatim>\<open>config.rs\<close>, the environment files, and what an accepted or a refused configuration
    means.

  \<^bold>\<open>The server\<close>

  \<^item> \<open>Adapter\<close> models every handler of \<^verbatim>\<open>adapter.rs\<close> with its checks in their order, the quota with its evictions, and
    the streaming loop; \<open>Methods\<close> models the tools of \<^verbatim>\<open>methods.rs\<close> and the stream writer: \<open>handle\<close> and
    \<open>serve\<close> dispatch the ten tools that answer at once, \<open>msg_sub_many\<close> is the eleventh, which streams. A handler
    fails with an error of the tool or panics.
  \<^item> \<open>Adapter_Lemmas\<close> and \<open>Adapter_Logic\<close> (a Hoare logic over \<open>coordinator_storage\<close>) carry \<open>Adapter_Publish\<close>, \<open>Adapter_Remove\<close>,
    \<open>Adapter_Log\<close> and \<open>Adapter_Runs\<close>: what each call answers and does to the stored queues, and what whole runs do.
    \<open>Adapter_Refine\<close> simulates a backend by the specification, call by call. \<open>Adapter_Stream\<close> is about the streaming loop.
  \<^item> \<open>Server\<close> and \<open>Server_Storage\<close> model what \<^verbatim>\<open>main\<close> builds: the choice of the backend behind the trait (\<open>dyn_storage\<close>,
    interpreted as \<open>dyn_text\<close>), the coordinator and the adapter.
  \<^item> \<open>Adapter_Properties\<close>, \<open>Server_Properties\<close>, \<open>Delivery_Properties\<close>, \<open>Restart_Properties\<close>: identities are isolated, publications are bound to
    their signers and within their quota, a failed publication costs at most last-resort packages, a denied call
    changes nothing; the started server answers alike on
    either backend, delivers messages, welcomes and join requests end to end, and keeps them over a
    restart.

  \<^bold>\<open>Parameters and hypotheses\<close>

  Code of other packages is a parameter. \<open>services\<close> has base64 and \<^verbatim>\<open>serde_json\<close> as the adapter calls them, \<open>sqlite_env\<close>
  the JSON text of stored events; the hypotheses on them are that JSON is read back as it was written
  (\<open>json_round_trip\<close>) and, where a text is followed through the store, that base64 decodes only what it encodes. The type of
  JSON values is the type variable \<open>'j\<close>. The engine of SQLite is a list of outcomes, one for each
  driver call, on which nothing is assumed unless a statement says that it is empty. \<open>OpenStreamWriter\<close> of the
  transport and \<open>inbound_to_value\<close> are arguments of the tools. The clock is an argument of each call.

  Two bounds recur. A run of calls is shorter than \<open>2 ^ 63\<close>, so that no cursor wraps around; and a reference is
  published at most once, because the backends differ when it is published twice (a theorem shows how).
  Every loop of the model is structurally recursive or has a proved measure, and the streaming loop consumes a list of
  turns; no definition takes fuel.

  \<^bold>\<open>Not modelled\<close>

  \<^item> Calls of external packages in \<^verbatim>\<open>main.rs\<close> and \<^verbatim>\<open>methods.rs\<close>: logging, the signing key, the Nostr transport and its
    configuration, the banner, signals, the router of the tools, \<^verbatim>\<open>get_info\<close> and the JSON text of results.
  \<^item> A crash within a call: the file that a restart finds is the one a completed call left. The rows of a file
    are read by name and type; affinities and the other coercions of SQLite are not used by the source.
  \<^item> Poisoned locks and exhausted memory; the scheduling of the clean-up task (its body is modelled).
  \<^item> The module declarations of the two \<^verbatim>\<open>lib.rs\<close> files, the benchmarks in \<^verbatim>\<open>examples\<close>, and the tests.
\<close>

end
